(* ===== verification/Prelude.thy ===== *)
theory Prelude
  imports Main "HOL-Library.AList" "HOL-Library.Word" "HOL-Library.Code_Target_Nat"
begin

text \<open>
  Shared vocabulary of the development: the Go types the source uses, the
  functions of the packages \<^verbatim>\<open>strings\<close>, \<^verbatim>\<open>bytes\<close>, \<^verbatim>\<open>unicode/utf8\<close> and
  \<^verbatim>\<open>encoding/binary\<close> that it calls, generic lemmas on lists and association
  lists, and the locale of components whose operations keep an invariant.

  A Go \<^verbatim>\<open>string\<close> and a Go \<^verbatim>\<open>[]byte\<close> are both byte sequences: the type
  \<open>char list\<close> (a \<open>char\<close> is exactly eight bits). Unsigned Go integers are words
  of their width. A Go \<^verbatim>\<open>map\<close> that the code ranges over is an association list
  with distinct keys, whose list order stands for the iteration order that the
  Go runtime leaves unspecified; a \<^verbatim>\<open>map\<close> that is only indexed is a HOL map.
\<close>

named_theorems go_defs "definitions of the Go library functions"
named_theorems go_eval "guarded equations that evaluate recursive functions on closed terms"
named_theorems event_defs "definitions of the per-event operations of the session map"

type_synonym bytes = "char list"
type_synonym u8 = "8 word"
type_synonym u16 = "16 word"
type_synonym u32 = "32 word"
type_synonym u64 = "64 word"

section \<open>Package strings\<close>

definition HasPrefix :: "string \<Rightarrow> string \<Rightarrow> bool" where
  [go_defs]: "HasPrefix s p \<longleftrightarrow> take (length p) s = p"

text \<open>\<^verbatim>\<open>strings.Index\<close>, \<^verbatim>\<open>bytes.Index\<close>: offset of the first occurrence.\<close>

fun Index :: "string \<Rightarrow> string \<Rightarrow> nat option" where
  "Index [] p = (if p = [] then Some 0 else None)"
| "Index (c # s) p = (if HasPrefix (c # s) p then Some 0 else map_option Suc (Index s p))"

definition Contains :: "string \<Rightarrow> string \<Rightarrow> bool" where
  [go_defs]: "Contains s p \<longleftrightarrow> Index s p \<noteq> None"

text \<open>\<^verbatim>\<open>strings.Split\<close> and \<^verbatim>\<open>strings.SplitN\<close> with a one-byte separator.\<close>

fun Split :: "char \<Rightarrow> string \<Rightarrow> string list" where
  "Split d [] = [[]]"
| "Split d (c # s) =
     (if c = d then [] # Split d s
      else (case Split d s of [] \<Rightarrow> [[c]] | w # ws \<Rightarrow> (c # w) # ws))"

fun SplitN :: "nat \<Rightarrow> char \<Rightarrow> string \<Rightarrow> string list" where
  "SplitN 0 d s = []"
| "SplitN (Suc 0) d s = [s]"
| "SplitN (Suc (Suc n)) d s =
     (if d \<in> set s
      then takeWhile (\<lambda>c. c \<noteq> d) s # SplitN (Suc n) d (tl (dropWhile (\<lambda>c. c \<noteq> d) s))
      else [s])"

definition TrimRightByte :: "char \<Rightarrow> string \<Rightarrow> string" where
  [go_defs]: "TrimRightByte d s = rev (dropWhile (\<lambda>c. c = d) (rev s))"

lemma HasPrefix_append [simp]: "HasPrefix (p @ s) p"
  by (simp add: HasPrefix_def)

lemma HasPrefix_Nil [simp]: "HasPrefix s []"
  by (simp add: HasPrefix_def)

lemma HasPrefixE:
  assumes "HasPrefix s p"
  obtains r where "s = p @ r"
  using assms unfolding HasPrefix_def by (metis append_take_drop_id)

lemma HasPrefix_length: "HasPrefix s p \<Longrightarrow> length p \<le> length s"
  by (metis HasPrefix_def nat_le_linear take_all_iff)

lemma Index_SomeD: "Index s p = Some i \<Longrightarrow> i + length p \<le> length s"
proof (induction s arbitrary: i)
  case (Cons c s)
  show ?case
  proof (cases "HasPrefix (c # s) p")
    case True
    with Cons.prems have "i = 0" by simp
    with HasPrefix_length [OF True] show ?thesis by simp
  next
    case False
    with Cons.prems obtain j where "Index s p = Some j" "i = Suc j" by auto
    with Cons.IH show ?thesis by fastforce
  qed
qed (simp split: if_splits)

lemma Index_occurs: "Index s p = Some i \<Longrightarrow> HasPrefix (drop i s) p"
  by (induction s arbitrary: i) (auto split: if_splits)

lemma Index_first: "Index s p = Some i \<Longrightarrow> j < i \<Longrightarrow> \<not> HasPrefix (drop j s) p"
proof (induction s arbitrary: i j)
  case (Cons c s)
  then show ?case by (cases j) (auto split: if_splits)
qed (simp split: if_splits)

lemma Index_None_iff: "Index s p = None \<longleftrightarrow> (\<forall>i \<le> length s. \<not> HasPrefix (drop i s) p)"
proof (induction s)
  case (Cons c s)
  show ?case
  proof
    assume "Index (c # s) p = None"
    then have "\<not> HasPrefix (c # s) p" "Index s p = None" by (auto split: if_splits)
    with Cons.IH show "\<forall>i \<le> length (c # s). \<not> HasPrefix (drop i (c # s)) p"
      by (metis Suc_le_mono drop_0 drop_Suc_Cons length_Cons not0_implies_Suc)
  next
    assume A: "\<forall>i \<le> length (c # s). \<not> HasPrefix (drop i (c # s)) p"
    then have "\<not> HasPrefix (c # s) p" using A [rule_format, of 0] by simp
    moreover have "Index s p = None"
      unfolding Cons.IH using A by (metis Suc_le_mono drop_Suc_Cons length_Cons)
    ultimately show "Index (c # s) p = None" by simp
  qed
qed (auto simp: HasPrefix_def)

lemma Split_nonempty [simp]: "Split d s \<noteq> []"
  by (induction s) (auto split: list.splits)

lemma length_SplitN:
  "length (SplitN (Suc n) d s) = Suc (min n (count_list s d))"
proof (induction n arbitrary: s)
  case (Suc n)
  show ?case
  proof (cases "d \<in> set s")
    case True
    then obtain u v where s: "s = u @ d # v" and u: "d \<notin> set u"
      by (meson split_list_first)
    then have "takeWhile (\<lambda>c. c \<noteq> d) s = u" "dropWhile (\<lambda>c. c \<noteq> d) s = d # v"
      by (auto simp: takeWhile_append dropWhile_append)
    with True s u Suc.IH [of v] show ?thesis by simp
  qed (simp add: count_list_0_iff)
qed simp

section \<open>Package unicode/utf8 and case mapping\<close>

text \<open>
  \<^verbatim>\<open>utf8.DecodeRune\<close>: the rune at the front of a non-empty byte sequence and its
  width. An invalid encoding is \<^verbatim>\<open>utf8.RuneError\<close> of width 1.
\<close>

definition RuneError :: nat where
  [go_defs]: "RuneError = 65533"

definition cont_byte :: "char \<Rightarrow> bool" where
  [go_defs]: "cont_byte c \<longleftrightarrow> 128 \<le> (of_char c :: nat) \<and> (of_char c :: nat) < 192"

definition byte_in :: "nat \<Rightarrow> nat \<Rightarrow> char \<Rightarrow> bool" where
  [go_defs]: "byte_in lo hi c \<longleftrightarrow> lo \<le> (of_char c :: nat) \<and> (of_char c :: nat) \<le> hi"

definition DecodeRune :: "bytes \<Rightarrow> nat \<times> nat" where
  "DecodeRune s = (case s of
     [] \<Rightarrow> (RuneError, 0)
   | c # r \<Rightarrow>
     let b = (of_char c :: nat); low = (\<lambda>d :: char. (of_char d :: nat) mod 64) in
     if b < 128 then (b, 1)
     else if 194 \<le> b \<and> b \<le> 223 then
       (case r of c1 # _ \<Rightarrow>
          if cont_byte c1 then ((b mod 32) * 64 + low c1, 2) else (RuneError, 1)
        | _ \<Rightarrow> (RuneError, 1))
     else if 224 \<le> b \<and> b \<le> 239 then
       (case r of c1 # c2 # _ \<Rightarrow>
          if byte_in (if b = 224 then 160 else 128) (if b = 237 then 159 else 191) c1 \<and> cont_byte c2
          then ((b mod 16) * 4096 + low c1 * 64 + low c2, 3) else (RuneError, 1)
        | _ \<Rightarrow> (RuneError, 1))
     else if 240 \<le> b \<and> b \<le> 244 then
       (case r of c1 # c2 # c3 # _ \<Rightarrow>
          if byte_in (if b = 240 then 144 else 128) (if b = 244 then 143 else 191) c1
             \<and> cont_byte c2 \<and> cont_byte c3
          then ((b mod 8) * 262144 + low c1 * 4096 + low c2 * 64 + low c3, 4) else (RuneError, 1)
        | _ \<Rightarrow> (RuneError, 1))
     else (RuneError, 1))"

lemma DecodeRune_width: "s \<noteq> [] \<Longrightarrow> 1 \<le> snd (DecodeRune s) \<and> snd (DecodeRune s) \<le> length s"
  by (cases s) (auto simp: DecodeRune_def Let_def split: list.splits)

text \<open>The runes of a byte sequence, as a Go \<^verbatim>\<open>range\<close> loop over a string visits them.\<close>

function runes :: "bytes \<Rightarrow> nat list" where
  "runes s = (if s = [] then [] else fst (DecodeRune s) # runes (drop (snd (DecodeRune s)) s))"
  by pat_completeness auto
termination
  by (relation "measure length") (auto dest: DecodeRune_width)

declare runes.simps [simp del]

lemma runes_eval [go_eval]:
  "runes [] = []"
  "runes (c # s) = fst (DecodeRune (c # s)) # runes (drop (snd (DecodeRune (c # s))) (c # s))"
  by (simp_all add: runes.simps)

text \<open>\<^verbatim>\<open>utf8.AppendRune\<close>: the encoding of a rune.\<close>

definition EncodeRune :: "nat \<Rightarrow> bytes" where
  "EncodeRune r =
     (let lo = (\<lambda>k. char_of (128 + (r div 64 ^ k) mod 64)) in
      if r < 128 then [char_of r]
      else if r < 2048 then [char_of (192 + r div 64), lo 0]
      else if 1114111 < r \<or> (55296 \<le> r \<and> r \<le> 57343) then
        [char_of (239 :: nat), char_of (191 :: nat), char_of (189 :: nat)]
      else if r < 65536 then [char_of (224 + r div 4096), lo 1, lo 0]
      else [char_of (240 + r div 262144), lo 2, lo 1, lo 0])"

text \<open>The Unicode scalar values; encoding and decoding them are inverse to each other.\<close>

definition scalar :: "nat \<Rightarrow> bool" where
  "scalar r \<longleftrightarrow> r \<le> 1114111 \<and> \<not> (55296 \<le> r \<and> r \<le> 57343)"

lemma Decode_Encode:
  assumes "scalar r"
  shows "DecodeRune (EncodeRune r @ t) = (r, length (EncodeRune r))"
proof -
  have lo: "x < 64 \<Longrightarrow> (128 + x) mod 64 = x" "x < 32 \<Longrightarrow> (192 + x) mod 32 = x"
    "x < 16 \<Longrightarrow> (224 + x) mod 16 = x" "x < 8 \<Longrightarrow> (240 + x) mod 8 = x" for x :: nat
    using mod_add_left_eq [of 128 64 x] mod_add_left_eq [of 192 32 x] mod_add_left_eq [of 224 16 x]
      mod_add_left_eq [of 240 8 x] by simp_all
  have q: "r div 64 = r div 4096 * 64 + r div 64 mod 64" "r div 4096 = r div 262144 * 64 + r div 4096 mod 64"
    using div_mult_mod_eq [of "r div 64" 64] div_mult2_eq [of r 64 64]
      div_mult_mod_eq [of "r div 4096" 64] div_mult2_eq [of r 4096 64] by simp_all
  have base64: "r = r div 4096 * 4096 + r div 64 mod 64 * 64 + r mod 64"
    using q(1) div_mult_mod_eq [of r 64] by linarith
  then have base64': "r = r div 262144 * 262144 + r div 4096 mod 64 * 4096 + r div 64 mod 64 * 64 + r mod 64"
    using q(2) by linarith
  consider "r < 128" | "128 \<le> r" "r < 2048" | "2048 \<le> r" "r < 65536" "r < 55296 \<or> 57343 < r"
    | "65536 \<le> r" "r < 1114112"
    using assms unfolding scalar_def
    by (cases "r < 128"; cases "r < 2048"; cases "r < 65536"; cases "r < 55296") (simp_all add: not_less)
  then show ?thesis
  proof cases
    case 1
    then show ?thesis by (simp add: EncodeRune_def DecodeRune_def)
  next
    case 2
    define a b where "a = r div 64" and "b = r mod 64"
    have r: "r = a * 64 + b" "a < 32" "2 \<le> a" "b < 64"
      using 2 by (auto simp: a_def b_def)
    have E: "EncodeRune r = [char_of (192 + a), char_of (128 + b)]"
      using 2 by (simp add: EncodeRune_def Let_def a_def b_def)
    show ?thesis
      unfolding E using r by (auto simp: DecodeRune_def Let_def cont_byte_def lo)
  next
    case 3
    define a b c where "a = r div 4096" and "b = (r div 64) mod 64" and "c = r mod 64"
    have r: "r = a * 4096 + b * 64 + c" "a < 16" "b < 64" "c < 64"
      using 3 base64 by (auto simp: a_def b_def c_def)
    have E: "EncodeRune r = [char_of (224 + a), char_of (128 + b), char_of (128 + c)]"
      using 3 by (auto simp: EncodeRune_def Let_def a_def b_def c_def)
    have "a = 0 \<Longrightarrow> 32 \<le> b" "a = 13 \<Longrightarrow> b < 32"
      using 3 r by arith+
    then show ?thesis
      unfolding E using r by (auto simp: DecodeRune_def Let_def cont_byte_def byte_in_def lo)
  next
    case 4
    define a b c d where "a = r div 262144" and "b = (r div 4096) mod 64"
      and "c = (r div 64) mod 64" and "d = r mod 64"
    have r: "r = a * 262144 + b * 4096 + c * 64 + d" "a < 5" "b < 64" "c < 64" "d < 64"
      using 4 base64' by (auto simp: a_def b_def c_def d_def)
    have E: "EncodeRune r = [char_of (240 + a), char_of (128 + b), char_of (128 + c), char_of (128 + d)]"
      using 4 by (auto simp: EncodeRune_def Let_def a_def b_def c_def d_def)
    have "a = 0 \<Longrightarrow> 16 \<le> b" "a = 4 \<Longrightarrow> b < 16"
      using 4 r by arith+
    then show ?thesis
      unfolding E using r by (auto simp: DecodeRune_def Let_def cont_byte_def byte_in_def lo)
  qed
qed

lemma scalar_2: "scalar (b mod 32 * 64 + x mod 64)"
proof -
  have "b mod 32 \<le> 31" "x mod 64 \<le> 63" by simp_all
  then show ?thesis unfolding scalar_def by linarith
qed

lemma scalar_3:
  assumes "224 \<le> b" "b \<le> 239" "b = 237 \<longrightarrow> x \<le> 159" "128 \<le> x" "x \<le> 191"
  shows "scalar (b mod 16 * 4096 + x mod 64 * 64 + y mod 64)"
proof -
  obtain k j where kj: "b = 224 + k" "x = 128 + j" using assms by (metis le_Suc_ex)
  define t where "t = y mod 64"
  have t: "t \<le> 63" by (simp add: t_def)
  have "(224 + k) mod 16 = k" "(128 + j) mod 64 = j"
    using assms kj mod_add_left_eq [of 224 16 k] mod_add_left_eq [of 128 64 j] by simp_all
  moreover have "k \<le> 15" "j \<le> 63" "k = 13 \<longrightarrow> j \<le> 31" using assms kj by auto
  moreover from this have "scalar (k * 4096 + j * 64 + t)"
    unfolding scalar_def using t by (cases "k < 13"; cases "k = 13") linarith+
  ultimately show ?thesis by (simp add: kj t_def)
qed

lemma scalar_4:
  assumes "240 \<le> b" "b \<le> 244" "b = 244 \<longrightarrow> x \<le> 143" "b = 240 \<longrightarrow> 144 \<le> x" "128 \<le> x" "x \<le> 191"
  shows "scalar (b mod 8 * 262144 + x mod 64 * 4096 + y mod 64 * 64 + z mod 64)"
proof -
  obtain k j where kj: "b = 240 + k" "x = 128 + j" using assms by (metis le_Suc_ex)
  define t u where "t = y mod 64" and "u = z mod 64"
  have t: "t \<le> 63" "u \<le> 63" by (simp_all add: t_def u_def)
  have "(240 + k) mod 8 = k" "(128 + j) mod 64 = j"
    using assms kj mod_add_left_eq [of 240 8 k] mod_add_left_eq [of 128 64 j] by simp_all
  moreover have "k \<le> 4" "j \<le> 63" "k = 4 \<longrightarrow> j \<le> 15" "k = 0 \<longrightarrow> 16 \<le> j" using assms kj by auto
  moreover from this have "scalar (k * 262144 + j * 4096 + t * 64 + u)"
    unfolding scalar_def using t by (cases "k = 0"; cases "k = 4") linarith+
  ultimately show ?thesis by (simp add: kj t_def u_def)
qed

lemma DecodeRune_scalar: "scalar (fst (DecodeRune s))"
proof (cases s)
  case (Cons c r)
  have "scalar RuneError" by (simp add: scalar_def RuneError_def)
  then show ?thesis
    using scalar_2 scalar_3 scalar_4
    by (auto simp: Cons DecodeRune_def Let_def byte_in_def cont_byte_def scalar_def [of "of_char c"]
        scalar_3 [of 224, simplified] scalar_3 [of 237, simplified]
        scalar_4 [of 240, simplified] scalar_4 [of 244, simplified] split: list.split)
qed (simp add: DecodeRune_def scalar_def RuneError_def)

lemma EncodeRune_nonempty [simp]: "EncodeRune r \<noteq> []"
  by (simp add: EncodeRune_def Let_def)

text \<open>
  \<^verbatim>\<open>unicode.ToLower\<close>: exact on ASCII; beyond ASCII the Unicode table is the
  parameter \<open>utab\<close>.
\<close>

definition lower_rune :: "(nat \<Rightarrow> nat) \<Rightarrow> nat \<Rightarrow> nat" where
  "lower_rune utab r = (if r < 128 then (if 65 \<le> r \<and> r \<le> 90 then r + 32 else r) else utab r)"

text \<open>
  \<^verbatim>\<open>strings.ToLower\<close> and \<^verbatim>\<open>bytes.ToLower\<close>: rune-wise, re-encoding the result, so
  the length may change where the input is not ASCII.
\<close>

definition ToLower :: "(nat \<Rightarrow> nat) \<Rightarrow> bytes \<Rightarrow> bytes" where
  "ToLower utab s = concat (map (\<lambda>r. EncodeRune (lower_rune utab r)) (runes s))"

definition is_ascii :: "bytes \<Rightarrow> bool" where
  "is_ascii s \<longleftrightarrow> (\<forall>c \<in> set s. (of_char c :: nat) < 128)"

lemma runes_ascii: "is_ascii s \<Longrightarrow> runes s = map of_char s"
proof (induction s)
  case (Cons c s)
  then have "DecodeRune (c # s) = (of_char c, 1)"
    by (simp add: is_ascii_def DecodeRune_def)
  with Cons show ?case by (simp add: runes.simps [of "c # s"] is_ascii_def)
qed (simp add: runes.simps)

lemma length_ToLower_ascii: "is_ascii s \<Longrightarrow> length (ToLower utab s) = length s"
  unfolding ToLower_def
  by (simp add: runes_ascii length_concat comp_def)
     (induction s, auto simp: is_ascii_def EncodeRune_def lower_rune_def)

section \<open>White space\<close>

definition IsSpace :: "nat \<Rightarrow> bool" where
  [go_defs]: "IsSpace r \<longleftrightarrow> (9 \<le> r \<and> r \<le> 13) \<or> (8192 \<le> r \<and> r \<le> 8202)
     \<or> r \<in> set [32, 133, 160, 5760, 8232, 8233, 8239, 8287, 12288]"

function trim_left :: "bytes \<Rightarrow> bytes" where
  "trim_left s = (if s = [] then []
     else if IsSpace (fst (DecodeRune s)) then trim_left (drop (snd (DecodeRune s)) s) else s)"
  by pat_completeness auto
termination
  by (relation "measure length") (auto dest: DecodeRune_width)

declare trim_left.simps [simp del]

lemma trim_left_eval [go_eval]:
  "trim_left [] = []"
  "trim_left (c # s) = (if IsSpace (fst (DecodeRune (c # s)))
     then trim_left (drop (snd (DecodeRune (c # s))) (c # s)) else c # s)"
  by (simp_all add: trim_left.simps)

text \<open>
  Width of a white-space rune at the end of a byte sequence (the encodings of the
  white-space runes are one to three bytes long), as \<^verbatim>\<open>utf8.DecodeLastRune\<close> finds it.
\<close>

definition last_space :: "bytes \<Rightarrow> nat option" where
  "last_space s = find (\<lambda>w. w \<le> length s \<and> snd (DecodeRune (drop (length s - w) s)) = w
     \<and> IsSpace (fst (DecodeRune (drop (length s - w) s)))) [1, 2, 3]"

lemma last_space_bounds: "last_space s = Some w \<Longrightarrow> 0 < w \<and> w \<le> length s"
  by (auto simp: last_space_def split: if_splits)

function trim_right :: "bytes \<Rightarrow> bytes" where
  "trim_right s = (case last_space s of None \<Rightarrow> s | Some w \<Rightarrow> trim_right (take (length s - w) s))"
  by pat_completeness auto
termination
  by (relation "measure length") (auto dest: last_space_bounds)

declare trim_right.simps [simp del]

lemma trim_right_eval [go_eval]:
  "last_space s = None \<Longrightarrow> trim_right s = s"
  "last_space s = Some w \<Longrightarrow> trim_right s = trim_right (take (length s - w) s)"
  by (simp_all add: trim_right.simps)

definition TrimSpace :: "bytes \<Rightarrow> bytes" where
  "TrimSpace s = trim_right (trim_left s)"

section \<open>Package encoding/binary\<close>

text \<open>Little-endian value of a byte sequence, and the encoding of a value in \<open>n\<close> bytes.\<close>

fun le_val :: "bytes \<Rightarrow> nat" where
  "le_val [] = 0"
| "le_val (c # cs) = of_char c + 256 * le_val cs"

fun le_put :: "nat \<Rightarrow> nat \<Rightarrow> bytes" where
  "le_put 0 v = []"
| "le_put (Suc n) v = char_of (v mod 256) # le_put n (v div 256)"

definition be_val :: "bytes \<Rightarrow> nat" where
  "be_val b = le_val (rev b)"

definition be_put :: "nat \<Rightarrow> nat \<Rightarrow> bytes" where
  "be_put n v = rev (le_put n v)"

text \<open>\<^verbatim>\<open>data[i:j]\<close>, for bounds the caller has checked.\<close>

definition slice :: "'a list \<Rightarrow> nat \<Rightarrow> nat \<Rightarrow> 'a list" where
  "slice xs i j = take (j - i) (drop i xs)"

lemma length_slice [simp]: "j \<le> length xs \<Longrightarrow> length (slice xs i j) = j - i"
  by (simp add: slice_def)

lemma length_le_put [simp]: "length (le_put n v) = n"
  by (induction n v rule: le_put.induct) auto

lemma length_be_put [simp]: "length (be_put n v) = n"
  by (simp add: be_put_def)

lemma le_val_put: "le_val (le_put n v) = v mod 256 ^ n"
proof (induction n v rule: le_put.induct)
  case (2 n v)
  have "v mod 256 ^ Suc n = 256 * (v div 256 mod 256 ^ n) + v mod 256"
    by (simp add: mod_mult2_eq)
  with "2.IH" show ?case by simp
qed simp

lemma le_put_val: "length b = n \<Longrightarrow> le_put n (le_val b) = b"
  by (induction b arbitrary: n) auto

lemma le_val_bound: "le_val b < 256 ^ length b"
proof (induction b)
  case (Cons c b)
  obtain k P :: nat where k: "of_char c = k" "k < 256" and P: "256 ^ length b = P" by simp
  then have "k + 256 * le_val b < 256 * P" using Cons.IH by linarith
  then show ?case by (simp add: k P)
qed simp

lemma be_val_put: "be_val (be_put n v) = v mod 256 ^ n"
  by (simp add: be_val_def be_put_def le_val_put)

lemma be_put_val: "length b = n \<Longrightarrow> be_put n (be_val b) = b"
  by (simp add: be_val_def be_put_def le_put_val)

lemma slice_append1 [simp]: "j \<le> length xs \<Longrightarrow> slice (xs @ ys) i j = slice xs i j"
  by (simp add: slice_def)

lemma slice_append2 [simp]: "length xs \<le> i \<Longrightarrow> slice (xs @ ys) i j = slice ys (i - length xs) (j - length xs)"
  by (simp add: slice_def)

lemma slice_all [simp]: "slice xs 0 (length xs) = xs" "length xs = n \<Longrightarrow> slice xs 0 n = xs"
  by (auto simp: slice_def)

section \<open>Hexadecimal digits\<close>

definition hex_lower :: "nat \<Rightarrow> char" where
  "hex_lower n = (if n < 10 then char_of (48 + n) else char_of (87 + n))"

definition hex_value :: "char \<Rightarrow> nat option" where
  "hex_value c = (let n = (of_char c :: nat) in
     if 48 \<le> n \<and> n \<le> 57 then Some (n - 48)
     else if 97 \<le> n \<and> n \<le> 102 then Some (n - 87)
     else if 65 \<le> n \<and> n \<le> 70 then Some (n - 55) else None)"

lemma hex_value_lower: "n < 16 \<Longrightarrow> hex_value (hex_lower n) = Some n"
  by (auto simp: hex_value_def hex_lower_def Let_def)

section \<open>Association lists\<close>

lemma set_update_distinct:
  "distinct (map fst al) \<Longrightarrow>
   set (AList.update k v al) = {(k, v)} \<union> {(k', v') \<in> set al. k' \<noteq> k}"
  by (induction al) (auto simp: image_iff)

lemma length_update:
  "length (AList.update k v al) = (if k \<in> fst ` set al then length al else Suc (length al))"
  by (induction al) auto

lemma length_update_le: "length (AList.update k v al) \<le> Suc (length al)"
  by (simp add: length_update)

lemma length_delete:
  "distinct (map fst al) \<Longrightarrow> k \<in> fst ` set al \<Longrightarrow> Suc (length (AList.delete k al)) = length al"
proof (induction al)
  case (Cons p al)
  show ?case
  proof (cases "fst p = k")
    case True
    with Cons.prems have "k \<notin> fst ` set al" by auto
    then have "AList.delete k al = al" by (auto simp: AList.delete_eq filter_id_conv image_iff)
    with True show ?thesis by (cases p) simp
  next
    case False
    with Cons show ?thesis by (cases p) auto
  qed
qed simp

lemma set_delete: "set (AList.delete k al) = {(k', v') \<in> set al. k' \<noteq> k}"
  by (auto simp: AList.delete_eq)

lemma map_of_mem: "distinct (map fst al) \<Longrightarrow> (k, v) \<in> set al \<longleftrightarrow> map_of al k = Some v"
  by (metis map_of_SomeD map_of_eq_Some_iff)

lemma keys_filter:
  assumes "distinct (map fst al)"
  shows "k \<in> set (map fst (filter (\<lambda>(k, v). P v) al)) \<longleftrightarrow> (\<exists>v. map_of al k = Some v \<and> P v)"
proof -
  have "k \<in> set (map fst (filter (\<lambda>(k, v). P v) al)) \<longleftrightarrow> (\<exists>v. (k, v) \<in> set al \<and> P v)"
    by (auto simp: image_iff)
  with map_of_mem [OF assms] show ?thesis by simp
qed

lemma map_of_map_snd: "map_of (map (\<lambda>(k, v). (k, f v)) al) k = map_option f (map_of al k)"
  by (induction al) auto

lemma map_of_filter_val:
  "distinct (map fst al) \<Longrightarrow>
   map_of (filter (\<lambda>(k, v). P v) al) k
     = (case map_of al k of None \<Rightarrow> None | Some v \<Rightarrow> if P v then Some v else None)"
proof (induction al)
  case (Cons p al)
  then show ?case
    by (cases p) (auto split: option.splits simp: map_of_eq_None_iff image_iff dest: map_of_SomeD)
qed simp

text \<open>An append that keeps the last \<open>n\<close> elements, as the bounded histories do.\<close>

definition keep_last :: "nat \<Rightarrow> 'a list \<Rightarrow> 'a list" where
  "keep_last n xs = (if length xs > n then drop (length xs - n) xs else xs)"

lemma length_keep_last [simp]: "length (keep_last n xs) = min n (length xs)"
  by (auto simp: keep_last_def)

lemma keep_last_eq_Nil [simp]: "keep_last n xs = [] \<longleftrightarrow> n = 0 \<or> xs = []"
  by (auto simp: keep_last_def)

lemma keep_last_suffix: "\<exists>ys. xs = ys @ keep_last n xs"
  by (metis append_Nil append_take_drop_id keep_last_def)

lemma keep_last_snoc: "0 < n \<Longrightarrow> \<exists>ys. keep_last n (xs @ [x]) = ys @ [x] \<and> (\<exists>zs. xs = zs @ ys)"
proof -
  assume "0 < n"
  then have "keep_last n (xs @ [x]) = drop (length xs + 1 - n) xs @ [x]"
    by (auto simp: keep_last_def)
  then show ?thesis by (metis append_take_drop_id)
qed

lemma set_keep_last: "set (keep_last n xs) \<subseteq> set xs"
  by (auto simp: keep_last_def dest: in_set_dropD)

section \<open>Components that keep an invariant\<close>

text \<open>
  The shape every stateful component of the program has: a step function driven by
  inputs, and an invariant that each step keeps. The client lemma is that a run
  over any sequence of inputs keeps it.
\<close>

locale component =
  fixes step :: "'s \<Rightarrow> 'i \<Rightarrow> 's"
    and inv :: "'s \<Rightarrow> bool"
  assumes step_inv: "inv s \<Longrightarrow> inv (step s i)"
begin

lemma run_inv: "inv s \<Longrightarrow> inv (foldl step s is)"
  by (induction "is" arbitrary: s) (auto intro: step_inv)

end

text \<open>
  A component that keeps one state per identity: an operation touches the state of
  the identity it names and no other. Runs then decompose by identity: the state
  of an identity is the one its own observations alone would have produced.
\<close>

locale per_identity =
  fixes observe :: "'t \<Rightarrow> string \<Rightarrow> 'o \<Rightarrow> 't"
    and view :: "'t \<Rightarrow> string \<Rightarrow> 'v"
    and good :: "'v \<Rightarrow> bool"
  assumes frame: "i' \<noteq> i \<Longrightarrow> view (observe t i x) i' = view t i'"
    and local: "view t i = view t' i \<Longrightarrow> view (observe t i x) i = view (observe t' i x) i"
    and keeps: "good (view t i) \<Longrightarrow> good (view (observe t i x) i)"
begin

lemma all_good: "(\<And>j. good (view t j)) \<Longrightarrow> good (view (observe t i x) j)"
  by (cases "j = i") (auto simp: frame intro: keeps)

lemma run_good:
  "(\<And>j. good (view t j)) \<Longrightarrow> good (view (foldl (\<lambda>t (i, x). observe t i x) t os) j)"
proof (induction os arbitrary: t)
  case (Cons p os)
  obtain i x where "p = (i, x)" by (cases p)
  with Cons all_good show ?case by simp
qed simp

lemma run_project:
  "view t j = view t' j \<Longrightarrow>
   view (foldl (\<lambda>t (i, x). observe t i x) t os) j
     = view (foldl (\<lambda>t (i, x). observe t i x) t' (filter (\<lambda>p. fst p = j) os)) j"
proof (induction os arbitrary: t t')
  case (Cons p os)
  obtain i x where o: "p = (i, x)" by (cases p)
  show ?case
  proof (cases "i = j")
    case True
    with Cons.prems have "view (observe t i x) j = view (observe t' i x) j"
      using local by blast
    then show ?thesis using True o Cons.IH by simp
  next
    case False
    with Cons.prems have "view (observe t i x) j = view t' j" by (simp add: frame)
    then show ?thesis using False o Cons.IH by simp
  qed
qed simp

end

end
