(* ===== verification/Go_Time.thy ===== *)
theory Go_Time
  imports Prelude
begin

text \<open>
  Packages \<^verbatim>\<open>time\<close> and \<^verbatim>\<open>strconv\<close>, as far as the source uses them. An instant
  (\<^verbatim>\<open>time.Time\<close>) is the number of nanoseconds since the zero value of
  \<^verbatim>\<open>time.Time\<close> (1 January of year 1, UTC); a \<^verbatim>\<open>time.Duration\<close> is an integer in the
  range of \<^verbatim>\<open>int64\<close>, whose arithmetic wraps (\<open>wrap64\<close>) while \<^verbatim>\<open>Time.Sub\<close>
  saturates. Instants read from the clock are arguments of the model. Times are
  formatted in UTC, which is the local zone of the container images the
  repository builds.
\<close>

type_synonym time = int
type_synonym duration = int

definition wrap64 :: "int \<Rightarrow> int" where
  [go_defs]: "wrap64 x = (x + 2 ^ 63) mod 2 ^ 64 - 2 ^ 63"

definition maxDuration :: duration where
  [go_defs]: "maxDuration = 2 ^ 63 - 1"

definition minDuration :: duration where
  [go_defs]: "minDuration = - (2 ^ 63)"

definition Second :: duration where
  [go_defs]: "Second = 1000000000"

definition Minute :: duration where
  [go_defs]: "Minute = 60 * 1000000000"

definition zero_time :: time where
  [go_defs]: "zero_time = 0"

definition Sub :: "time \<Rightarrow> time \<Rightarrow> duration" where
  [go_defs]: "Sub t u = max minDuration (min maxDuration (t - u))"

definition Truncate :: "time \<Rightarrow> duration \<Rightarrow> time" where
  [go_defs]: "Truncate t d = (if d \<le> 0 then t else t - t mod d)"

text \<open>Go's integer division truncates towards zero.\<close>

definition quot_int :: "int \<Rightarrow> int \<Rightarrow> int" where
  [go_defs]: "quot_int a b = sgn a * sgn b * (\<bar>a\<bar> div \<bar>b\<bar>)"

definition rem_int :: "int \<Rightarrow> int \<Rightarrow> int" where
  [go_defs]: "rem_int a b = a - b * quot_int a b"

lemma wrap64_range: "minDuration \<le> wrap64 x \<and> wrap64 x \<le> maxDuration"
proof -
  have "0 \<le> (x + 2 ^ 63) mod 2 ^ 64 \<and> (x + 2 ^ 63) mod 2 ^ 64 < (2 :: int) ^ 64"
    by (simp only: pos_mod_sign pos_mod_bound zero_less_power zero_less_numeral simp_thms)
  then show ?thesis by (simp add: go_defs)
qed

lemma wrap64_id: "minDuration \<le> x \<Longrightarrow> x \<le> maxDuration \<Longrightarrow> wrap64 x = x"
  by (simp add: go_defs)

lemma Sub_range: "minDuration \<le> Sub t u \<and> Sub t u \<le> maxDuration"
  by (auto simp: go_defs)

lemma Sub_pos_iff: "0 < Sub t u \<longleftrightarrow> u < t"
  by (auto simp: go_defs)

lemma Sub_nonneg_iff: "0 \<le> Sub t u \<longleftrightarrow> u \<le> t"
  by (auto simp: go_defs)

lemma Truncate_le: "Truncate t d \<le> t"
  by (simp add: Truncate_def)

lemma Truncate_window: "0 < d \<Longrightarrow> Truncate t d \<le> t \<and> t < Truncate t d + d"
  by (simp add: Truncate_def)

lemma Truncate_mono: "0 < d \<Longrightarrow> t \<le> u \<Longrightarrow> Truncate t d \<le> Truncate u d"
  by (simp add: Truncate_def minus_mod_eq_mult_div zdiv_mono1)

lemma Truncate_dvd: "0 < d \<Longrightarrow> d dvd Truncate t d"
  by (simp add: Truncate_def minus_mod_eq_mult_div)

section \<open>Decimal numbers\<close>

fun utoa :: "nat \<Rightarrow> string" where
  "utoa n = (if n < 10 then [char_of (48 + n)] else utoa (n div 10) @ [char_of (48 + n mod 10)])"

declare utoa.simps [simp del]

lemma utoa_eval [go_eval]:
  "n < 10 \<Longrightarrow> utoa n = [char_of (48 + n)]"
  "10 \<le> n \<Longrightarrow> utoa n = utoa (n div 10) @ [char_of (48 + n mod 10)]"
  by (simp_all add: utoa.simps [of n])

definition itoa :: "int \<Rightarrow> string" where
  "itoa n = (if n < 0 then ''-'' @ utoa (nat (- n)) else utoa (nat n))"

definition is_digit :: "char \<Rightarrow> bool" where
  [go_defs]: "is_digit c \<longleftrightarrow> 48 \<le> (of_char c :: nat) \<and> (of_char c :: nat) \<le> 57"

definition pad :: "nat \<Rightarrow> string \<Rightarrow> string" where
  "pad w s = replicate (w - length s) (CHR ''0'') @ s"

text \<open>Value of a string of decimal digits.\<close>

definition digits_val :: "string \<Rightarrow> nat" where
  "digits_val s = foldl (\<lambda>v c. 10 * v + (of_char c - 48)) 0 s"

text \<open>
  \<^verbatim>\<open>strconv.Atoi\<close> for a 64-bit \<^verbatim>\<open>int\<close>, and \<^verbatim>\<open>strconv.ParseUint\<close> in base 10
  with a bit size of 32. \<open>None\<close> is the error.
\<close>

definition Atoi :: "string \<Rightarrow> int option" where
  "Atoi s =
     (let neg = (s \<noteq> [] \<and> hd s = CHR ''-'');
          ds = (if s \<noteq> [] \<and> (hd s = CHR ''-'' \<or> hd s = CHR ''+'') then tl s else s);
          v = (if neg then - int (digits_val ds) else int (digits_val ds))
      in if ds = [] \<or> \<not> list_all is_digit ds then None
         else if minDuration \<le> v \<and> v \<le> maxDuration then Some v else None)"

definition ParseUint32 :: "string \<Rightarrow> u32 option" where
  "ParseUint32 s =
     (if s = [] \<or> \<not> list_all is_digit s then None
      else if digits_val s < 2 ^ 32 then Some (word_of_nat (digits_val s)) else None)"

lemma digits_val_snoc: "digits_val (s @ [c]) = 10 * digits_val s + (of_char c - 48)"
  by (simp add: digits_val_def)

lemma utoa_digits: "list_all is_digit (utoa n)"
proof (induction n rule: utoa.induct)
  case (1 n)
  then show ?case
    by (cases "n < 10") (auto simp: utoa.simps [of n] is_digit_def)
qed

lemma utoa_nonempty [simp]: "utoa n \<noteq> []"
  by (simp add: utoa.simps [of n])

lemma digits_val_utoa: "digits_val (utoa n) = n"
proof (induction n rule: utoa.induct)
  case (1 n)
  show ?case
  proof (cases "n < 10")
    case True
    then show ?thesis by (simp add: utoa.simps [of n] digits_val_def)
  next
    case False
    with 1 show ?thesis by (simp add: utoa.simps [of n] digits_val_snoc)
  qed
qed

lemma ParseUint32_utoa: "n < 2 ^ 32 \<Longrightarrow> ParseUint32 (utoa n) = Some (word_of_nat n)"
  by (simp add: ParseUint32_def utoa_digits digits_val_utoa)

lemma last_utoa: "is_digit (last (utoa n))"
  using utoa_digits [of n] by (simp add: list_all_iff)

section \<open>Formatting an instant\<close>

text \<open>
  \<^verbatim>\<open>Time.Format(time.RFC3339Nano)\<close> in UTC: the civil date of a day number in the
  proleptic Gregorian calendar (days counted from 1 January of year 1), the time
  of day, and the fraction without its trailing zeros.
\<close>

definition civil :: "int \<Rightarrow> int \<times> int \<times> int" where
  "civil days =
     (let z = days + 306; era = z div 146097; doe = z mod 146097;
          yoe = (doe - doe div 1460 + doe div 36524 - doe div 146096) div 365;
          doy = doe - (365 * yoe + yoe div 4 - yoe div 100);
          mp = (5 * doy + 2) div 153;
          d = doy - (153 * mp + 2) div 5 + 1;
          m = (if mp < 10 then mp + 3 else mp - 9);
          y = yoe + era * 400
      in (if m \<le> 2 then y + 1 else y, m, d))"

definition RFC3339Nano :: "time \<Rightarrow> string" where
  "RFC3339Nano t =
     (let secs = t div 1000000000; ns = nat (t mod 1000000000);
          days = secs div 86400; tod = secs mod 86400;
          (y, m, d) = civil days;
          two = (\<lambda>v :: int. pad 2 (utoa (nat v)));
          frac = rev (dropWhile (\<lambda>c. c = CHR ''0'') (rev (pad 9 (utoa ns))))
      in (if y < 0 then ''-'' @ pad 4 (utoa (nat (- y))) else pad 4 (utoa (nat y)))
         @ ''-'' @ two m @ ''-'' @ two d
         @ ''T'' @ two (tod div 3600) @ '':'' @ two (tod div 60 mod 60) @ '':'' @ two (tod mod 60)
         @ (if frac = [] then [] else ''.'' @ frac) @ ''Z'')"

end
