(* ===== verification/Reflector_Event.thy ===== *)
theory Reflector_Event
  imports Go_Time
begin

text \<open>
  The message of the metadata stream: \<^verbatim>\<open>ReflectorEvent\<close> of
  \<^verbatim>\<open>api/v1/reflector.proto\<close>, as the generated \<^verbatim>\<open>api/v1/reflector.pb.go\<close> declares it.
  The enumerations of proto3 are open: a number without a name is kept, which the
  last constructor of each datatype stands for. An absent timestamp is \<open>None\<close>.
\<close>

datatype EventType =
  CONNECTION_OPEN | CONNECTION_CLOSE | DATA_EXCHANGE | STREAM_RESUMED | POLICY_VIOLATION
| CERT_ROTATION_NORMAL | CERT_ROTATION_EARLY | CERT_ROTATION_ISSUER | CERT_ROTATION_DOMAIN
| EventType_Other int

datatype IdentityType =
  UNKNOWN | SPIFFE | JWT | MCP | OTEL | IdentityType_Other int

record ReflectorEvent =
  ev_NodeId :: string
  ev_Timestamp :: "time option"
  ev_EventType :: EventType
  ev_SourceAddr :: string
  ev_DestAddr :: string
  ev_Protocol :: string
  ev_SourceIdentity :: string
  ev_DestIdentity :: string
  ev_IdentityType :: IdentityType
  ev_BytesTx :: u64
  ev_BytesRx :: u64
  ev_McpToolName :: string
  ev_Pid :: u32
  ev_OtelService :: string
  ev_OtelSignalType :: string
  ev_OtelSpanCount :: u32
  ev_PolicyRule :: string
  ev_BoundarySessionToken :: string
  ev_BoundaryTokenType :: string
  ev_CertSerial :: string
  ev_CertExpiry :: "time option"
  ev_CertIssuerFingerprint :: string
  ev_PrevCertSerial :: string

text \<open>The zero value of the message; a Go composite literal sets the fields it names.\<close>

definition zero_event :: ReflectorEvent where
  "zero_event = \<lparr>ev_NodeId = [], ev_Timestamp = None, ev_EventType = CONNECTION_OPEN,
     ev_SourceAddr = [], ev_DestAddr = [], ev_Protocol = [], ev_SourceIdentity = [],
     ev_DestIdentity = [], ev_IdentityType = UNKNOWN, ev_BytesTx = 0, ev_BytesRx = 0,
     ev_McpToolName = [], ev_Pid = 0, ev_OtelService = [], ev_OtelSignalType = [],
     ev_OtelSpanCount = 0, ev_PolicyRule = [], ev_BoundarySessionToken = [],
     ev_BoundaryTokenType = [], ev_CertSerial = [], ev_CertExpiry = None,
     ev_CertIssuerFingerprint = [], ev_PrevCertSerial = []\<rparr>"

fun is_rotation :: "EventType \<Rightarrow> bool" where
  "is_rotation CERT_ROTATION_NORMAL = True"
| "is_rotation CERT_ROTATION_EARLY = True"
| "is_rotation CERT_ROTATION_ISSUER = True"
| "is_rotation CERT_ROTATION_DOMAIN = True"
| "is_rotation _ = False"

end
