(* ===== verification/Go_Float.thy ===== *)
theory Go_Float
  imports Complex_Main Go_Time "HOL-Library.Log_Nat"
begin

text \<open>
  The type \<^verbatim>\<open>float64\<close>: IEEE 754 binary64 with rounding to nearest, ties to even,
  including subnormal numbers. A float is the rational number it denotes; every
  operation is the exact operation followed by \<open>rnd64\<close>. Overflow to infinity and
  NaN cannot occur in the source (its divisors are tested or non-zero constants
  and its operands are below \<open>2 ^ 140\<close>), and no fused multiply-add is modelled
  (the Go compiler emits none on amd64).

  The locale \<open>rounding\<close> is what the proofs need of the rounding function; the
  interpretation \<open>f64\<close> discharges it for \<open>rnd64\<close>.
\<close>

type_synonym float64 = rat

section \<open>Exponent of a positive rational\<close>

definition pow2 :: "int \<Rightarrow> rat" where
  "pow2 e = (if 0 \<le> e then 2 ^ nat e else 1 / 2 ^ nat (- e))"

definition ilog2 :: "rat \<Rightarrow> int" where
  "ilog2 x = (let (n, d) = quotient_of x; k = bitlen n - bitlen d
     in if pow2 k \<le> x then k else k - 1)"

lemma pow2_powi: "pow2 e = 2 powi e"
  by (simp add: pow2_def power_int_def field_simps)

lemma pow2_pos [simp]: "0 < pow2 e"
  by (simp add: pow2_def)

lemma pow2_simps [simp]: "pow2 e \<noteq> 0" "0 \<le> pow2 e" "\<not> pow2 e < 0"
  using pow2_pos [of e] by (auto simp del: pow2_pos)

lemma pow2_add: "pow2 (a + b) = pow2 a * pow2 b"
  by (simp add: pow2_powi power_int_add)

lemma pow2_mono: "a \<le> b \<Longrightarrow> pow2 a \<le> pow2 b"
  by (simp add: pow2_powi power_int_increasing)

lemma pow2_0 [simp]: "pow2 0 = 1"
  by (simp add: pow2_def)

lemma pow2_Suc: "pow2 (e + 1) = 2 * pow2 e"
  by (simp add: pow2_add) (simp add: pow2_def)

lemma pow2_int: "0 \<le> e \<Longrightarrow> pow2 e = of_int (2 ^ nat e)"
  by (simp add: pow2_def)

lemma bitlen_pow2:
  assumes "0 < n"
  shows "pow2 (bitlen n - 1) \<le> of_int n \<and> of_int n < pow2 (bitlen n)"
proof -
  have b: "2 ^ nat (bitlen n - 1) \<le> n \<and> n < 2 ^ nat (bitlen n)"
    using bitlen_bounds assms by blast
  have p: "0 < bitlen n" using assms by (simp add: bitlen_def compute_floorlog)
  have "pow2 (bitlen n - 1) = of_int (2 ^ nat (bitlen n - 1))"
    using p by (intro pow2_int) simp
  moreover have "pow2 (bitlen n) = of_int (2 ^ nat (bitlen n))"
    using p by (intro pow2_int) simp
  ultimately show ?thesis using b by (simp only: of_int_le_iff of_int_less_iff)
qed

lemma ilog2_bounds:
  assumes "0 < x"
  shows "pow2 (ilog2 x) \<le> x \<and> x < pow2 (ilog2 x + 1)"
proof -
  obtain n d where q: "quotient_of x = (n, d)" by (cases "quotient_of x")
  have d: "0 < d" using q by (rule quotient_of_denom_pos)
  have x: "x = of_int n / of_int d" using q by (rule quotient_of_div)
  have n: "0 < n" using assms d x by (simp add: zero_less_divide_iff)
  define k where "k = bitlen n - bitlen d"
  have N: "pow2 (bitlen n - 1) \<le> of_int n" "of_int n < pow2 (bitlen n)"
    and D: "pow2 (bitlen d - 1) \<le> of_int d" "of_int d < pow2 (bitlen d)"
    using bitlen_pow2 n d by blast+
  have dp: "0 < (of_int d :: rat)" using d by simp
  have xd: "x * of_int d = of_int n" using dp x by simp
  have "x * pow2 (bitlen d - 1) \<le> x * of_int d"
    using D(1) assms by (intro mult_left_mono) auto
  also have "\<dots> < pow2 (bitlen n)" using N(2) xd by simp
  also have "\<dots> = pow2 (k + 1) * pow2 (bitlen d - 1)"
    unfolding pow2_add [symmetric] k_def by (simp add: algebra_simps)
  finally have up: "x < pow2 (k + 1)"
    by (simp add: mult_less_cancel_right_disj)
  have "pow2 (k - 1) * pow2 (bitlen d) = pow2 (bitlen n - 1)"
    unfolding pow2_add [symmetric] k_def by (simp add: algebra_simps)
  also have "\<dots> \<le> x * of_int d" using N(1) xd by simp
  also have "\<dots> \<le> x * pow2 (bitlen d)"
    using D(2) assms by (intro mult_left_mono) auto
  finally have lo: "pow2 (k - 1) \<le> x"
    by (simp add: mult_le_cancel_right)
  show ?thesis
    using up lo q by (auto simp: ilog2_def Let_def k_def)
qed

lemma ilog2_mono: "0 < x \<Longrightarrow> x \<le> y \<Longrightarrow> ilog2 x \<le> ilog2 y"
proof (rule ccontr)
  assume a: "0 < x" "x \<le> y" "\<not> ilog2 x \<le> ilog2 y"
  then have "pow2 (ilog2 y + 1) \<le> pow2 (ilog2 x)" by (intro pow2_mono) simp
  also have "\<dots> \<le> x" using ilog2_bounds a(1) by blast
  also have "\<dots> \<le> y" by (rule a(2))
  also have "y < pow2 (ilog2 y + 1)" using ilog2_bounds a by fastforce
  finally show False by simp
qed

section \<open>Rounding to nearest, ties to even\<close>

definition round_even :: "rat \<Rightarrow> int" where
  "round_even y = (let f = \<lfloor>y\<rfloor>; r = y - of_int f
     in if r < 1 / 2 then f else if r > 1 / 2 then f + 1 else if even f then f else f + 1)"

lemma round_even_int [simp]: "round_even (of_int k) = k"
  by (simp add: round_even_def)

lemma round_even_mono: "x \<le> y \<Longrightarrow> round_even x \<le> round_even y"
proof -
  assume le: "x \<le> y"
  then have f: "\<lfloor>x\<rfloor> \<le> \<lfloor>y\<rfloor>" by (rule floor_mono)
  show ?thesis
  proof (cases "\<lfloor>x\<rfloor> = \<lfloor>y\<rfloor>")
    case True
    with le show ?thesis by (auto simp: round_even_def Let_def)
  next
    case False
    with f have "\<lfloor>x\<rfloor> + 1 \<le> \<lfloor>y\<rfloor>" by simp
    moreover have "round_even x \<le> \<lfloor>x\<rfloor> + 1" "\<lfloor>y\<rfloor> \<le> round_even y"
      by (auto simp: round_even_def Let_def)
    ultimately show ?thesis by simp
  qed
qed

definition ulp_exp :: "rat \<Rightarrow> int" where
  "ulp_exp x = max (ilog2 x - 52) (- 1074)"

definition rnd_pos :: "rat \<Rightarrow> rat" where
  "rnd_pos x = (let q = pow2 (ulp_exp x) in of_int (round_even (x / q)) * q)"

definition rnd64 :: "rat \<Rightarrow> float64" where
  "rnd64 x = (if x = 0 then 0 else if 0 < x then rnd_pos x else - rnd_pos (- x))"

lemma grid_int: "a \<le> b \<Longrightarrow> \<exists>k. pow2 b / pow2 a = of_int k"
proof -
  assume "a \<le> b"
  then have "pow2 b / pow2 a = of_int (2 ^ nat (b - a))"
    using pow2_add [of "b - a" a] pow2_int [of "b - a"] by (simp add: field_simps)
  then show ?thesis by blast
qed

text \<open>A multiple of the unit in the last place is not changed.\<close>

lemma rnd_pos_exact: "x = of_int k * pow2 (ulp_exp x) \<Longrightarrow> rnd_pos x = x"
proof -
  assume x: "x = of_int k * pow2 (ulp_exp x)"
  have "x / pow2 (ulp_exp x) = of_int k" by (subst x) simp
  then have "rnd_pos x = of_int k * pow2 (ulp_exp x)" by (simp add: rnd_pos_def Let_def)
  with x show ?thesis by simp
qed

lemma rnd_pos_mono:
  assumes "0 < x" "x \<le> y"
  shows "rnd_pos x \<le> rnd_pos y"
proof -
  let ?a = "ulp_exp x" and ?b = "ulp_exp y"
  have y: "0 < y" using assms by simp
  have ab: "?a \<le> ?b" using ilog2_mono [OF assms] by (auto simp: ulp_exp_def)
  show ?thesis
  proof (cases "?a = ?b")
    case True
    have "round_even (x / pow2 ?a) \<le> round_even (y / pow2 ?a)"
      using assms by (intro round_even_mono divide_right_mono) (auto simp: less_imp_le)
    with True show ?thesis by (simp add: rnd_pos_def Let_def mult_right_mono less_imp_le)
  next
    case False
    with ab have lt: "?a < ?b" by simp
    then have lb: "?b = ilog2 y - 52" and lxy: "ilog2 x + 1 \<le> ilog2 y"
      by (auto simp: ulp_exp_def split: if_splits)
    let ?m = "pow2 (ilog2 y)"
    have xm: "x \<le> ?m"
      using ilog2_bounds [OF assms(1)] pow2_mono [OF lxy] by linarith
    obtain k where k: "?m / pow2 ?a = of_int k"
      using grid_int [of ?a "ilog2 y"] lt lb by auto
    have "round_even (x / pow2 ?a) \<le> round_even (?m / pow2 ?a)"
      using xm by (intro round_even_mono divide_right_mono) (auto simp: less_imp_le)
    then have "rnd_pos x \<le> of_int k * pow2 ?a"
      using k by (simp add: rnd_pos_def Let_def mult_right_mono less_imp_le)
    also have "\<dots> = ?m" using k by (simp add: field_simps)
    finally have 1: "rnd_pos x \<le> ?m" .
    obtain j where j: "?m / pow2 ?b = of_int j"
      using grid_int [of ?b "ilog2 y"] lb by auto
    have "round_even (?m / pow2 ?b) \<le> round_even (y / pow2 ?b)"
      using ilog2_bounds [OF y] by (intro round_even_mono divide_right_mono) (auto simp: less_imp_le)
    then have "of_int j * pow2 ?b \<le> rnd_pos y"
      using j by (simp add: rnd_pos_def Let_def mult_right_mono less_imp_le)
    moreover have "of_int j * pow2 ?b = ?m" using j by (simp add: field_simps)
    ultimately have 2: "?m \<le> rnd_pos y" by simp
    from 1 2 show ?thesis by simp
  qed
qed


section \<open>What the proofs need of rounding\<close>

locale rounding =
  fixes rnd :: "rat \<Rightarrow> rat"
  assumes mono: "x \<le> y \<Longrightarrow> rnd x \<le> rnd y"
    and exact_int: "\<bar>k\<bar> \<le> 2 ^ 53 \<Longrightarrow> rnd (of_int k) = of_int k"
    and neg: "rnd (- x) = - rnd x"
begin

lemma zero [simp]: "rnd 0 = 0"
  using exact_int [of 0] by simp

lemma one [simp]: "rnd 1 = 1"
  using exact_int [of 1] by simp

lemma nonneg: "0 \<le> x \<Longrightarrow> 0 \<le> rnd x"
  using mono [of 0 x] by simp

lemma le_int: "\<bar>k\<bar> \<le> 2 ^ 53 \<Longrightarrow> x \<le> of_int k \<Longrightarrow> rnd x \<le> of_int k"
  using mono [of x "of_int k"] exact_int by fastforce

lemma ge_int: "\<bar>k\<bar> \<le> 2 ^ 53 \<Longrightarrow> of_int k \<le> x \<Longrightarrow> of_int k \<le> rnd x"
  using mono [of "of_int k" x] exact_int by fastforce

lemma unit: "0 \<le> x \<Longrightarrow> x \<le> 1 \<Longrightarrow> 0 \<le> rnd x \<and> rnd x \<le> 1"
  using mono [of x 1] by (simp add: nonneg)

text \<open>A weighted product does not exceed the rounded weight.\<close>

lemma weight_le: "0 \<le> w \<Longrightarrow> rnd w = w \<Longrightarrow> 0 \<le> s \<Longrightarrow> s \<le> 1 \<Longrightarrow> 0 \<le> rnd (w * s) \<and> rnd (w * s) \<le> w"
  using mono [of "w * s" w] by (simp add: nonneg mult_left_le)

end

lemma ilog2_le_int:
  assumes "0 < k" "k < 2 ^ n"
  shows "ilog2 (of_int k) < int n"
proof (rule ccontr)
  assume "\<not> ilog2 (of_int k) < int n"
  then have "pow2 (int n) \<le> pow2 (ilog2 (of_int k))" by (intro pow2_mono) simp
  also have "\<dots> \<le> of_int k" using ilog2_bounds [of "of_int k"] assms by simp
  finally have "2 ^ n \<le> k" by (simp add: pow2_def flip: of_int_power)
  with assms show False by simp
qed

lemma rnd_pos_int: "0 < k \<Longrightarrow> k \<le> 2 ^ 53 \<Longrightarrow> rnd_pos (of_int k) = of_int k"
proof -
  assume k: "0 < k" "k \<le> 2 ^ 53"
  show ?thesis
  proof (cases "k = 2 ^ 53")
    case True
    then have "rat_of_int k = pow2 53" by (simp add: pow2_def)
    moreover have "ilog2 (pow2 53) = 53" by code_simp
    ultimately show ?thesis
      using rnd_pos_exact [of "pow2 53" "2 ^ 52"] by (simp add: ulp_exp_def pow2_def)
  next
    case False
    with k have "ilog2 (of_int k) < 53" using ilog2_le_int [of k 53] by simp
    then have "ulp_exp (of_int k) \<le> 0" by (simp add: ulp_exp_def)
    then obtain j where "pow2 0 / pow2 (ulp_exp (of_int k)) = of_int j" using grid_int by blast
    then have "of_int k = of_int (k * j) * pow2 (ulp_exp (of_int k))"
      by (simp add: field_simps)
    then show ?thesis by (rule rnd_pos_exact)
  qed
qed

lemma rnd_pos_nonneg: "0 < x \<Longrightarrow> 0 \<le> rnd_pos x"
proof -
  assume "0 < x"
  then have "round_even (of_int 0) \<le> round_even (x / pow2 (ulp_exp x))"
    by (intro round_even_mono) (simp add: less_imp_le)
  then have "0 \<le> round_even (x / pow2 (ulp_exp x))" by (simp only: round_even_int)
  then show ?thesis by (simp add: rnd_pos_def Let_def)
qed

interpretation f64: rounding rnd64
proof unfold_locales
  fix x y :: rat assume "x \<le> y"
  then show "rnd64 x \<le> rnd64 y"
    using rnd_pos_mono [of x y] rnd_pos_mono [of "- y" "- x"] rnd_pos_nonneg [of y]
      rnd_pos_nonneg [of "- x"]
    by (auto simp: rnd64_def)
next
  fix k :: int assume "\<bar>k\<bar> \<le> 2 ^ 53"
  then show "rnd64 (of_int k) = of_int k"
    using rnd_pos_int [of k] rnd_pos_int [of "- k"] by (auto simp: rnd64_def)
next
  fix x show "rnd64 (- x) = - rnd64 x" by (simp add: rnd64_def)
qed

section \<open>Operations\<close>

definition fadd :: "float64 \<Rightarrow> float64 \<Rightarrow> float64" where
  "fadd a b = rnd64 (a + b)"

definition fsub :: "float64 \<Rightarrow> float64 \<Rightarrow> float64" where
  "fsub a b = rnd64 (a - b)"

definition fmul :: "float64 \<Rightarrow> float64 \<Rightarrow> float64" where
  "fmul a b = rnd64 (a * b)"

definition fdiv :: "float64 \<Rightarrow> float64 \<Rightarrow> float64" where
  "fdiv a b = rnd64 (a / b)"

definition float_of_int :: "int \<Rightarrow> float64" where
  "float_of_int n = rnd64 (of_int n)"

text \<open>
  \<^verbatim>\<open>math.Sqrt\<close>, correctly rounded: the integer square root of the argument scaled
  to the unit in the last place of the result, and the half-way test on squares.
\<close>

definition isqrt_digit :: "nat \<Rightarrow> nat \<Rightarrow> nat" where
  "isqrt_digit n r = (if (r + 1) * (r + 1) \<le> n then r + 1 else r)"

fun isqrt :: "nat \<Rightarrow> nat" where
  "isqrt n = (if n = 0 then 0 else isqrt_digit n (2 * isqrt (n div 4)))"

declare isqrt.simps [simp del]

definition sqrt_round :: "rat \<Rightarrow> nat \<Rightarrow> nat" where
  "sqrt_round y m =
     (if 4 * y < of_nat ((2 * m + 1) * (2 * m + 1)) then m
      else if of_nat ((2 * m + 1) * (2 * m + 1)) < 4 * y then m + 1
      else if even m then m else m + 1)"

definition sqrt_scaled :: "rat \<Rightarrow> nat" where
  "sqrt_scaled y = sqrt_round y (isqrt (nat \<lfloor>y\<rfloor>))"

definition fsqrt :: "float64 \<Rightarrow> float64" where
  "fsqrt x = (if x \<le> 0 then 0
     else of_nat (sqrt_scaled (x / pow2 (2 * (ilog2 x div 2 - 52)))) * pow2 (ilog2 x div 2 - 52))"

text \<open>\<^verbatim>\<open>Duration.Seconds\<close>.\<close>

definition Seconds :: "duration \<Rightarrow> float64" where
  "Seconds d = fadd (float_of_int (quot_int d Second))
                    (fdiv (float_of_int (rem_int d Second)) (float_of_int 1000000000))"

lemma isqrt_correct: "isqrt n * isqrt n \<le> n \<and> n < (isqrt n + 1) * (isqrt n + 1)"
proof (induction n rule: isqrt.induct)
  case (1 n)
  show ?case
  proof (cases "n = 0")
    case True
    then show ?thesis by (simp add: isqrt.simps)
  next
    case False
    define s where "s = isqrt (n div 4)"
    have IH: "s * s \<le> n div 4" "n div 4 < (s + 1) * (s + 1)"
      using "1.IH" [OF False] by (auto simp: s_def)
    have "4 * (s * s) \<le> n" using IH(1) by linarith
    moreover have "n < 4 * ((s + 1) * (s + 1))" using IH(2) by linarith
    ultimately show ?thesis
      using False by (simp add: isqrt.simps [of n] isqrt_digit_def s_def [symmetric] algebra_simps)
  qed
qed

lemma float_of_int_exact: "\<bar>k\<bar> \<le> 2 ^ 53 \<Longrightarrow> float_of_int k = of_int k"
  by (simp add: float_of_int_def f64.exact_int)

lemma float_of_int_mono: "a \<le> b \<Longrightarrow> float_of_int a \<le> float_of_int b"
  by (simp add: float_of_int_def f64.mono)

lemma float_of_int_nonneg: "0 \<le> a \<Longrightarrow> 0 \<le> float_of_int a"
  by (simp add: float_of_int_def f64.nonneg)

end
