(* ===== verification/Rotation.thy ===== *)
theory Rotation
  imports Go_Float
begin

text \<open>
  Certificate rotation tracking: \<^verbatim>\<open>internal/session/rotation.go\<close>. The state is the
  record \<open>RotationTracker\<close>; \<open>Track\<close> is the whole operation (rate limit,
  classification, bounded history) and takes the reading of the clock that the
  code uses when an observation has no time. The lemmas show that the tracker
  keeps one bounded history per identity, what each class means, and that the
  rate limit bounds the rotations reported in a window.
\<close>

section \<open>Data\<close>

definition certHistoryMax :: nat where "certHistoryMax = 10"
definition rotationLearnMin :: nat where "rotationLearnMin = 3"
definition earlyFraction :: rat where "earlyFraction = 3 / 4"
definition rotationRateWindow :: duration where "rotationRateWindow = Minute"
definition rotationRateMax :: int where "rotationRateMax = 10"

lemmas rotation_consts = certHistoryMax_def rotationLearnMin_def earlyFraction_def
  rotationRateWindow_def rotationRateMax_def

record CertObservation =
  co_Serial :: string
  co_Expiry :: time
  co_IssuerFingerprint :: string
  co_TrustDomain :: string
  co_ObservedAt :: time
  co_PID :: u32

datatype RotationClass =
  RotationFirstSeen | RotationNormal | RotationEarly | RotationIssuerChange | RotationDomainChange

record RotationTracker =
  history :: "string \<rightharpoonup> CertObservation list"
  rateCount :: "string \<rightharpoonup> int"
  rateReset :: "string \<rightharpoonup> time"

definition NewRotationTracker :: RotationTracker where
  "NewRotationTracker = \<lparr>history = Map.empty, rateCount = Map.empty, rateReset = Map.empty\<rparr>"

text \<open>Indexing a Go map: the zero value where the key is absent.\<close>

definition hist_of :: "RotationTracker \<Rightarrow> string \<Rightarrow> CertObservation list" where
  "hist_of t i = (case history t i of None \<Rightarrow> [] | Some h \<Rightarrow> h)"

definition count_of :: "RotationTracker \<Rightarrow> string \<Rightarrow> int" where
  "count_of t i = (case rateCount t i of None \<Rightarrow> 0 | Some c \<Rightarrow> c)"

section \<open>Operations\<close>

fun positiveIntervals :: "CertObservation list \<Rightarrow> duration list" where
  "positiveIntervals (a # b # r) =
     (let d = Sub (co_ObservedAt b) (co_ObservedAt a)
      in if 0 < d then d # positiveIntervals (b # r) else positiveIntervals (b # r))"
| "positiveIntervals _ = []"

definition learnedInterval :: "CertObservation list \<Rightarrow> duration" where
  "learnedInterval hist =
     (if length hist < 2 then 0
      else let intervals = positiveIntervals hist
           in if length intervals = 0 then 0
              else quot_int (foldl (\<lambda>total d. wrap64 (total + d)) 0 intervals) (int (length intervals)))"

definition isEarlyRotation :: "CertObservation \<Rightarrow> CertObservation \<Rightarrow> CertObservation list \<Rightarrow> bool" where
  "isEarlyRotation newObs lastObs hist =
     (if co_ObservedAt newObs > co_Expiry lastObs then False
      else let interval = learnedInterval hist in
        if rotationLearnMin \<le> length hist \<and> 0 < interval then
          let expectedNext = co_ObservedAt lastObs + interval
          in co_ObservedAt newObs < expectedNext + quot_int (wrap64 (- interval)) 4
        else
          let lifetime = Sub (co_Expiry lastObs) (co_ObservedAt lastObs);
              remaining = Sub (co_Expiry lastObs) (co_ObservedAt newObs)
          in if lifetime \<le> 0 then False
             else fdiv (float_of_int remaining) (float_of_int lifetime) > 1 - earlyFraction)"

definition pidChanged :: "CertObservation \<Rightarrow> CertObservation \<Rightarrow> bool" where
  "pidChanged obs lastObs \<longleftrightarrow> co_PID obs \<noteq> 0 \<and> co_PID lastObs \<noteq> 0 \<and> co_PID obs \<noteq> co_PID lastObs"

text \<open>The \<^verbatim>\<open>switch\<close> of \<^verbatim>\<open>Track\<close>.\<close>

definition classify :: "CertObservation \<Rightarrow> CertObservation \<Rightarrow> CertObservation list \<Rightarrow> RotationClass" where
  "classify obs lastObs hist =
     (if co_TrustDomain obs \<noteq> co_TrustDomain lastObs then RotationDomainChange
      else if co_IssuerFingerprint obs \<noteq> co_IssuerFingerprint lastObs then RotationIssuerChange
      else if isEarlyRotation obs lastObs hist \<and> \<not> pidChanged obs lastObs then RotationEarly
      else RotationNormal)"

text \<open>The rate window: restart it if it has passed, then count the observation.\<close>

definition rateTick :: "RotationTracker \<Rightarrow> string \<Rightarrow> time \<Rightarrow> RotationTracker" where
  "rateTick t spiffeID now =
     (let t1 = (if (case rateReset t spiffeID of None \<Rightarrow> True | Some reset \<Rightarrow> now > reset)
                then t\<lparr>rateCount := (rateCount t)(spiffeID \<mapsto> 0),
                       rateReset := (rateReset t)(spiffeID \<mapsto> now + rotationRateWindow)\<rparr>
                else t)
      in t1\<lparr>rateCount := (rateCount t1)(spiffeID \<mapsto> count_of t1 spiffeID + 1)\<rparr>)"

definition observedTime :: "CertObservation \<Rightarrow> time \<Rightarrow> time" where
  "observedTime obs wall = (if co_ObservedAt obs = zero_time then wall else co_ObservedAt obs)"

definition Track ::
  "RotationTracker \<Rightarrow> time \<Rightarrow> string \<Rightarrow> CertObservation \<Rightarrow> RotationClass \<times> RotationTracker" where
  "Track t wall spiffeID obs =
     (let t1 = rateTick t spiffeID (observedTime obs wall) in
      if count_of t1 spiffeID > rotationRateMax then (RotationFirstSeen, t1)
      else let hist = hist_of t1 spiffeID in
        if length hist = 0 then
          (RotationFirstSeen, t1\<lparr>history := (history t1)(spiffeID \<mapsto> hist @ [obs])\<rparr>)
        else if co_Serial obs = co_Serial (last hist) then (RotationFirstSeen, t1)
        else (classify obs (last hist) hist,
              t1\<lparr>history := (history t1)(spiffeID \<mapsto> keep_last certHistoryMax (hist @ [obs]))\<rparr>))"

definition History :: "RotationTracker \<Rightarrow> string \<Rightarrow> CertObservation list" where
  "History t spiffeID = hist_of t spiffeID"

section \<open>One state per identity\<close>

definition rot_view :: "RotationTracker \<Rightarrow> string \<Rightarrow> CertObservation list \<times> int \<times> time option" where
  "rot_view t i = (hist_of t i, count_of t i, rateReset t i)"

definition rot_observe :: "RotationTracker \<Rightarrow> string \<Rightarrow> CertObservation \<times> time \<Rightarrow> RotationTracker" where
  "rot_observe t i x = snd (Track t (snd x) i (fst x))"

text \<open>
  The invariant of one identity: a bounded history in which neighbours have
  different serial numbers, and a non-negative count.
\<close>

definition rot_good :: "CertObservation list \<times> int \<times> time option \<Rightarrow> bool" where
  "rot_good v \<longleftrightarrow> length (fst v) \<le> certHistoryMax
     \<and> successively (\<lambda>a b. co_Serial a \<noteq> co_Serial b) (fst v) \<and> 0 \<le> fst (snd v)"

lemma successively_keep_last: "successively P xs \<Longrightarrow> successively P (keep_last n xs)"
  by (metis keep_last_suffix successively_append_iff)

lemma hist_of_rateTick [simp]: "hist_of (rateTick t i now) j = hist_of t j"
  by (simp add: rateTick_def hist_of_def Let_def)

lemma history_rateTick [simp]: "history (rateTick t i now) = history t"
  by (simp add: rateTick_def Let_def)

lemma view_rateTick:
  "rateReset (rateTick t i now) i =
     (if (case rateReset t i of None \<Rightarrow> True | Some r \<Rightarrow> now > r)
      then Some (now + rotationRateWindow) else rateReset t i)"
  "count_of (rateTick t i now) i =
     (if (case rateReset t i of None \<Rightarrow> True | Some r \<Rightarrow> now > r) then 1 else count_of t i + 1)"
  "j \<noteq> i \<Longrightarrow> rateReset (rateTick t i now) j = rateReset t j"
  "j \<noteq> i \<Longrightarrow> count_of (rateTick t i now) j = count_of t j"
  by (auto simp: rateTick_def count_of_def Let_def)

lemma hist_of_upd [simp]:
  "hist_of (t\<lparr>history := (history t')(i \<mapsto> h)\<rparr>) j = (if j = i then h else hist_of (t\<lparr>history := history t'\<rparr>) j)"
  "count_of (t\<lparr>history := H\<rparr>) j = count_of t j"
  by (auto simp: hist_of_def count_of_def)

lemma hist_of_history: "history t = history t' \<Longrightarrow> hist_of t j = hist_of t' j"
  by (simp add: hist_of_def)

interpretation rt: per_identity rot_observe rot_view rot_good
proof unfold_locales
  fix i j t x assume "(j :: string) \<noteq> i"
  then show "rot_view (rot_observe t i x) j = rot_view t j"
    by (auto simp: rot_observe_def rot_view_def Track_def Let_def view_rateTick hist_of_def)
next
  fix t t' i x assume e: "rot_view t i = rot_view t' i"
  then have h: "hist_of t i = hist_of t' i" "rateReset t i = rateReset t' i" "count_of t i = count_of t' i"
    by (auto simp: rot_view_def)
  then show "rot_view (rot_observe t i x) i = rot_view (rot_observe t' i x) i"
    by (auto simp: rot_observe_def rot_view_def Track_def Let_def view_rateTick)
next
  fix t i x assume g: "rot_good (rot_view t i)"
  let ?t = "rateTick t i (observedTime (fst x) (snd x))"
  have c: "0 \<le> count_of ?t i" using g by (auto simp: view_rateTick rot_good_def rot_view_def)
  show "rot_good (rot_view (rot_observe t i x) i)"
  proof (cases "hist_of t i = []")
    case True
    then show ?thesis using g c
      by (auto simp: rot_observe_def rot_view_def rot_good_def Track_def Let_def certHistoryMax_def)
  next
    case False
    have "co_Serial (fst x) \<noteq> co_Serial (last (hist_of t i)) \<Longrightarrow>
      successively (\<lambda>a b. co_Serial a \<noteq> co_Serial b) (hist_of t i @ [fst x])"
      using g False by (auto simp: rot_good_def rot_view_def successively_append_iff)
    then show ?thesis using False g c
      by (auto simp: rot_observe_def rot_view_def rot_good_def Track_def Let_def
          successively_keep_last)
  qed
qed

lemma NewRotationTracker_good: "rot_good (rot_view NewRotationTracker i)"
  by (simp add: rot_good_def rot_view_def NewRotationTracker_def hist_of_def count_of_def)

section \<open>Properties\<close>

text \<open>
  Whatever certificate observations arrive, for whatever identities and
  in whatever order, the history kept for every identity has at most
  \<^verbatim>\<open>certHistoryMax\<close> entries and never holds the same serial number twice in a row
  (re-observing the current certificate is not a rotation).
\<close>

lemma rotation_history_bounded:
  "length (History (foldl (\<lambda>t (i, x). rot_observe t i x) NewRotationTracker os) j) \<le> certHistoryMax
   \<and> successively (\<lambda>a b. co_Serial a \<noteq> co_Serial b)
       (History (foldl (\<lambda>t (i, x). rot_observe t i x) NewRotationTracker os) j)"
  using rt.run_good [of NewRotationTracker os j] NewRotationTracker_good
  by (simp add: rot_good_def rot_view_def History_def)

text \<open>
  Identities do not influence each other. The history of an identity
  after any sequence of observations is the one its own observations alone give,
  so no workload can change the rotation baseline of another.
\<close>

lemma rotation_identities_isolated:
  "History (foldl (\<lambda>t (i, x). rot_observe t i x) NewRotationTracker os) j
   = History (foldl (\<lambda>t (i, x). rot_observe t i x) NewRotationTracker (filter (\<lambda>p. fst p = j) os)) j"
  using rt.run_project [of NewRotationTracker j NewRotationTracker os]
  by (simp add: rot_view_def History_def)

text \<open>An observation that passes the rate limit and shows a new certificate.\<close>

definition new_cert :: "RotationTracker \<Rightarrow> time \<Rightarrow> string \<Rightarrow> CertObservation \<Rightarrow> bool" where
  "new_cert t wall i obs \<longleftrightarrow>
     count_of (rateTick t i (observedTime obs wall)) i \<le> rotationRateMax
     \<and> hist_of t i \<noteq> [] \<and> co_Serial obs \<noteq> co_Serial (last (hist_of t i))"

lemma fst_Track:
  "fst (Track t wall i obs) =
     (if new_cert t wall i obs then classify obs (last (hist_of t i)) (hist_of t i) else RotationFirstSeen)"
  by (auto simp: Track_def new_cert_def Let_def)

lemma classify_iff:
  "classify obs l h = RotationFirstSeen \<longleftrightarrow> False"
  "classify obs l h = RotationDomainChange \<longleftrightarrow> co_TrustDomain obs \<noteq> co_TrustDomain l"
  "classify obs l h = RotationIssuerChange \<longleftrightarrow>
     co_TrustDomain obs = co_TrustDomain l \<and> co_IssuerFingerprint obs \<noteq> co_IssuerFingerprint l"
  "classify obs l h = RotationEarly \<longleftrightarrow>
     co_TrustDomain obs = co_TrustDomain l \<and> co_IssuerFingerprint obs = co_IssuerFingerprint l
     \<and> isEarlyRotation obs l h \<and> \<not> pidChanged obs l"
  "classify obs l h = RotationNormal \<longleftrightarrow>
     co_TrustDomain obs = co_TrustDomain l \<and> co_IssuerFingerprint obs = co_IssuerFingerprint l
     \<and> (isEarlyRotation obs l h \<longrightarrow> pidChanged obs l)"
  by (auto simp: classify_def)

text \<open>
  The classes of \<^verbatim>\<open>Track\<close> are decided in the documented order. A
  certificate of another trust domain is always reported as a domain change, a
  change of issuer within the trust domain as an issuer change, and an early
  rotation is reported only for the same trust domain and issuer and never when
  the process changed (a pod restart); \<^verbatim>\<open>RotationFirstSeen\<close> is returned exactly when
  the observation is not a new certificate.
\<close>

lemma rotation_classes:
  "((fst (Track t wall i obs) = RotationFirstSeen) = (\<not> new_cert t wall i obs))
   \<and> ((fst (Track t wall i obs) = RotationDomainChange) =
        (new_cert t wall i obs \<and> co_TrustDomain obs \<noteq> co_TrustDomain (last (hist_of t i))))
   \<and> ((fst (Track t wall i obs) = RotationIssuerChange) =
        (new_cert t wall i obs \<and> co_TrustDomain obs = co_TrustDomain (last (hist_of t i))
         \<and> co_IssuerFingerprint obs \<noteq> co_IssuerFingerprint (last (hist_of t i))))
   \<and> ((fst (Track t wall i obs) = RotationEarly) =
        (new_cert t wall i obs \<and> co_TrustDomain obs = co_TrustDomain (last (hist_of t i))
         \<and> co_IssuerFingerprint obs = co_IssuerFingerprint (last (hist_of t i))
         \<and> isEarlyRotation obs (last (hist_of t i)) (hist_of t i)
         \<and> \<not> pidChanged obs (last (hist_of t i))))"
  by (simp add: fst_Track classify_iff)

section \<open>The rate limit\<close>

fun track_all ::
  "RotationTracker \<Rightarrow> string \<Rightarrow> (CertObservation \<times> time) list \<Rightarrow> RotationClass list" where
  "track_all t i [] = []"
| "track_all t i ((obs, wall) # xs) =
     fst (Track t wall i obs) # track_all (snd (Track t wall i obs)) i xs"

lemma Track_same_window:
  assumes "rateReset t i = Some r" "observedTime obs wall \<le> r"
  shows "rateReset (snd (Track t wall i obs)) i = Some r"
    and "count_of (snd (Track t wall i obs)) i = count_of t i + 1"
    and "rotationRateMax \<le> count_of t i \<Longrightarrow> fst (Track t wall i obs) = RotationFirstSeen"
  using assms by (auto simp: Track_def Let_def view_rateTick)

text \<open>
  Property C16: rate limit (RT-006). While the observation times of an identity stay
  within its current rate window, at most \<^verbatim>\<open>rotationRateMax\<close> observations (less those
  already counted) are reported as rotations, however many arrive.
\<close>

theorem rotation_rate_limit:
  assumes "rateReset t i = Some r"
    and "\<forall>(obs, wall) \<in> set xs. observedTime obs wall \<le> r"
  shows "int (length (filter (\<lambda>c. c \<noteq> RotationFirstSeen) (track_all t i xs)))
           \<le> max 0 (rotationRateMax - count_of t i)"
  using assms
proof (induction xs arbitrary: t)
  case (Cons x xs)
  obtain obs wall where x: "x = (obs, wall)" by (cases x)
  let ?t = "snd (Track t wall i obs)"
  have le: "observedTime obs wall \<le> r" using Cons.prems(2) x by auto
  note w = Track_same_window [OF Cons.prems(1) le]
  have IH: "int (length (filter (\<lambda>c. c \<noteq> RotationFirstSeen) (track_all ?t i xs)))
      \<le> max 0 (rotationRateMax - count_of ?t i)"
    using Cons.IH [OF w(1)] Cons.prems(2) by auto
  show ?case
  proof (cases "rotationRateMax \<le> count_of t i")
    case True
    with IH w(2,3) show ?thesis by (simp add: x)
  next
    case False
    with IH w(2) show ?thesis by (auto simp: x)
  qed
qed simp

definition obs_example :: "string \<Rightarrow> time \<Rightarrow> CertObservation" where
  "obs_example serial w = \<lparr>co_Serial = serial, co_Expiry = w + 100, co_IssuerFingerprint = ''fp'',
     co_TrustDomain = ''prod'', co_ObservedAt = w, co_PID = 7\<rparr>"

theorem rotation_rate_limit_witness:
  "int (length (filter (\<lambda>c. c \<noteq> RotationFirstSeen)
     (track_all (snd (Track NewRotationTracker 0 ''id'' (obs_example ''a'' 1))) ''id''
        [(obs_example ''b'' 2, 0), (obs_example ''c'' 3, 0)]))) \<le> 9"
  using rotation_rate_limit [of "snd (Track NewRotationTracker 0 ''id'' (obs_example ''a'' 1))" "''id''"
      "1 + rotationRateWindow" "[(obs_example ''b'' 2, 0), (obs_example ''c'' 3, 0)]"]
  by (simp add: Track_def NewRotationTracker_def obs_example_def rateTick_def count_of_def hist_of_def
      observedTime_def go_defs rotation_consts)

section \<open>What an early rotation is\<close>

lemma positiveIntervals_pos: "d \<in> set (positiveIntervals h) \<Longrightarrow> 0 < d"
  by (induction h rule: positiveIntervals.induct) (auto simp: Let_def split: if_splits)

lemma foldl_wrap64:
  assumes "\<forall>d \<in> set ds. 0 < d" "0 \<le> a" "a + sum_list ds \<le> maxDuration"
  shows "foldl (\<lambda>s d. wrap64 (s + d)) a ds = a + sum_list ds"
  using assms
proof (induction ds arbitrary: a)
  case (Cons d ds)
  have "0 \<le> sum_list ds" using Cons.prems(1) by (intro sum_list_nonneg) auto
  with Cons.prems have "wrap64 (a + d) = a + d"
    by (intro wrap64_id) (auto simp: minDuration_def)
  with Cons show ?case by (simp add: algebra_simps)
qed simp

lemma learnedInterval_mean:
  assumes "positiveIntervals h \<noteq> []" "sum_list (positiveIntervals h) \<le> maxDuration"
  shows "learnedInterval h = sum_list (positiveIntervals h) div int (length (positiveIntervals h))"
proof -
  have "2 \<le> length h" using assms(1) by (cases h rule: positiveIntervals.cases) auto
  moreover have "foldl (\<lambda>s d. wrap64 (s + d)) 0 (positiveIntervals h) = sum_list (positiveIntervals h)"
    using foldl_wrap64 [of "positiveIntervals h" 0] assms(2) positiveIntervals_pos by auto
  moreover have "0 < sum_list (positiveIntervals h)"
    using assms(1) positiveIntervals_pos [of _ h]
    by (cases "positiveIntervals h") (auto intro!: add_pos_nonneg sum_list_nonneg simp: less_imp_le)
  ultimately show ?thesis
    using assms(1) by (simp add: learnedInterval_def Let_def quot_int_def)
qed

lemma mean_bounds:
  fixes xs :: "int list"
  assumes "xs \<noteq> []" "\<forall>x \<in> set xs. lo \<le> x \<and> x \<le> hi"
  shows "lo \<le> sum_list xs div int (length xs) \<and> sum_list xs div int (length xs) \<le> hi"
proof -
  have "lo * int (length xs) \<le> sum_list xs \<and> sum_list xs \<le> hi * int (length xs)"
    using assms(2) by (induction xs) (auto simp: algebra_simps)
  moreover have "0 < int (length xs)" using assms(1) by simp
  ultimately show ?thesis
    by (metis nonzero_mult_div_cancel_right order.strict_implies_not_eq zdiv_mono1)
qed

text \<open>
  The learned rotation interval is the arithmetic mean (rounded down) of
  the positive gaps between observations, and so lies between the shortest and
  the longest of them, as long as their sum is a representable duration. (The
  comment in the source calls it the median.)
\<close>

lemma learnedInterval_is_mean:
  assumes "positiveIntervals h \<noteq> []"
    and "sum_list (positiveIntervals h) \<le> maxDuration"
    and "\<forall>d \<in> set (positiveIntervals h). lo \<le> d \<and> d \<le> hi"
  shows "learnedInterval h = sum_list (positiveIntervals h) div int (length (positiveIntervals h))
         \<and> lo \<le> learnedInterval h \<and> learnedInterval h \<le> hi"
  using learnedInterval_mean [OF assms(1,2)] mean_bounds [OF assms(1,3)] by simp

lemma zdiv_le_dividend_int: "0 \<le> a \<Longrightarrow> 0 < b \<Longrightarrow> a div b \<le> (a :: int)"
  using zdiv_mono2 [of a 1 b] by simp

lemma quot_int_pos_bound: "0 < b \<Longrightarrow> 0 < quot_int a b \<Longrightarrow> 0 < a \<and> quot_int a b \<le> a"
  using pos_imp_zdiv_nonneg_iff [of b "- a"]
  by (auto simp: quot_int_def sgn_if split: if_splits intro: zdiv_le_dividend_int)

lemma learnedInterval_le_max: "0 < learnedInterval h \<Longrightarrow> learnedInterval h \<le> maxDuration"
proof -
  assume p: "0 < learnedInterval h"
  let ?ds = "positiveIntervals h"
  let ?s = "foldl (\<lambda>total d. wrap64 (total + d)) 0 ?ds"
  have ne: "?ds \<noteq> []" and L: "learnedInterval h = quot_int ?s (int (length ?ds))"
    using p by (auto simp: learnedInterval_def Let_def split: if_splits)
  then obtain d r where "?ds = r @ [d]" by (meson rev_exhaust)
  then have "?s \<le> maxDuration" using wrap64_range by simp
  with quot_int_pos_bound [of "int (length ?ds)" ?s] ne p L show ?thesis by simp
qed

lemma quarter_before: "0 < v \<Longrightarrow> v \<le> maxDuration \<Longrightarrow> quot_int (wrap64 (- v)) 4 = - (v div 4)"
  by (subst wrap64_id) (auto simp: quot_int_def minDuration_def maxDuration_def)

lemma three_quarters: "e < v - v div 4 \<Longrightarrow> 4 * e < 3 * (v :: int)"
  by presburger

lemma early_by_interval:
  assumes "isEarlyRotation obs l h" "rotationLearnMin \<le> length h" "0 < learnedInterval h"
  shows "4 * (co_ObservedAt obs - co_ObservedAt l) < 3 * learnedInterval h"
proof -
  let ?v = "learnedInterval h"
  have "co_ObservedAt obs < co_ObservedAt l + ?v - ?v div 4"
    using assms quarter_before [of ?v] learnedInterval_le_max [of h]
    by (auto simp: isEarlyRotation_def Let_def split: if_splits)
  then show ?thesis by (intro three_quarters) simp
qed

lemma early_by_lifetime:
  assumes "isEarlyRotation obs l h" "\<not> (rotationLearnMin \<le> length h \<and> 0 < learnedInterval h)"
    and "co_Expiry l - co_ObservedAt l \<le> 2 ^ 53" "co_Expiry l - co_ObservedAt obs \<le> 2 ^ 53"
  shows "co_Expiry l - co_ObservedAt l < 4 * (co_Expiry l - co_ObservedAt obs)"
proof -
  let ?life = "co_Expiry l - co_ObservedAt l" and ?rem = "co_Expiry l - co_ObservedAt obs"
  have exp: "0 \<le> ?rem" using assms(1) by (auto simp: isEarlyRotation_def split: if_splits)
  have pos: "0 < Sub (co_Expiry l) (co_ObservedAt l)"
    and gt: "fdiv (float_of_int (Sub (co_Expiry l) (co_ObservedAt obs)))
               (float_of_int (Sub (co_Expiry l) (co_ObservedAt l))) > 1 - earlyFraction"
    using assms(1,2) by (auto simp: isEarlyRotation_def Let_def split: if_splits)
  have life: "0 < ?life" using pos Sub_pos_iff by simp
  have "Sub (co_Expiry l) (co_ObservedAt l) = ?life" "Sub (co_Expiry l) (co_ObservedAt obs) = ?rem"
    using life exp assms(3,4) by (auto simp: Sub_def minDuration_def maxDuration_def)
  with gt have g: "rnd64 (of_int ?rem / of_int ?life) > 1 / 4"
    using life exp assms(3,4) by (simp add: fdiv_def float_of_int_exact earlyFraction_def)
  have "rnd64 (1 / 4) = 1 / 4" by code_simp
  then have "1 / 4 < (of_int ?rem / of_int ?life :: rat)"
    using g f64.mono [of "of_int ?rem / of_int ?life" "1 / 4"] by linarith
  then have "(of_int ?life :: rat) < of_int (4 * ?rem)"
    using life by (simp add: field_simps)
  then show ?thesis by (simp only: of_int_less_iff)
qed

text \<open>
  \<^verbatim>\<open>RotationEarly\<close> is never reported for a certificate that replaces an
  expired one. Where a positive interval has been learned, it is reported only
  when the new certificate came before three quarters of that interval had
  passed; otherwise only when more than a quarter of the lifetime of the previous
  certificate was left (lifetimes up to 2^53 nanoseconds, about 104 days, where
  the conversion to \<^verbatim>\<open>float64\<close> is exact).
\<close>

lemma early_rotation_sound:
  assumes "fst (Track t wall i obs) = RotationEarly"
    and "l = last (hist_of t i)"
    and "co_Expiry l - co_ObservedAt l \<le> 2 ^ 53"
    and "co_Expiry l - co_ObservedAt obs \<le> 2 ^ 53"
  shows "co_ObservedAt obs \<le> co_Expiry l
    \<and> (if rotationLearnMin \<le> length (hist_of t i) \<and> 0 < learnedInterval (hist_of t i)
       then 4 * (co_ObservedAt obs - co_ObservedAt l) < 3 * learnedInterval (hist_of t i)
       else co_Expiry l - co_ObservedAt l < 4 * (co_Expiry l - co_ObservedAt obs))"
proof -
  have e: "isEarlyRotation obs l (hist_of t i)"
    using assms(1,2) by (auto simp: fst_Track classify_iff split: if_splits)
  then have "co_ObservedAt obs \<le> co_Expiry l"
    by (auto simp: isEarlyRotation_def split: if_splits)
  with early_by_interval [OF e] early_by_lifetime [OF e _ assms(3,4)] show ?thesis by auto
qed

end
