(* ===== verification/Profile.thy ===== *)
theory Profile
  imports Go_Float
begin

text \<open>
  Behavioural profiles: \<^verbatim>\<open>internal/session/profile.go\<close>. \<open>ProfileTracker\<close> keeps a
  bounded list of time windows per identity; \<open>Observe\<close> counts an event in the
  current window, \<open>ProfileOf\<close> scores the current window against the earlier ones
  with \<^verbatim>\<open>float64\<close> arithmetic. The sets of a window are association lists, since the
  scoring ranges over them.
\<close>

section \<open>Data\<close>

definition profileWindowSize :: duration where "profileWindowSize = 5 * Minute"
definition profileWindowMax :: nat where "profileWindowMax = 12"
definition profileLearnMin :: nat where "profileLearnMin = 3"
definition profileDestSetMax :: nat where "profileDestSetMax = 1000"
definition weightConnectionRate :: float64 where "weightConnectionRate = rnd64 (40 / 100)"
definition weightDestNovelty :: float64 where "weightDestNovelty = rnd64 (40 / 100)"
definition weightByteRate :: float64 where "weightByteRate = rnd64 (20 / 100)"

lemmas profile_consts = profileWindowSize_def profileWindowMax_def profileLearnMin_def
  profileDestSetMax_def

record TimeWindow =
  tw_Start :: time
  tw_End :: time
  tw_Connections :: int
  tw_DestSet :: "(string \<times> int) list"
  tw_ToolSet :: "(string \<times> int) list"
  tw_BytesTx :: u64
  tw_BytesRx :: u64
  tw_DestSetOverflow :: int

record BaselineStats =
  bs_WindowCount :: nat
  bs_AvgConnections :: float64
  bs_StdConnections :: float64
  bs_AvgBytesTx :: float64
  bs_StdBytesTx :: float64
  bs_TypicalDests :: "string list"
  bs_TypicalTools :: "string list"

record DeviationReport =
  dr_Score :: float64
  dr_ConnectionScore :: float64
  dr_DestScore :: float64
  dr_ByteScore :: float64
  dr_NovelDests :: "string list"
  dr_Anomalies :: "string list"

record BehavioralProfile =
  bp_SpiffeID :: string
  bp_WindowCount :: nat
  bp_CurrentWindow :: TimeWindow
  bp_Baseline :: BaselineStats
  bp_Deviation :: DeviationReport

record ProfileTracker =
  windows :: "string \<rightharpoonup> TimeWindow list"
  windowSize :: duration

definition newProfileTracker :: "duration \<Rightarrow> ProfileTracker" where
  "newProfileTracker sz = \<lparr>windows = Map.empty, windowSize = sz\<rparr>"

definition NewProfileTracker :: ProfileTracker where
  "NewProfileTracker = newProfileTracker profileWindowSize"

definition windows_of :: "ProfileTracker \<Rightarrow> string \<Rightarrow> TimeWindow list" where
  "windows_of p i = (case windows p i of None \<Rightarrow> [] | Some ws \<Rightarrow> ws)"

section \<open>Recording\<close>

text \<open>\<^verbatim>\<open>m[k]++\<close> on a Go map.\<close>

definition bump :: "'k \<Rightarrow> ('k \<times> int) list \<Rightarrow> ('k \<times> int) list" where
  "bump k al = AList.update k ((case map_of al k of None \<Rightarrow> 0 | Some n \<Rightarrow> n) + 1) al"

definition newWindow :: "duration \<Rightarrow> time \<Rightarrow> TimeWindow" where
  "newWindow sz t = (let windowStart = Truncate t sz in
     \<lparr>tw_Start = windowStart, tw_End = windowStart + sz, tw_Connections = 0, tw_DestSet = [],
      tw_ToolSet = [], tw_BytesTx = 0, tw_BytesRx = 0, tw_DestSetOverflow = 0\<rparr>)"

text \<open>
  \<^verbatim>\<open>currentWindow\<close>: the tracker after it, in which the window it returns is the last
  one of the identity.
\<close>

definition currentWindow ::
  "ProfileTracker \<Rightarrow> string \<Rightarrow> TimeWindow list \<Rightarrow> time \<Rightarrow> TimeWindow list" where
  "currentWindow p spiffeID ws t =
     (if 0 < length ws \<and> \<not> t < tw_Start (last ws) \<and> t < tw_End (last ws) then ws
      else keep_last profileWindowMax (ws @ [newWindow (windowSize p) t]))"

definition recordEvent :: "TimeWindow \<Rightarrow> string \<Rightarrow> string \<Rightarrow> u64 \<Rightarrow> u64 \<Rightarrow> TimeWindow" where
  "recordEvent cur dest tool bytesTx bytesRx =
     (let c1 = cur\<lparr>tw_Connections := tw_Connections cur + 1\<rparr>;
          c2 = (if dest \<noteq> [] then
                  (if dest \<in> fst ` set (tw_DestSet c1) \<or> length (tw_DestSet c1) < profileDestSetMax
                   then c1\<lparr>tw_DestSet := bump dest (tw_DestSet c1)\<rparr>
                   else c1\<lparr>tw_DestSetOverflow := tw_DestSetOverflow c1 + 1\<rparr>)
                else c1);
          c3 = (if tool \<noteq> [] then c2\<lparr>tw_ToolSet := bump tool (tw_ToolSet c2)\<rparr> else c2)
      in c3\<lparr>tw_BytesTx := tw_BytesTx c3 + bytesTx, tw_BytesRx := tw_BytesRx c3 + bytesRx\<rparr>)"

definition Observe ::
  "ProfileTracker \<Rightarrow> string \<Rightarrow> string \<Rightarrow> string \<Rightarrow> u64 \<Rightarrow> u64 \<Rightarrow> time \<Rightarrow> ProfileTracker" where
  "Observe p spiffeID dest tool bytesTx bytesRx w =
     (let ws = windows_of p spiffeID in
      if profileLearnMin \<le> length ws \<and> w < tw_Start (last ws) then p
      else let ws1 = currentWindow p spiffeID ws w
           in p\<lparr>windows := (windows p)(spiffeID \<mapsto>
                 butlast ws1 @ [recordEvent (last ws1) dest tool bytesTx bytesRx])\<rparr>)"

section \<open>Scoring\<close>

definition meanStd :: "float64 list \<Rightarrow> float64 \<times> float64" where
  "meanStd vals =
     (if length vals = 0 then (0, 0)
      else let mean = fdiv (foldl fadd 0 vals) (float_of_int (int (length vals))) in
        if length vals < 2 then (mean, 0)
        else let variance = foldl (\<lambda>v x. fadd v (fmul (fsub x mean) (fsub x mean))) 0 vals
             in (mean, fsqrt (fdiv variance (float_of_int (int (length vals) - 1)))))"

definition zScore :: "float64 \<Rightarrow> float64 \<Rightarrow> float64 \<Rightarrow> float64" where
  "zScore val mean std =
     (if std = 0 then (if val = mean then 0 else 3)
      else let z = fdiv (fsub val mean) std in if z < 0 then - z else z)"

definition clamp01 :: "float64 \<Rightarrow> float64" where
  "clamp01 v = (if v < 0 then 0 else if v > 1 then 1 else v)"

text \<open>For each key, the number of the given sets that contain it.\<close>

definition key_freq :: "(string \<times> int) list list \<Rightarrow> (string \<times> int) list" where
  "key_freq sets = foldl (\<lambda>fr st. foldl (\<lambda>f k. bump k f) fr (map fst st)) [] sets"

definition computeBaseline :: "TimeWindow list \<Rightarrow> BaselineStats" where
  "computeBaseline ws =
     (if length ws = 0 then
        \<lparr>bs_WindowCount = 0, bs_AvgConnections = 0, bs_StdConnections = 0, bs_AvgBytesTx = 0,
         bs_StdBytesTx = 0, bs_TypicalDests = [], bs_TypicalTools = []\<rparr>
      else
        let conn = meanStd (map (\<lambda>w. float_of_int (tw_Connections w)) ws);
            tx = meanStd (map (\<lambda>w. float_of_int (uint (tw_BytesTx w))) ws);
            threshold = int (length ws div 2);
            typical = (\<lambda>fr. map fst (filter (\<lambda>(k, count). count > threshold) fr))
        in \<lparr>bs_WindowCount = length ws, bs_AvgConnections = fst conn, bs_StdConnections = snd conn,
            bs_AvgBytesTx = fst tx, bs_StdBytesTx = snd tx,
            bs_TypicalDests = typical (key_freq (map tw_DestSet ws)),
            bs_TypicalTools = typical (key_freq (map tw_ToolSet ws))\<rparr>)"

definition anomaly_conn :: string where
  "anomaly_conn = ''connection_rate_spike: current rate significantly above baseline''"
definition anomaly_dest :: string where
  "anomaly_dest = ''novel_destinations: connecting to destinations not in baseline''"
definition anomaly_byte :: string where
  "anomaly_byte = ''byte_rate_spike: data volume significantly above baseline''"
definition anomaly_overflow :: string where
  "anomaly_overflow = ''dest_set_overflow: destination count exceeded cap ''
     @ [CHR 0xE2, CHR 0x80, CHR 0x94] @ '' possible scanning''"

definition computeDeviation :: "TimeWindow \<Rightarrow> BaselineStats \<Rightarrow> DeviationReport" where
  "computeDeviation cur bs =
     (if bs_WindowCount bs < profileLearnMin then
        \<lparr>dr_Score = 0, dr_ConnectionScore = 0, dr_DestScore = 0, dr_ByteScore = 0,
         dr_NovelDests = [], dr_Anomalies = []\<rparr>
      else
        let connScore = clamp01 (fdiv (zScore (float_of_int (tw_Connections cur))
                           (bs_AvgConnections bs) (bs_StdConnections bs)) 3);
            novelDests = filter (\<lambda>d. d \<notin> set (bs_TypicalDests bs)) (map fst (tw_DestSet cur));
            destScore = (if 0 < length (tw_DestSet cur)
                         then clamp01 (fdiv (float_of_int (int (length novelDests)))
                                            (float_of_int (int (length (tw_DestSet cur)))))
                         else 0);
            byteScore = clamp01 (fdiv (zScore (float_of_int (uint (tw_BytesTx cur)))
                           (bs_AvgBytesTx bs) (bs_StdBytesTx bs)) 3)
        in \<lparr>dr_Score = fadd (fadd (fmul weightConnectionRate connScore)
                                   (fmul weightDestNovelty destScore))
                             (fmul weightByteRate byteScore),
            dr_ConnectionScore = connScore, dr_DestScore = destScore, dr_ByteScore = byteScore,
            dr_NovelDests = novelDests,
            dr_Anomalies = (if connScore > 1 / 2 then [anomaly_conn] else [])
              @ (if 0 < length novelDests then [anomaly_dest] else [])
              @ (if byteScore > 1 / 2 then [anomaly_byte] else [])
              @ (if tw_DestSetOverflow cur > 0 then [anomaly_overflow] else [])\<rparr>)"

text \<open>\<^verbatim>\<open>copyWindow\<close> copies every field into a fresh window; on values it is the identity.\<close>

definition copyWindow :: "TimeWindow \<Rightarrow> TimeWindow" where
  "copyWindow w = \<lparr>tw_Start = tw_Start w, tw_End = tw_End w, tw_Connections = tw_Connections w,
     tw_DestSet = foldl (\<lambda>m (k, v). AList.update k v m) [] (tw_DestSet w),
     tw_ToolSet = foldl (\<lambda>m (k, v). AList.update k v m) [] (tw_ToolSet w),
     tw_BytesTx = tw_BytesTx w, tw_BytesRx = tw_BytesRx w,
     tw_DestSetOverflow = tw_DestSetOverflow w\<rparr>"

definition ProfileOf :: "ProfileTracker \<Rightarrow> string \<Rightarrow> BehavioralProfile option" where
  "ProfileOf p spiffeID =
     (let ws = windows_of p spiffeID in
      if length ws = 0 then None
      else let cur = last ws; historical = butlast ws; baseline = computeBaseline historical
           in Some \<lparr>bp_SpiffeID = spiffeID, bp_WindowCount = length ws,
                bp_CurrentWindow = copyWindow cur, bp_Baseline = baseline,
                bp_Deviation = computeDeviation cur baseline\<rparr>)"

section \<open>Lemmas on counting maps\<close>

lemma distinct_bump [simp]: "distinct (map fst al) \<Longrightarrow> distinct (map fst (bump k al))"
  by (simp add: bump_def distinct_update)

lemma map_of_bump: "map_of (bump k al) k' =
  (if k' = k then Some ((case map_of al k of None \<Rightarrow> 0 | Some n \<Rightarrow> n) + 1) else map_of al k')"
  by (simp add: bump_def update_conv)

lemma keys_bump [simp]: "fst ` set (bump k al) = insert k (fst ` set al)"
  by (simp add: bump_def dom_update)

lemma length_bump: "length (bump k al) = (if k \<in> fst ` set al then length al else Suc (length al))"
  by (simp add: bump_def length_update)

lemma sum_update:
  "distinct (map fst al) \<Longrightarrow>
   sum_list (map snd (AList.update k v al)) =
     sum_list (map snd al) - (case map_of al k of None \<Rightarrow> 0 | Some n \<Rightarrow> n) + (v :: int)"
proof (induction al)
  case (Cons p al)
  then show ?case
    by (cases p) (auto simp: map_of_eq_None_iff split: option.splits)
qed simp

lemma sum_bump: "distinct (map fst al) \<Longrightarrow> sum_list (map snd (bump k al)) = sum_list (map snd al) + 1"
  by (simp add: bump_def sum_update split: option.splits)

definition pos_counts :: "('k \<times> int) list \<Rightarrow> bool" where
  "pos_counts al \<longleftrightarrow> distinct (map fst al) \<and> (\<forall>p \<in> set al. 0 < snd p)"

lemma pos_counts_Nil [simp]: "pos_counts []"
  by (simp add: pos_counts_def)

lemma sum_bump_pos: "pos_counts al \<Longrightarrow> sum_list (map snd (bump k al)) = sum_list (map snd al) + 1"
  by (simp add: pos_counts_def sum_bump)

lemma pos_counts_bump: "pos_counts al \<Longrightarrow> pos_counts (bump k al)"
proof -
  assume a: "pos_counts al"
  have "0 < (case map_of al k of None \<Rightarrow> 0 | Some n \<Rightarrow> n) + (1 :: int)"
    using a by (auto simp: pos_counts_def split: option.splits dest: map_of_SomeD)
  with a show ?thesis
    by (auto simp: pos_counts_def bump_def set_update_distinct distinct_update)
qed

section \<open>The invariant of one identity\<close>

definition win_ok :: "duration \<Rightarrow> TimeWindow \<Rightarrow> bool" where
  "win_ok sz w \<longleftrightarrow> pos_counts (tw_DestSet w) \<and> pos_counts (tw_ToolSet w)
     \<and> length (tw_DestSet w) \<le> profileDestSetMax \<and> 0 \<le> tw_DestSetOverflow w
     \<and> sum_list (map snd (tw_DestSet w)) + tw_DestSetOverflow w \<le> tw_Connections w
     \<and> sum_list (map snd (tw_ToolSet w)) \<le> tw_Connections w
     \<and> tw_End w = tw_Start w + sz \<and> sz dvd tw_Start w"

definition prof_good :: "TimeWindow list \<times> duration \<Rightarrow> bool" where
  "prof_good v \<longleftrightarrow> 0 < snd v \<and> length (fst v) \<le> profileWindowMax \<and> (\<forall>w \<in> set (fst v). win_ok (snd v) w)"

definition prof_view :: "ProfileTracker \<Rightarrow> string \<Rightarrow> TimeWindow list \<times> duration" where
  "prof_view p i = (windows_of p i, windowSize p)"

type_synonym observation = "string \<times> string \<times> u64 \<times> u64 \<times> time"

definition prof_observe :: "ProfileTracker \<Rightarrow> string \<Rightarrow> observation \<Rightarrow> ProfileTracker" where
  "prof_observe p i x = (case x of (dest, tool, tx, rx, w) \<Rightarrow> Observe p i dest tool tx rx w)"

lemma newWindow_ok: "0 < sz \<Longrightarrow> win_ok sz (newWindow sz t)"
  by (simp add: win_ok_def newWindow_def Let_def Truncate_dvd)

lemma recordEvent_ok: "win_ok sz w \<Longrightarrow> win_ok sz (recordEvent w dest tool tx rx)"
  by (auto simp: win_ok_def recordEvent_def Let_def pos_counts_bump length_bump sum_bump_pos)

lemma recordEvent_fields [simp]:
  "tw_Start (recordEvent w d tool tx rx) = tw_Start w"
  "tw_End (recordEvent w d tool tx rx) = tw_End w"
  "tw_Connections (recordEvent w d tool tx rx) = tw_Connections w + 1"
  "tw_BytesTx (recordEvent w d tool tx rx) = tw_BytesTx w + tx"
  "tw_BytesRx (recordEvent w d tool tx rx) = tw_BytesRx w + rx"
  by (simp_all add: recordEvent_def Let_def)

lemma currentWindow_nonempty [simp]: "currentWindow p i ws t \<noteq> []"
  by (auto simp: currentWindow_def profileWindowMax_def)

lemma currentWindow_good:
  assumes "prof_good (ws, windowSize p)"
  shows "prof_good (currentWindow p i ws t, windowSize p)"
  using assms set_keep_last [of profileWindowMax "ws @ [newWindow (windowSize p) t]"] newWindow_ok
  by (auto simp: prof_good_def currentWindow_def)

lemma windows_of_upd [simp]:
  "windows_of (p\<lparr>windows := (windows p)(i \<mapsto> ws)\<rparr>) j = (if j = i then ws else windows_of p j)"
  by (simp add: windows_of_def)

lemma windowSize_Observe [simp]: "windowSize (Observe p i d tool tx rx w) = windowSize p"
  by (simp add: Observe_def Let_def)

interpretation pt: per_identity prof_observe prof_view prof_good
proof unfold_locales
  fix i j t x assume "(j :: string) \<noteq> i"
  then show "prof_view (prof_observe t i x) j = prof_view t j"
    by (cases x) (simp add: prof_observe_def prof_view_def Observe_def Let_def)
next
  fix t t' i x assume "prof_view t i = prof_view t' i"
  then show "prof_view (prof_observe t i x) i = prof_view (prof_observe t' i x) i"
    by (cases x) (simp add: prof_observe_def prof_view_def Observe_def Let_def currentWindow_def)
next
  fix t i and x :: observation assume g: "prof_good (prof_view t i)"
  obtain d tool tx rx w where x: "x = (d, tool, tx, rx, w)" by (cases x)
  let ?ws = "currentWindow t i (windows_of t i) w"
  have "prof_good (?ws, windowSize t)" using g by (simp add: prof_view_def currentWindow_good)
  then have "prof_good (butlast ?ws @ [recordEvent (last ?ws) d tool tx rx], windowSize t)"
    by (auto simp: prof_good_def recordEvent_ok dest: in_set_butlastD)
  then show "prof_good (prof_view (prof_observe t i x) i)"
    using g by (auto simp: x prof_observe_def prof_view_def Observe_def Let_def)
qed

lemma newProfileTracker_good: "0 < sz \<Longrightarrow> prof_good (prof_view (newProfileTracker sz) i)"
  by (simp add: prof_good_def prof_view_def newProfileTracker_def windows_of_def)

section \<open>Properties of recording\<close>

text \<open>
  Whatever events are observed, every identity has at most
  \<^verbatim>\<open>profileWindowMax\<close> windows; in every window at most \<^verbatim>\<open>profileDestSetMax\<close>
  destinations are kept (RT-009), the counted destinations plus the overflow
  counter never exceed the connections, and the window covers exactly one aligned
  interval of the tracker's window size.
\<close>

lemma profile_windows_bounded:
  assumes "0 < sz"
    and "w \<in> set (windows_of (foldl (\<lambda>t (i, x). prof_observe t i x) (newProfileTracker sz) os) j)"
  shows "length (windows_of (foldl (\<lambda>t (i, x). prof_observe t i x) (newProfileTracker sz) os) j)
           \<le> profileWindowMax
    \<and> length (tw_DestSet w) \<le> profileDestSetMax
    \<and> sum_list (map snd (tw_DestSet w)) + tw_DestSetOverflow w \<le> tw_Connections w
    \<and> tw_End w = tw_Start w + sz \<and> sz dvd tw_Start w"
proof -
  let ?p = "foldl (\<lambda>t (i, x). prof_observe t i x) (newProfileTracker sz) os"
  have sz: "windowSize ?p = sz"
  proof (induction os rule: rev_induct)
    case (snoc x xs)
    then show ?case by (cases x) (auto simp: prof_observe_def split: prod.splits)
  qed (simp add: newProfileTracker_def)
  have "prof_good (prof_view ?p j)"
    using pt.run_good [of "newProfileTracker sz" os j] newProfileTracker_good assms(1) by blast
  with assms(2) sz show ?thesis by (auto simp: prof_good_def prof_view_def win_ok_def)
qed

text \<open>
  Property C36: baseline immutability (RT-008). Once \<^verbatim>\<open>profileLearnMin\<close> windows exist, an
  event dated before the current window changes nothing at all, and any other
  event leaves every earlier window as it was: it either counts in the current
  window or opens a later one, dropping at most the oldest window. An attacker who
  injects backdated events cannot rewrite the baseline.
\<close>

theorem profile_baseline_immutable:
  assumes "ws = windows_of p i" and "profileLearnMin \<le> length ws"
    and "0 < windowSize p" and "tw_End (last ws) = tw_Start (last ws) + windowSize p"
    and "windowSize p dvd tw_Start (last ws)"
    and "ws' = windows_of (Observe p i dest tool tx rx t) i"
  shows "(t < tw_Start (last ws) \<longrightarrow> Observe p i dest tool tx rx t = p)
    \<and> (tw_Start (last ws) \<le> t \<and> t < tw_End (last ws) \<longrightarrow>
         butlast ws' = butlast ws \<and> last ws' = recordEvent (last ws) dest tool tx rx)
    \<and> (tw_End (last ws) \<le> t \<longrightarrow>
         (\<exists>old. ws = old @ butlast ws' \<and> length old \<le> Suc (length ws) - profileWindowMax)
         \<and> tw_End (last ws) \<le> tw_Start (last ws'))"
proof -
  have ne: "ws \<noteq> []" using assms(2) by (auto simp: profileLearnMin_def)
  show ?thesis
  proof (intro conjI impI)
    assume "t < tw_Start (last ws)"
    then show "Observe p i dest tool tx rx t = p" using assms(1,2) by (simp add: Observe_def Let_def)
  next
    assume a: "tw_Start (last ws) \<le> t \<and> t < tw_End (last ws)"
    then have "currentWindow p i ws t = ws" using ne by (simp add: currentWindow_def)
    then have "ws' = butlast ws @ [recordEvent (last ws) dest tool tx rx]"
      using assms a by (simp add: Observe_def Let_def)
    then show "butlast ws' = butlast ws" "last ws' = recordEvent (last ws) dest tool tx rx" by simp_all
  next
    assume later: "tw_End (last ws) \<le> t"
    let ?n = "newWindow (windowSize p) t"
    have c: "currentWindow p i ws t = keep_last profileWindowMax (ws @ [?n])"
      using later by (simp add: currentWindow_def)
    then have e: "currentWindow p i ws t = drop (Suc (length ws) - profileWindowMax) ws @ [?n]"
      by (auto simp: keep_last_def profileWindowMax_def)
    have st: "tw_Start (last ws) \<le> t" using later assms(3,4) by simp
    then have w: "ws' = drop (Suc (length ws) - profileWindowMax) ws @ [recordEvent ?n dest tool tx rx]"
      using assms e by (simp add: Observe_def Let_def)
    then show "\<exists>old. ws = old @ butlast ws' \<and> length old \<le> Suc (length ws) - profileWindowMax"
      by (intro exI [of _ "take (Suc (length ws) - profileWindowMax) ws"]) simp
    have "windowSize p dvd tw_End (last ws)" using assms(4,5) by simp
    then have "Truncate (tw_End (last ws)) (windowSize p) = tw_End (last ws)"
      by (simp add: Truncate_def)
    with Truncate_mono [OF assms(3) later] show "tw_End (last ws) \<le> tw_Start (last ws')"
      using w by (simp add: newWindow_def Let_def)
  qed
qed

definition win_example :: "time \<Rightarrow> TimeWindow" where
  "win_example s = \<lparr>tw_Start = s, tw_End = s + 10, tw_Connections = 1, tw_DestSet = [(''d'', 1)],
     tw_ToolSet = [], tw_BytesTx = 5, tw_BytesRx = 6, tw_DestSetOverflow = 0\<rparr>"

theorem profile_baseline_immutable_witness:
  "Observe \<lparr>windows = [''id'' \<mapsto> [win_example 0, win_example 10, win_example 20]], windowSize = 10\<rparr>
     ''id'' ''evil'' [] 1 1 5
   = \<lparr>windows = [''id'' \<mapsto> [win_example 0, win_example 10, win_example 20]], windowSize = 10\<rparr>"
  using profile_baseline_immutable [of "[win_example 0, win_example 10, win_example 20]"
      "\<lparr>windows = [''id'' \<mapsto> [win_example 0, win_example 10, win_example 20]], windowSize = 10\<rparr>" "''id''"
      _ "''evil''" "[]" 1 1 5]
  by (simp add: windows_of_def win_example_def profileLearnMin_def)

section \<open>Properties of scoring\<close>

lemma clamp01_range [simp]: "0 \<le> clamp01 v" "clamp01 v \<le> 1"
  by (auto simp: clamp01_def)

lemma fadd_mono: "a \<le> a' \<Longrightarrow> b \<le> b' \<Longrightarrow> fadd a b \<le> fadd a' b'"
  by (simp add: fadd_def f64.mono add_mono)

lemma fadd_nonneg: "0 \<le> a \<Longrightarrow> 0 \<le> b \<Longrightarrow> 0 \<le> fadd a b"
  by (simp add: fadd_def f64.nonneg)

lemma weight_exact: "rnd64 weightConnectionRate = weightConnectionRate"
  "rnd64 weightDestNovelty = weightDestNovelty" "rnd64 weightByteRate = weightByteRate"
  by code_simp+

lemma weight_pos: "0 \<le> weightConnectionRate" "0 \<le> weightDestNovelty" "0 \<le> weightByteRate"
  by code_simp+

lemma weight_sum: "fadd (fadd weightConnectionRate weightDestNovelty) weightByteRate = 1"
  by code_simp

lemmas weighted = f64.weight_le [OF weight_pos(1) weight_exact(1)]
  f64.weight_le [OF weight_pos(2) weight_exact(2)] f64.weight_le [OF weight_pos(3) weight_exact(3)]

text \<open>
  The composite deviation score and each of its three components are
  numbers between 0 and 1, for every window and every baseline, with the
  \<^verbatim>\<open>float64\<close> rounding of the weights, products and sums taken into account.
\<close>

lemma deviation_score_range:
  "0 \<le> dr_Score (computeDeviation cur bs) \<and> dr_Score (computeDeviation cur bs) \<le> 1
   \<and> 0 \<le> dr_ConnectionScore (computeDeviation cur bs) \<and> dr_ConnectionScore (computeDeviation cur bs) \<le> 1
   \<and> 0 \<le> dr_DestScore (computeDeviation cur bs) \<and> dr_DestScore (computeDeviation cur bs) \<le> 1
   \<and> 0 \<le> dr_ByteScore (computeDeviation cur bs) \<and> dr_ByteScore (computeDeviation cur bs) \<le> 1"
proof -
  have "0 \<le> fadd (fadd (fmul weightConnectionRate c) (fmul weightDestNovelty d)) (fmul weightByteRate b)
     \<and> fadd (fadd (fmul weightConnectionRate c) (fmul weightDestNovelty d)) (fmul weightByteRate b) \<le> 1"
    if "0 \<le> c" "c \<le> 1" "0 \<le> d" "d \<le> 1" "0 \<le> b" "b \<le> 1" for c d b
    using weighted(1) [OF that(1,2)] weighted(2) [OF that(3,4)] weighted(3) [OF that(5,6)]
    unfolding fmul_def by (subst weight_sum [symmetric]) (simp add: fadd_mono fadd_nonneg)
  then show ?thesis by (simp add: computeDeviation_def Let_def)
qed

definition lookup0 :: "('k \<times> int) list \<Rightarrow> 'k \<Rightarrow> int" where
  "lookup0 al k = (case map_of al k of None \<Rightarrow> 0 | Some n \<Rightarrow> n)"

lemma lookup0_bump: "lookup0 (bump k al) k' = lookup0 al k' + (if k' = k then 1 else 0)"
  by (simp add: lookup0_def map_of_bump)

lemma bump_keys:
  "pos_counts fr \<Longrightarrow> distinct ks \<Longrightarrow> pos_counts (foldl (\<lambda>f k. bump k f) fr ks)
   \<and> lookup0 (foldl (\<lambda>f k. bump k f) fr ks) k = lookup0 fr k + (if k \<in> set ks then 1 else 0)"
proof (induction ks arbitrary: fr)
  case (Cons a ks)
  then have "pos_counts (bump a fr)" by (simp add: pos_counts_bump)
  with Cons show ?case by (auto simp: lookup0_bump)
qed simp

definition occurrences :: "'k \<Rightarrow> ('k \<times> int) list list \<Rightarrow> nat" where
  "occurrences k sets = length (filter (\<lambda>s. k \<in> fst ` set s) sets)"

lemma key_freq_gen:
  "pos_counts fr \<Longrightarrow> \<forall>s \<in> set sets. distinct (map fst s) \<Longrightarrow>
   pos_counts (foldl (\<lambda>fr st. foldl (\<lambda>f k. bump k f) fr (map fst st)) fr sets)
   \<and> lookup0 (foldl (\<lambda>fr st. foldl (\<lambda>f k. bump k f) fr (map fst st)) fr sets) k
       = lookup0 fr k + int (occurrences k sets)"
proof (induction sets arbitrary: fr)
  case (Cons s sets)
  let ?f = "foldl (\<lambda>f k. bump k f) fr (map fst s)"
  have "pos_counts ?f" "lookup0 ?f k = lookup0 fr k + (if k \<in> fst ` set s then 1 else 0)"
    using bump_keys [of fr "map fst s"] Cons.prems by auto
  with Cons.IH [of ?f] Cons.prems(2) show ?case by (auto simp: occurrences_def)
qed (simp add: occurrences_def)

lemma key_freq_count:
  assumes "\<forall>s \<in> set sets. distinct (map fst s)"
  shows "pos_counts (key_freq sets)" "lookup0 (key_freq sets) k = int (occurrences k sets)"
  using key_freq_gen [of "[]" sets k] assms by (auto simp: key_freq_def lookup0_def)

lemma typical_iff:
  assumes "\<forall>s \<in> set sets. distinct (map fst s)"
  shows "k \<in> set (map fst (filter (\<lambda>(k, count). count > int (n div 2)) (key_freq sets)))
           \<longleftrightarrow> n < 2 * occurrences k sets"
proof -
  have "k \<in> set (map fst (filter (\<lambda>(k, count). count > int (n div 2)) (key_freq sets)))
      \<longleftrightarrow> (\<exists>c. map_of (key_freq sets) k = Some c \<and> int (n div 2) < c)"
    using key_freq_count(1) [OF assms] unfolding pos_counts_def by (intro keys_filter) blast
  also have "\<dots> \<longleftrightarrow> int (n div 2) < lookup0 (key_freq sets) k"
    by (auto simp: lookup0_def split: option.splits)
  also have "\<dots> \<longleftrightarrow> n < 2 * occurrences k sets"
    unfolding key_freq_count(2) [OF assms] by linarith
  finally show ?thesis .
qed

text \<open>
  The typical destinations and tools of a baseline are exactly those seen in
  a strict majority of the windows, and the novel destinations of a report are
  exactly the destinations of the current window that are not typical (once the
  baseline has \<^verbatim>\<open>profileLearnMin\<close> windows).
\<close>

lemma baseline_typical_majority:
  assumes "ws \<noteq> []"
    and "\<forall>w \<in> set ws. distinct (map fst (tw_DestSet w)) \<and> distinct (map fst (tw_ToolSet w))"
  shows "(d \<in> set (bs_TypicalDests (computeBaseline ws)))
           = (length ws < 2 * length (filter (\<lambda>w. d \<in> fst ` set (tw_DestSet w)) ws))
    \<and> (d \<in> set (bs_TypicalTools (computeBaseline ws)))
           = (length ws < 2 * length (filter (\<lambda>w. d \<in> fst ` set (tw_ToolSet w)) ws))
    \<and> (profileLearnMin \<le> length ws \<longrightarrow>
         (d \<in> set (dr_NovelDests (computeDeviation cur (computeBaseline ws))))
           = (d \<in> fst ` set (tw_DestSet cur)
              \<and> 2 * length (filter (\<lambda>w. d \<in> fst ` set (tw_DestSet w)) ws) \<le> length ws))"
proof -
  have D: "d \<in> set (bs_TypicalDests (computeBaseline ws))
      \<longleftrightarrow> length ws < 2 * length (filter (\<lambda>w. d \<in> fst ` set (tw_DestSet w)) ws)"
    and T: "d \<in> set (bs_TypicalTools (computeBaseline ws))
      \<longleftrightarrow> length ws < 2 * length (filter (\<lambda>w. d \<in> fst ` set (tw_ToolSet w)) ws)"
    using typical_iff [of "map tw_DestSet ws" d "length ws"] typical_iff [of "map tw_ToolSet ws" d "length ws"] assms
    by (simp_all add: computeBaseline_def Let_def occurrences_def filter_map comp_def)
  have "bs_WindowCount (computeBaseline ws) = length ws"
    using assms(1) by (simp add: computeBaseline_def Let_def)
  then have "profileLearnMin \<le> length ws \<Longrightarrow>
      (d \<in> set (dr_NovelDests (computeDeviation cur (computeBaseline ws))))
        = (d \<in> fst ` set (tw_DestSet cur) \<and> d \<notin> set (bs_TypicalDests (computeBaseline ws)))"
    by (auto simp: computeDeviation_def Let_def)
  with D T show ?thesis by (auto simp: not_less)
qed

lemma foldl_fadd_const:
  assumes "0 \<le> c" "0 \<le> a" "a + int n * c \<le> 2 ^ 53"
  shows "foldl fadd (of_int a) (replicate n (of_int c)) = of_int (a + int n * c)"
  using assms
proof (induction n arbitrary: a)
  case (Suc n)
  have le: "a + c + int n * c \<le> 2 ^ 53" using Suc.prems by (simp add: algebra_simps)
  moreover have "0 \<le> int n * c" using Suc.prems by simp
  ultimately have "a + c \<le> 2 ^ 53" by linarith
  then have "fadd (of_int a) (of_int c) = of_int (a + c)"
    unfolding fadd_def of_int_add [symmetric] using Suc.prems by (intro f64.exact_int) simp
  with Suc.IH [of "a + c"] le Suc.prems show ?case by (simp add: algebra_simps)
qed simp

lemma zero_simps [simp]: "clamp01 0 = 0" "fdiv 0 x = 0" "fmul x 0 = 0" "fadd 0 0 = 0" "fsqrt 0 = 0"
  by (auto simp: clamp01_def fdiv_def fmul_def fadd_def fsqrt_def)

lemma foldl_zero: "foldl (\<lambda>v x. fadd v (fmul (fsub x c) (fsub x c))) 0 (replicate n c) = 0"
  by (induction n) (auto simp: fsub_def fmul_def fadd_def)

text \<open>A constant history has its value as mean and no spread.\<close>

lemma meanStd_const:
  assumes "0 \<le> c" "0 < n" "int n * c \<le> 2 ^ 53" "n \<le> 2 ^ 53"
  shows "meanStd (replicate n (of_int c)) = (of_int c, 0)"
proof -
  have "int n \<le> 2 ^ 53" using assms(4) by (metis of_nat_le_iff of_nat_numeral of_nat_power)
  then have n: "float_of_int (int n) = of_int (int n)" by (intro float_of_int_exact) simp
  have "c \<le> int n * c" using assms(1,2) by (simp add: mult_le_cancel_right1)
  then have c: "rnd64 (of_int c) = of_int c" using assms(1,3) by (intro f64.exact_int) simp
  have "foldl fadd 0 (replicate n (of_int c)) = of_int (int n * c)"
    using foldl_fadd_const [of c 0 n] assms(1,3) by simp
  then have m: "fdiv (foldl fadd 0 (replicate n (of_int c))) (float_of_int (int n)) = of_int c"
    using assms(2) c by (simp add: fdiv_def n)
  show ?thesis
    using assms(2) by (simp add: meanStd_def m foldl_zero Let_def)
qed

text \<open>
  Baselines of a workload whose windows all show the same number of connections
  and of bytes.
\<close>

definition steady :: "TimeWindow list \<Rightarrow> int \<Rightarrow> u64 \<Rightarrow> bool" where
  "steady ws c b \<longleftrightarrow> profileLearnMin \<le> length ws \<and> length ws \<le> profileWindowMax
     \<and> (\<forall>w \<in> set ws. tw_Connections w = c \<and> tw_BytesTx w = b)
     \<and> 0 \<le> c \<and> c \<le> 2 ^ 49 \<and> uint b \<le> 2 ^ 49"

lemma steady_baseline:
  assumes "steady ws c b"
  shows "bs_WindowCount (computeBaseline ws) = length ws"
    and "bs_AvgConnections (computeBaseline ws) = of_int c" "bs_StdConnections (computeBaseline ws) = 0"
    and "bs_AvgBytesTx (computeBaseline ws) = of_int (uint b)" "bs_StdBytesTx (computeBaseline ws) = 0"
proof -
  let ?n = "length ws"
  have n: "0 < ?n" "?n \<le> 12" using assms by (auto simp: steady_def profile_consts)
  have bd: "int ?n * x \<le> 2 ^ 53" if "0 \<le> x" "x \<le> 2 ^ 49" for x :: int
  proof -
    have "int ?n * x \<le> 12 * x" using n(2) that(1) by (intro mult_right_mono) auto
    with that(2) show ?thesis by simp
  qed
  have fx: "float_of_int x = of_int x" if "0 \<le> x" "x \<le> 2 ^ 49" for x
    using that by (intro float_of_int_exact) simp
  have "map (\<lambda>w. float_of_int (tw_Connections w)) ws = replicate ?n (of_int c)"
    "map (\<lambda>w. float_of_int (uint (tw_BytesTx w))) ws = replicate ?n (of_int (uint b))"
    using assms fx [of c] fx [of "uint b"] by (auto simp: steady_def intro!: replicate_eqI)
  then show "bs_WindowCount (computeBaseline ws) = length ws"
    "bs_AvgConnections (computeBaseline ws) = of_int c" "bs_StdConnections (computeBaseline ws) = 0"
    "bs_AvgBytesTx (computeBaseline ws) = of_int (uint b)" "bs_StdBytesTx (computeBaseline ws) = 0"
    using meanStd_const [of c ?n] meanStd_const [of "uint b" ?n] n bd [of c] bd [of "uint b"] assms
    by (auto simp: computeBaseline_def Let_def steady_def)
qed

text \<open>
  No false alarm. A workload whose baseline windows all have the same
  number of connections, the same number of bytes and a strict majority for every
  current destination, and whose current window repeats them, has deviation score
  0 and no anomaly.
\<close>

lemma steady_workload_no_alarm:
  assumes "steady ws c b"
    and "tw_Connections cur = c" and "tw_BytesTx cur = b" and "tw_DestSetOverflow cur = 0"
    and "set (map fst (tw_DestSet cur)) \<subseteq> set (bs_TypicalDests (computeBaseline ws))"
  shows "dr_Score (computeDeviation cur (computeBaseline ws)) = 0
    \<and> dr_Anomalies (computeDeviation cur (computeBaseline ws)) = []"
proof -
  have "filter (\<lambda>d. d \<notin> set (bs_TypicalDests (computeBaseline ws))) (map fst (tw_DestSet cur)) = []"
    using assms(5) by (auto simp: filter_empty_conv)
  moreover have "float_of_int c = of_int c"
    using assms(1) by (intro float_of_int_exact) (simp add: steady_def)
  moreover have "float_of_int (uint b) = of_int (uint b)"
    using assms(1) by (intro float_of_int_exact) (simp add: steady_def)
  moreover have "float_of_int 0 = 0" by (simp add: float_of_int_def)
  ultimately show ?thesis
    using assms steady_baseline [OF assms(1)]
    by (simp add: computeDeviation_def Let_def zScore_def steady_def)
qed

text \<open>
  A spike is flagged. Against a steady baseline, any change in the number of
  connections gives the maximal connection score, raises the
  \<^verbatim>\<open>connection_rate_spike\<close> flag and makes the composite score at least the weight of
  the connection rate.
\<close>

lemma connection_spike_flagged:
  assumes "steady ws c b" and "tw_Connections cur \<noteq> c"
    and "0 \<le> tw_Connections cur" and "tw_Connections cur \<le> 2 ^ 53"
  shows "dr_ConnectionScore (computeDeviation cur (computeBaseline ws)) = 1
    \<and> anomaly_conn \<in> set (dr_Anomalies (computeDeviation cur (computeBaseline ws)))
    \<and> weightConnectionRate \<le> dr_Score (computeDeviation cur (computeBaseline ws))"
proof -
  let ?r = "computeDeviation cur (computeBaseline ws)"
  have "float_of_int (tw_Connections cur) = of_int (tw_Connections cur)"
    using assms(3,4) by (intro float_of_int_exact) simp
  then have "zScore (float_of_int (tw_Connections cur)) (of_int c) 0 = 3"
    using assms(2) by (simp add: zScore_def)
  moreover have "clamp01 (fdiv 3 3) = 1" by (simp add: fdiv_def clamp01_def)
  ultimately have c1: "dr_ConnectionScore ?r = 1"
    using assms(1) steady_baseline [OF assms(1)]
    by (simp add: computeDeviation_def Let_def steady_def)
  have learned: "\<not> bs_WindowCount (computeBaseline ws) < profileLearnMin"
    using assms(1) steady_baseline(1) [OF assms(1)] by (simp add: steady_def)
  have sc: "dr_Score ?r = fadd (fadd (fmul weightConnectionRate (dr_ConnectionScore ?r))
      (fmul weightDestNovelty (dr_DestScore ?r))) (fmul weightByteRate (dr_ByteScore ?r))"
    and an: "anomaly_conn \<in> set (dr_Anomalies ?r)"
    using learned c1 by (simp_all add: computeDeviation_def Let_def)
  have d: "0 \<le> dr_DestScore ?r" "dr_DestScore ?r \<le> 1" "0 \<le> dr_ByteScore ?r" "dr_ByteScore ?r \<le> 1"
    by (auto simp: computeDeviation_def Let_def)
  have "weightConnectionRate = fadd (fadd weightConnectionRate 0) 0"
    by (simp add: fadd_def weight_exact)
  also have "\<dots> \<le> dr_Score ?r"
    unfolding sc c1 fmul_def
    using weighted(2) [OF d(1,2)] weighted(3) [OF d(3,4)]
    by (intro fadd_mono) (auto simp: weight_exact)
  finally show ?thesis using c1 an by simp
qed

end
