(* ===== verification/Session_Map.thy ===== *)
theory Session_Map
  imports Reflector_Event Rotation Profile "HOL-Library.Multiset"
begin

text \<open>
  The session map of the sidecar: \<^verbatim>\<open>internal/session/map.go\<close>. \<open>HandleEvent\<close> is the
  whole event handler (one definition per case of its \<^verbatim>\<open>switch\<close>), with the rotation
  tracker and the profile tracker as parts of the state; \<open>Sweep\<close>, \<open>Lookup\<close>,
  \<open>QueryAll\<close> and \<open>GetStats\<close> are the other operations. Calls are one at a time
  here; the theory \<open>Session_Concurrent\<close> interleaves the stretches between the lock
  operations of \<^verbatim>\<open>HandleEvent\<close>.

  The table is an association list with distinct keys. Its order is the iteration
  order of the Go map; the step relation \<open>map_step\<close> lets it change at any time.
\<close>

section \<open>Data\<close>

record Entry =
  en_NodeID :: string
  en_SourceAddr :: string
  en_DestAddr :: string
  en_Protocol :: string
  en_Identity :: string
  en_IdentityType :: string
  en_MCPTool :: string
  en_PID :: u32
  en_BytesTx :: u64
  en_BytesRx :: u64
  en_FirstSeen :: time
  en_LastSeen :: time
  en_Status :: string
  en_OTELService :: string
  en_OTELSignalType :: string
  en_OTELSpanCount :: u32
  en_BoundarySessionToken :: string
  en_BoundaryTokenType :: string
  en_CertSerial :: string
  en_CertExpiry :: time
  en_CertIssuerFingerprint :: string
  en_PrevCertSerial :: string

definition zero_entry :: Entry where
  "zero_entry = \<lparr>en_NodeID = [], en_SourceAddr = [], en_DestAddr = [], en_Protocol = [],
     en_Identity = [], en_IdentityType = [], en_MCPTool = [], en_PID = 0, en_BytesTx = 0,
     en_BytesRx = 0, en_FirstSeen = zero_time, en_LastSeen = zero_time, en_Status = [],
     en_OTELService = [], en_OTELSignalType = [], en_OTELSpanCount = 0,
     en_BoundarySessionToken = [], en_BoundaryTokenType = [], en_CertSerial = [],
     en_CertExpiry = zero_time, en_CertIssuerFingerprint = [], en_PrevCertSerial = []\<rparr>"

definition connectionKey :: "string \<Rightarrow> string \<Rightarrow> string \<Rightarrow> string \<Rightarrow> string" where
  "connectionKey nodeID srcAddr dstAddr protocol =
     nodeID @ ''|'' @ srcAddr @ ''|'' @ dstAddr @ ''|'' @ protocol"

record SessionMap =
  entries :: "(string \<times> Entry) list"
  staleTTL :: duration
  maxEntries :: int
  rotation :: RotationTracker
  profiles :: ProfileTracker

definition DefaultMaxEntries :: int where "DefaultMaxEntries = 100000"

definition NewMap :: "duration \<Rightarrow> SessionMap" where
  "NewMap ttl = \<lparr>entries = [], staleTTL = ttl, maxEntries = DefaultMaxEntries,
     rotation = NewRotationTracker, profiles = NewProfileTracker\<rparr>"

definition NewMapWithProfileWindow :: "duration \<Rightarrow> duration \<Rightarrow> SessionMap" where
  "NewMapWithProfileWindow ttl profileWindow = \<lparr>entries = [], staleTTL = ttl,
     maxEntries = DefaultMaxEntries, rotation = NewRotationTracker,
     profiles = newProfileTracker profileWindow\<rparr>"

definition GetProfile :: "SessionMap \<Rightarrow> string \<Rightarrow> BehavioralProfile option" where
  "GetProfile m spiffeID = ProfileOf (profiles m) spiffeID"

section \<open>Helpers of the event handler\<close>

definition pickIdentity :: "ReflectorEvent \<Rightarrow> string \<times> string" where
  "pickIdentity ev =
     (if ev_IdentityType ev = OTEL \<and> ev_OtelService ev \<noteq> [] then (ev_OtelService ev, ''otel'')
      else if ev_SourceIdentity ev \<noteq> [] then
        (ev_SourceIdentity ev, (case ev_IdentityType ev of SPIFFE \<Rightarrow> ''spiffe'' | JWT \<Rightarrow> ''jwt''
                                | MCP \<Rightarrow> ''mcp'' | _ \<Rightarrow> ''unknown''))
      else ([], []))"

definition applyOTELFields :: "Entry \<Rightarrow> ReflectorEvent \<Rightarrow> Entry" where
  "applyOTELFields e ev =
     (if ev_IdentityType ev \<noteq> OTEL then e
      else let e1 = (if ev_OtelService ev \<noteq> [] then e\<lparr>en_OTELService := ev_OtelService ev\<rparr> else e);
               e2 = (if ev_OtelSignalType ev \<noteq> []
                     then e1\<lparr>en_OTELSignalType := ev_OtelSignalType ev\<rparr> else e1)
           in if ev_OtelSpanCount ev > 0 then e2\<lparr>en_OTELSpanCount := ev_OtelSpanCount ev\<rparr> else e2)"

fun rotationEventStatus :: "EventType \<Rightarrow> string" where
  "rotationEventStatus CERT_ROTATION_NORMAL = ''rotation_normal''"
| "rotationEventStatus CERT_ROTATION_EARLY = ''rotation_early''"
| "rotationEventStatus CERT_ROTATION_ISSUER = ''rotation_issuer''"
| "rotationEventStatus CERT_ROTATION_DOMAIN = ''rotation_domain''"
| "rotationEventStatus _ = ''rotation_unknown''"

fun rotationClassToEventType :: "RotationClass \<Rightarrow> EventType" where
  "rotationClassToEventType RotationEarly = CERT_ROTATION_EARLY"
| "rotationClassToEventType RotationIssuerChange = CERT_ROTATION_ISSUER"
| "rotationClassToEventType RotationDomainChange = CERT_ROTATION_DOMAIN"
| "rotationClassToEventType _ = CERT_ROTATION_NORMAL"

text \<open>
  The loop over the runes of \<^verbatim>\<open>rest\<close> stops at the first slash, which is a byte of its
  own in every UTF-8 string.
\<close>

definition trustDomainFromSPIFFE :: "string \<Rightarrow> string" where
  "trustDomainFromSPIFFE spiffeID =
     (let pre = ''spiffe://'' in
      if length spiffeID \<le> length pre then spiffeID
      else takeWhile (\<lambda>c. c \<noteq> CHR ''/'') (drop (length pre) spiffeID))"

text \<open>
  The loops of \<^verbatim>\<open>evictOldest\<close>: the best key so far (empty for none) and its time.
\<close>

definition evict_scan ::
  "(Entry \<Rightarrow> bool) \<Rightarrow> string \<times> time \<Rightarrow> (string \<times> Entry) list \<Rightarrow> string \<times> time" where
  "evict_scan P acc es =
     foldl (\<lambda>(evictKey, evictTime) (key, e).
        if P e \<and> (evictKey = [] \<or> en_LastSeen e < evictTime) then (key, en_LastSeen e)
        else (evictKey, evictTime)) acc es"

definition stale_or_closed :: "Entry \<Rightarrow> bool" where
  "stale_or_closed e \<longleftrightarrow> en_Status e = ''stale'' \<or> en_Status e = ''closed''"

definition evictOldest :: "SessionMap \<Rightarrow> SessionMap" where
  "evictOldest m =
     (let (k1, t1) = evict_scan stale_or_closed ([], zero_time) (entries m);
          (k2, t2) = (if k1 = [] then evict_scan (\<lambda>_. True) (k1, t1) (entries m) else (k1, t1))
      in if k2 \<noteq> [] then m\<lparr>entries := AList.delete k2 (entries m)\<rparr> else m)"

definition markStaleFromNode :: "SessionMap \<Rightarrow> string \<Rightarrow> SessionMap" where
  "markStaleFromNode m nodeID =
     m\<lparr>entries := map (\<lambda>(k, e). (k, if en_NodeID e = nodeID \<and> en_Status e = ''active''
                                     then e\<lparr>en_Status := ''stale''\<rparr> else e)) (entries m)\<rparr>"

definition certExpiryTime :: "ReflectorEvent \<Rightarrow> time" where
  "certExpiryTime ev = (case ev_CertExpiry ev of None \<Rightarrow> zero_time | Some t \<Rightarrow> t)"

definition eventTime :: "time \<Rightarrow> ReflectorEvent \<Rightarrow> time" where
  "eventTime wall ev = (case ev_Timestamp ev of None \<Rightarrow> wall | Some t \<Rightarrow> t)"

definition eventKey :: "ReflectorEvent \<Rightarrow> string" where
  "eventKey ev = connectionKey (ev_NodeId ev) (ev_SourceAddr ev) (ev_DestAddr ev) (ev_Protocol ev)"

definition observeProfile ::
  "SessionMap \<Rightarrow> string \<Rightarrow> string \<Rightarrow> string \<Rightarrow> u64 \<Rightarrow> u64 \<Rightarrow> time \<Rightarrow> SessionMap" where
  "observeProfile m i dest tool tx rx now = m\<lparr>profiles := Observe (profiles m) i dest tool tx rx now\<rparr>"

section \<open>The cases of HandleEvent\<close>

definition openEntry :: "ReflectorEvent \<Rightarrow> time \<Rightarrow> Entry" where
  "openEntry ev now =
     (let (ident, idType) = pickIdentity ev;
          e = zero_entry\<lparr>en_NodeID := ev_NodeId ev, en_SourceAddr := ev_SourceAddr ev,
                en_DestAddr := ev_DestAddr ev, en_Protocol := ev_Protocol ev,
                en_Identity := ident, en_IdentityType := idType, en_MCPTool := ev_McpToolName ev,
                en_PID := ev_Pid ev, en_BytesTx := ev_BytesTx ev, en_BytesRx := ev_BytesRx ev,
                en_FirstSeen := now, en_LastSeen := now, en_Status := ''active''\<rparr>;
          e1 = applyOTELFields e ev
      in if ev_BoundarySessionToken ev \<noteq> []
         then e1\<lparr>en_BoundarySessionToken := ev_BoundarySessionToken ev,
                 en_BoundaryTokenType := ev_BoundaryTokenType ev\<rparr> else e1)"

definition handleOpen :: "SessionMap \<Rightarrow> ReflectorEvent \<Rightarrow> time \<Rightarrow> SessionMap" where
  "handleOpen m ev now =
     (let (ident, idType) = pickIdentity ev;
          m1 = (if maxEntries m > 0 \<and> int (length (entries m)) \<ge> maxEntries m
                then evictOldest m else m);
          m2 = m1\<lparr>entries := AList.update (eventKey ev) (openEntry ev now) (entries m1)\<rparr>
      in if ident \<noteq> [] \<and> idType = ''spiffe''
         then observeProfile m2 ident (ev_DestAddr ev) (ev_McpToolName ev) (ev_BytesTx ev)
                (ev_BytesRx ev) now
         else m2)"

definition handleClose :: "SessionMap \<Rightarrow> ReflectorEvent \<Rightarrow> time \<Rightarrow> SessionMap" where
  "handleClose m ev now =
     (case map_of (entries m) (eventKey ev) of None \<Rightarrow> m
      | Some e \<Rightarrow> m\<lparr>entries := AList.update (eventKey ev)
          (e\<lparr>en_Status := ''closed'', en_LastSeen := now, en_BytesTx := ev_BytesTx ev,
             en_BytesRx := ev_BytesRx ev\<rparr>) (entries m)\<rparr>)"

definition rotationEntry :: "ReflectorEvent \<Rightarrow> time \<Rightarrow> string \<Rightarrow> Entry" where
  "rotationEntry ev now status =
     zero_entry\<lparr>en_NodeID := ev_NodeId ev, en_SourceAddr := ev_SourceAddr ev,
       en_DestAddr := ev_DestAddr ev, en_Protocol := ev_Protocol ev,
       en_Identity := ev_SourceIdentity ev, en_IdentityType := ''spiffe'', en_PID := ev_Pid ev,
       en_FirstSeen := now, en_LastSeen := now, en_Status := status,
       en_CertSerial := ev_CertSerial ev, en_CertExpiry := certExpiryTime ev,
       en_CertIssuerFingerprint := ev_CertIssuerFingerprint ev\<rparr>"

definition certObservation :: "ReflectorEvent \<Rightarrow> time \<Rightarrow> CertObservation" where
  "certObservation ev now =
     \<lparr>co_Serial = ev_CertSerial ev, co_Expiry = certExpiryTime ev,
      co_IssuerFingerprint = ev_CertIssuerFingerprint ev,
      co_TrustDomain = trustDomainFromSPIFFE (ev_SourceIdentity ev),
      co_ObservedAt = now, co_PID = ev_Pid ev\<rparr>"

definition syntheticKey :: "ReflectorEvent \<Rightarrow> time \<Rightarrow> string" where
  "syntheticKey ev now = ev_SourceIdentity ev @ ''|rotation|'' @ RFC3339Nano now"

text \<open>
  \<^verbatim>\<open>trackCertRotation\<close>, with the key it stored an entry under (if any): the caller
  holds a pointer to the entry of the event's own key, which is no longer in the
  table when the synthetic key is that same key.
\<close>

definition trackCertRotation ::
  "SessionMap \<Rightarrow> time \<Rightarrow> ReflectorEvent \<Rightarrow> time \<Rightarrow> SessionMap \<times> string option" where
  "trackCertRotation m wall ev now =
     (let (class, rot) = Track (rotation m) wall (ev_SourceIdentity ev) (certObservation ev now);
          m1 = m\<lparr>rotation := rot\<rparr>
      in if class = RotationFirstSeen then (m1, None)
         else let status = rotationEventStatus (rotationClassToEventType class)
              in (m1\<lparr>entries := AList.update (syntheticKey ev now) (rotationEntry ev now status)
                       (entries m1)\<rparr>, Some (syntheticKey ev now)))"

definition dataUpdate :: "Entry \<Rightarrow> ReflectorEvent \<Rightarrow> time \<Rightarrow> Entry" where
  "dataUpdate e ev now =
     (let e1 = e\<lparr>en_LastSeen := now, en_BytesTx := ev_BytesTx ev, en_BytesRx := ev_BytesRx ev\<rparr>;
          e2 = (if en_Identity e1 = []
                then e1\<lparr>en_Identity := fst (pickIdentity ev), en_IdentityType := snd (pickIdentity ev)\<rparr>
                else e1);
          e3 = (if en_MCPTool e2 = [] \<and> ev_McpToolName ev \<noteq> []
                then e2\<lparr>en_MCPTool := ev_McpToolName ev\<rparr> else e2)
      in applyOTELFields e3 ev)"

definition boundaryUpdate :: "Entry \<Rightarrow> ReflectorEvent \<Rightarrow> Entry" where
  "boundaryUpdate e ev =
     (if ev_BoundarySessionToken ev \<noteq> [] \<and> en_BoundarySessionToken e = []
      then e\<lparr>en_BoundarySessionToken := ev_BoundarySessionToken ev,
             en_BoundaryTokenType := ev_BoundaryTokenType ev\<rparr> else e)"

definition handleData :: "SessionMap \<Rightarrow> time \<Rightarrow> ReflectorEvent \<Rightarrow> time \<Rightarrow> SessionMap" where
  "handleData m wall ev now =
     (case map_of (entries m) (eventKey ev) of None \<Rightarrow> m
      | Some e \<Rightarrow>
        let e1 = dataUpdate e ev now;
            m1 = m\<lparr>entries := AList.update (eventKey ev) e1 (entries m)\<rparr>;
            (m2, stored) = (if ev_IdentityType ev = SPIFFE \<and> ev_CertSerial ev \<noteq> []
                            then trackCertRotation m1 wall ev now else (m1, None));
            e2 = boundaryUpdate e1 ev;
            m3 = (if stored = Some (eventKey ev) then m2
                  else m2\<lparr>entries := AList.update (eventKey ev) e2 (entries m2)\<rparr>)
        in if en_Identity e2 \<noteq> []
           then observeProfile m3 (en_Identity e2) (en_DestAddr e2) (en_MCPTool e2)
                  (ev_BytesTx ev) (ev_BytesRx ev) now
           else m3)"

definition handleRotation :: "SessionMap \<Rightarrow> ReflectorEvent \<Rightarrow> time \<Rightarrow> SessionMap" where
  "handleRotation m ev now =
     m\<lparr>entries := AList.update (eventKey ev)
        ((rotationEntry ev now (rotationEventStatus (ev_EventType ev)))\<lparr>en_PrevCertSerial := ev_PrevCertSerial ev\<rparr>)
        (entries m)\<rparr>"

definition HandleEvent :: "SessionMap \<Rightarrow> time \<Rightarrow> ReflectorEvent \<Rightarrow> SessionMap" where
  "HandleEvent m wall ev =
     (if ev_EventType ev = STREAM_RESUMED then markStaleFromNode m (ev_NodeId ev)
      else let now = eventTime wall ev in
        case ev_EventType ev of
          CONNECTION_OPEN \<Rightarrow> handleOpen m ev now
        | CONNECTION_CLOSE \<Rightarrow> handleClose m ev now
        | DATA_EXCHANGE \<Rightarrow> handleData m wall ev now
        | CERT_ROTATION_NORMAL \<Rightarrow> handleRotation m ev now
        | CERT_ROTATION_EARLY \<Rightarrow> handleRotation m ev now
        | CERT_ROTATION_ISSUER \<Rightarrow> handleRotation m ev now
        | CERT_ROTATION_DOMAIN \<Rightarrow> handleRotation m ev now
        | _ \<Rightarrow> m)"

section \<open>Queries and the sweep\<close>

definition AttestationTTL :: duration where "AttestationTTL = 5 * Minute"

record AttestResult =
  at_SpiffeID :: string
  at_ObservedAt :: time
  at_Confidence :: string

definition attest_match :: "time \<Rightarrow> u32 \<Rightarrow> string \<Rightarrow> string \<Rightarrow> Entry \<Rightarrow> bool" where
  "attest_match cutoff pid srcAddr dstAddr e \<longleftrightarrow>
     \<not> (en_SourceAddr e \<noteq> srcAddr \<or> en_DestAddr e \<noteq> dstAddr)
     \<and> \<not> (pid \<noteq> 0 \<and> en_PID e \<noteq> pid) \<and> \<not> en_LastSeen e < cutoff"

definition pick_best :: "(Entry \<Rightarrow> bool) \<Rightarrow> Entry option \<Rightarrow> (string \<times> Entry) list \<Rightarrow> Entry option" where
  "pick_best P b es =
     foldl (\<lambda>best (k, e). if \<not> P e then best
        else (case best of None \<Rightarrow> Some e
              | Some x \<Rightarrow> if en_LastSeen e > en_LastSeen x then Some e else best)) b es"

definition Lookup :: "SessionMap \<Rightarrow> time \<Rightarrow> u32 \<Rightarrow> string \<Rightarrow> string \<Rightarrow> AttestResult" where
  "Lookup m wall pid srcAddr dstAddr =
     (let cutoff = wall - AttestationTTL in
      case pick_best (attest_match cutoff pid srcAddr dstAddr) None (entries m) of
        None \<Rightarrow> \<lparr>at_SpiffeID = [], at_ObservedAt = zero_time, at_Confidence = ''jwt-only''\<rparr>
      | Some best \<Rightarrow>
          if en_Identity best = []
          then \<lparr>at_SpiffeID = [], at_ObservedAt = zero_time, at_Confidence = ''jwt-only''\<rparr>
          else \<lparr>at_SpiffeID = en_Identity best, at_ObservedAt = en_LastSeen best,
                at_Confidence = ''kernel''\<rparr>)"

definition query_match :: "string \<Rightarrow> string \<Rightarrow> string \<Rightarrow> string \<Rightarrow> Entry \<Rightarrow> bool" where
  "query_match ident dest status nodeID e \<longleftrightarrow>
     \<not> (ident \<noteq> [] \<and> en_Identity e \<noteq> ident) \<and> \<not> (dest \<noteq> [] \<and> en_DestAddr e \<noteq> dest)
     \<and> \<not> (status \<noteq> [] \<and> en_Status e \<noteq> status) \<and> \<not> (nodeID \<noteq> [] \<and> en_NodeID e \<noteq> nodeID)"

definition QueryAll :: "SessionMap \<Rightarrow> string \<Rightarrow> string \<Rightarrow> string \<Rightarrow> string \<Rightarrow> Entry list" where
  "QueryAll m ident dest status nodeID =
     filter (query_match ident dest status nodeID) (map snd (entries m))"

record Stats =
  st_Active :: nat
  st_Closed :: nat
  st_Stale :: nat
  st_Identities :: nat

definition GetStats :: "SessionMap \<Rightarrow> Stats" where
  "GetStats m =
     (let r = foldl (\<lambda>(s, ids) (k, e).
          (if en_Status e = ''active'' then s\<lparr>st_Active := Suc (st_Active s)\<rparr>
           else if en_Status e = ''closed'' then s\<lparr>st_Closed := Suc (st_Closed s)\<rparr>
           else if en_Status e = ''stale'' then s\<lparr>st_Stale := Suc (st_Stale s)\<rparr> else s,
           if en_Identity e \<noteq> [] then List.insert (en_Identity e) ids else ids))
          (\<lparr>st_Active = 0, st_Closed = 0, st_Stale = 0, st_Identities = 0\<rparr>, []) (entries m)
      in (fst r)\<lparr>st_Identities := length (snd r)\<rparr>)"

definition sweep_entry :: "time \<Rightarrow> time \<Rightarrow> Entry \<Rightarrow> Entry option" where
  "sweep_entry cutoff staleCutoff e =
     (if en_Status e = ''closed'' then (if en_LastSeen e < cutoff then None else Some e)
      else if en_Status e = ''stale'' then (if en_LastSeen e < staleCutoff then None else Some e)
      else if en_Status e = ''active'' then
        (if en_LastSeen e < cutoff then Some (e\<lparr>en_Status := ''stale''\<rparr>) else Some e)
      else Some e)"

definition Sweep :: "SessionMap \<Rightarrow> time \<Rightarrow> SessionMap" where
  "Sweep m now =
     (let cutoff = now + wrap64 (- staleTTL m); staleCutoff = now + wrap64 (- 2 * staleTTL m)
      in m\<lparr>entries := List.map_filter
            (\<lambda>(k, e). map_option (Pair k) (sweep_entry cutoff staleCutoff e)) (entries m)\<rparr>)"

definition NewTestEvent ::
  "time \<Rightarrow> string \<Rightarrow> string \<Rightarrow> string \<Rightarrow> string \<Rightarrow> string \<Rightarrow> EventType \<Rightarrow> ReflectorEvent" where
  "NewTestEvent now nodeID src dst proto ident evType =
     zero_event\<lparr>ev_NodeId := nodeID, ev_Timestamp := Some now, ev_EventType := evType,
       ev_SourceAddr := src, ev_DestAddr := dst, ev_Protocol := proto,
       ev_SourceIdentity := ident, ev_IdentityType := SPIFFE\<rparr>"

section \<open>The invariant\<close>

definition statuses :: "string list" where
  "statuses = [''active'', ''closed'', ''stale'', ''rotation_normal'', ''rotation_early'',
     ''rotation_issuer'', ''rotation_domain'']"

definition identity_types :: "string list" where
  "identity_types = [''spiffe'', ''jwt'', ''mcp'', ''otel'', ''unknown'']"

text \<open>
  A stored entry: its key is the connection key of its own fields or a synthetic
  rotation key, its status is one the code writes, and an identity has a type.
\<close>

definition entry_ok :: "string \<Rightarrow> Entry \<Rightarrow> bool" where
  "entry_ok k e \<longleftrightarrow>
     (k = connectionKey (en_NodeID e) (en_SourceAddr e) (en_DestAddr e) (en_Protocol e)
      \<or> (\<exists>i t. k = i @ ''|rotation|'' @ RFC3339Nano t))
     \<and> en_Status e \<in> set statuses
     \<and> (en_Identity e \<noteq> [] \<longrightarrow> en_IdentityType e \<in> set identity_types)"

definition map_inv :: "SessionMap \<Rightarrow> bool" where
  "map_inv m \<longleftrightarrow> distinct (map fst (entries m)) \<and> (\<forall>(k, e) \<in> set (entries m). entry_ok k e)
     \<and> (\<forall>i. rot_good (rot_view (rotation m) i)) \<and> (\<forall>i. prof_good (prof_view (profiles m) i))"

lemma key_nonempty: "entry_ok k e \<Longrightarrow> k \<noteq> []"
  by (auto simp: entry_ok_def connectionKey_def)

lemma map_invD:
  assumes "map_inv m"
  shows "distinct (map fst (entries m))"
    and "(k, e) \<in> set (entries m) \<Longrightarrow> entry_ok k e"
    and "map_of (entries m) k = Some e \<Longrightarrow> entry_ok k e"
  using assms map_of_SomeD [of "entries m" k e] by (auto simp: map_inv_def)

lemma map_inv_no_empty_key: "map_inv m \<Longrightarrow> (k, e) \<in> set (entries m) \<Longrightarrow> k \<noteq> []"
  using key_nonempty map_invD(2) by blast

text \<open>How the operations change the table: an update, a restriction, a change of values.\<close>

lemma map_inv_update:
  "map_inv m \<Longrightarrow> entry_ok k e \<Longrightarrow> map_inv (m\<lparr>entries := AList.update k e (entries m)\<rparr>)"
  by (auto simp: map_inv_def set_update_distinct distinct_update)

lemma map_inv_delete: "map_inv m \<Longrightarrow> map_inv (m\<lparr>entries := AList.delete k (entries m)\<rparr>)"
  by (auto simp: map_inv_def set_delete distinct_delete)

lemma map_inv_observeProfile: "map_inv m \<Longrightarrow> map_inv (observeProfile m i dest tool tx rx now)"
  using pt.all_good [of "profiles m" i "(dest, tool, tx, rx, now)"]
  by (simp add: map_inv_def observeProfile_def prof_observe_def)

lemma map_inv_evictOldest: "map_inv m \<Longrightarrow> map_inv (evictOldest m)"
  by (simp add: evictOldest_def map_inv_delete split: prod.splits)

lemma pickIdentity_type: "fst (pickIdentity ev) \<noteq> [] \<Longrightarrow> snd (pickIdentity ev) \<in> set identity_types"
  by (auto simp: pickIdentity_def identity_types_def split: IdentityType.splits)

lemma applyOTELFields_keeps [simp]:
  "en_NodeID (applyOTELFields e ev) = en_NodeID e"
  "en_SourceAddr (applyOTELFields e ev) = en_SourceAddr e"
  "en_DestAddr (applyOTELFields e ev) = en_DestAddr e"
  "en_Protocol (applyOTELFields e ev) = en_Protocol e"
  "en_Identity (applyOTELFields e ev) = en_Identity e"
  "en_IdentityType (applyOTELFields e ev) = en_IdentityType e"
  "en_MCPTool (applyOTELFields e ev) = en_MCPTool e"
  "en_PID (applyOTELFields e ev) = en_PID e"
  "en_BytesTx (applyOTELFields e ev) = en_BytesTx e"
  "en_BytesRx (applyOTELFields e ev) = en_BytesRx e"
  "en_FirstSeen (applyOTELFields e ev) = en_FirstSeen e"
  "en_LastSeen (applyOTELFields e ev) = en_LastSeen e"
  "en_Status (applyOTELFields e ev) = en_Status e"
  "en_BoundarySessionToken (applyOTELFields e ev) = en_BoundarySessionToken e"
  by (simp_all add: applyOTELFields_def Let_def)

lemma openEntry_fields [simp]:
  "en_NodeID (openEntry ev now) = ev_NodeId ev"
  "en_SourceAddr (openEntry ev now) = ev_SourceAddr ev"
  "en_DestAddr (openEntry ev now) = ev_DestAddr ev"
  "en_Protocol (openEntry ev now) = ev_Protocol ev"
  "en_Identity (openEntry ev now) = fst (pickIdentity ev)"
  "en_IdentityType (openEntry ev now) = snd (pickIdentity ev)"
  "en_PID (openEntry ev now) = ev_Pid ev"
  "en_LastSeen (openEntry ev now) = now"
  "en_Status (openEntry ev now) = ''active''"
  by (simp_all add: openEntry_def Let_def split: prod.splits)

lemma boundaryUpdate_fields [simp]:
  "en_NodeID (boundaryUpdate e ev) = en_NodeID e"
  "en_SourceAddr (boundaryUpdate e ev) = en_SourceAddr e"
  "en_DestAddr (boundaryUpdate e ev) = en_DestAddr e"
  "en_Protocol (boundaryUpdate e ev) = en_Protocol e"
  "en_Identity (boundaryUpdate e ev) = en_Identity e"
  "en_IdentityType (boundaryUpdate e ev) = en_IdentityType e"
  "en_MCPTool (boundaryUpdate e ev) = en_MCPTool e"
  "en_PID (boundaryUpdate e ev) = en_PID e"
  "en_LastSeen (boundaryUpdate e ev) = en_LastSeen e"
  "en_Status (boundaryUpdate e ev) = en_Status e"
  by (simp_all add: boundaryUpdate_def)

lemma dataUpdate_fields [simp]:
  "en_NodeID (dataUpdate e ev now) = en_NodeID e"
  "en_SourceAddr (dataUpdate e ev now) = en_SourceAddr e"
  "en_DestAddr (dataUpdate e ev now) = en_DestAddr e"
  "en_Protocol (dataUpdate e ev now) = en_Protocol e"
  "en_PID (dataUpdate e ev now) = en_PID e"
  "en_LastSeen (dataUpdate e ev now) = now"
  "en_Status (dataUpdate e ev now) = en_Status e"
  "en_Identity (dataUpdate e ev now)
     = (if en_Identity e = [] then fst (pickIdentity ev) else en_Identity e)"
  "en_IdentityType (dataUpdate e ev now)
     = (if en_Identity e = [] then snd (pickIdentity ev) else en_IdentityType e)"
  by (simp_all add: dataUpdate_def Let_def)

lemma rotationEventStatus_ok:
  "is_rotation t \<Longrightarrow> rotationEventStatus t \<in> set statuses"
  "rotationEventStatus (rotationClassToEventType c) \<in> set statuses"
  by (cases t; simp add: statuses_def) (cases c; simp add: statuses_def)

lemma entry_ok_open: "entry_ok (eventKey ev) (openEntry ev now)"
  by (simp add: entry_ok_def eventKey_def pickIdentity_type) (simp add: statuses_def)

lemma entry_ok_data: "entry_ok k e \<Longrightarrow> entry_ok k (dataUpdate e ev now)"
  by (auto simp: entry_ok_def pickIdentity_type)

lemma entry_ok_boundary: "entry_ok k e \<Longrightarrow> entry_ok k (boundaryUpdate e ev)"
  by (simp add: entry_ok_def)

lemma entry_ok_status:
  "entry_ok k e \<Longrightarrow> s \<in> set statuses \<Longrightarrow> entry_ok k (e\<lparr>en_Status := s\<rparr>)"
  by (simp add: entry_ok_def)

lemma entry_ok_rotation:
  "s \<in> set statuses \<Longrightarrow> k = eventKey ev \<or> k = syntheticKey ev now
   \<Longrightarrow> entry_ok k (rotationEntry ev now s)"
  by (auto simp: entry_ok_def rotationEntry_def eventKey_def syntheticKey_def identity_types_def)

lemma map_inv_handleOpen: "map_inv m \<Longrightarrow> map_inv (handleOpen m ev now)"
  by (simp add: handleOpen_def Let_def entry_ok_open map_inv_update map_inv_evictOldest
        map_inv_observeProfile split: prod.splits)

lemma map_inv_handleClose:
  assumes "map_inv m"
  shows "map_inv (handleClose m ev now)"
proof (cases "map_of (entries m) (eventKey ev)")
  case (Some e)
  then have "entry_ok (eventKey ev) e" using map_invD(3) [OF assms] by blast
  then have "entry_ok (eventKey ev) (e\<lparr>en_Status := ''closed'', en_LastSeen := now,
      en_BytesTx := ev_BytesTx ev, en_BytesRx := ev_BytesRx ev\<rparr>)"
    by (simp add: entry_ok_def statuses_def)
  with Some assms show ?thesis by (simp add: handleClose_def map_inv_update)
qed (simp add: handleClose_def assms)

lemma map_inv_Track:
  assumes "map_inv m" "Track (rotation m) wall i obs = (c, r)"
  shows "map_inv (m\<lparr>rotation := r\<rparr>)"
proof -
  have "rot_observe (rotation m) i (obs, wall) = r" using assms(2) by (simp add: rot_observe_def)
  with assms(1) rt.all_good [of "rotation m"] show ?thesis by (auto simp: map_inv_def)
qed

lemma map_inv_trackCertRotation:
  assumes "map_inv m"
  shows "map_inv (fst (trackCertRotation m wall ev now))"
proof -
  obtain c r where T: "Track (rotation m) wall (ev_SourceIdentity ev) (certObservation ev now) = (c, r)"
    by (cases "Track (rotation m) wall (ev_SourceIdentity ev) (certObservation ev now)")
  from map_inv_Track [OF assms T] show ?thesis
    using T map_inv_update [of "m\<lparr>rotation := r\<rparr>"]
    by (auto simp: trackCertRotation_def Let_def intro!: entry_ok_rotation rotationEventStatus_ok)
qed

lemma map_inv_handleData:
  assumes "map_inv m"
  shows "map_inv (handleData m wall ev now)"
proof (cases "map_of (entries m) (eventKey ev)")
  case (Some e)
  then have ok: "entry_ok (eventKey ev) (dataUpdate e ev now)"
    using map_invD(3) [OF assms] entry_ok_data by blast
  then show ?thesis
    using Some assms
    by (auto simp: handleData_def Let_def split_beta
        intro!: map_inv_observeProfile map_inv_update map_inv_trackCertRotation entry_ok_boundary)
qed (simp add: handleData_def assms)

lemma entry_ok_prev [simp]: "entry_ok k (e\<lparr>en_PrevCertSerial := s\<rparr>) = entry_ok k e"
  by (simp add: entry_ok_def)

lemma map_inv_handleRotation:
  "map_inv m \<Longrightarrow> is_rotation (ev_EventType ev) \<Longrightarrow> map_inv (handleRotation m ev now)"
  by (auto simp: handleRotation_def intro!: map_inv_update entry_ok_rotation rotationEventStatus_ok(1))

lemma map_inv_map_values:
  assumes "map_inv m" "\<And>k e. entry_ok k e \<Longrightarrow> entry_ok k (f e)"
  shows "map_inv (m\<lparr>entries := map (\<lambda>(k, e). (k, f e)) (entries m)\<rparr>)"
  using assms by (auto simp: map_inv_def split_beta comp_def)

lemma map_inv_HandleEvent: "map_inv m \<Longrightarrow> map_inv (HandleEvent m wall ev)"
proof -
  assume inv: "map_inv m"
  have "map_inv (markStaleFromNode m (ev_NodeId ev))"
    unfolding markStaleFromNode_def
    by (rule map_inv_map_values [OF inv]) (simp add: entry_ok_status statuses_def)
  with inv show ?thesis
    by (auto simp: HandleEvent_def Let_def intro: map_inv_handleOpen map_inv_handleClose
        map_inv_handleData map_inv_handleRotation split: EventType.splits)
qed

lemma set_Sweep:
  "set (entries (Sweep m now)) = {(k, e'). \<exists>e. (k, e) \<in> set (entries m) \<and>
     sweep_entry (now + wrap64 (- staleTTL m)) (now + wrap64 (- 2 * staleTTL m)) e = Some e'}"
  by (force simp: Sweep_def Let_def map_filter_def)

lemma keys_map_filter:
  "map fst (List.map_filter (\<lambda>(k, e). map_option (Pair k) (f e)) al)
     = map fst (filter (\<lambda>(k, e). f e \<noteq> None) al)"
  by (induction al) (auto split: option.splits)

lemma keys_Sweep: "map fst (entries (Sweep m now)) = map fst (filter (\<lambda>(k, e).
   sweep_entry (now + wrap64 (- staleTTL m)) (now + wrap64 (- 2 * staleTTL m)) e \<noteq> None) (entries m))"
  by (simp add: Sweep_def Let_def keys_map_filter)

lemma Sweep_frame [simp]:
  "rotation (Sweep m now) = rotation m" "profiles (Sweep m now) = profiles m"
  "staleTTL (Sweep m now) = staleTTL m" "maxEntries (Sweep m now) = maxEntries m"
  by (simp_all add: Sweep_def Let_def)

lemma entry_ok_sweep: "entry_ok k e \<Longrightarrow> sweep_entry c s e = Some e' \<Longrightarrow> entry_ok k e'"
  by (auto simp: sweep_entry_def entry_ok_def statuses_def split: if_splits)

lemma map_inv_Sweep: "map_inv m \<Longrightarrow> map_inv (Sweep m now)"
  unfolding map_inv_def keys_Sweep
  by (auto simp: set_Sweep intro: entry_ok_sweep distinct_map_filter)

end
