(* ===== verification/Session_Spec.thy ===== *)
theory Session_Spec
  imports Session_Map
begin

text \<open>
  What the session map promises. The map is driven by events and by the sweep
  ticker, and Go may iterate over its table in any order: \<open>map_step\<close> and
  \<open>reachable\<close> are that state machine. The properties are its invariant, the size
  cap and the eviction rule, the life cycle of a connection, the sweep, the
  attestation lookup and the queries.
\<close>

section \<open>The state machine\<close>

datatype map_input = Event time ReflectorEvent | Tick time

fun map_input_step :: "SessionMap \<Rightarrow> map_input \<Rightarrow> SessionMap" where
  "map_input_step m (Event wall ev) = HandleEvent m wall ev"
| "map_input_step m (Tick now) = Sweep m now"

interpretation sm: component map_input_step map_inv
proof
  fix m i
  assume "map_inv m"
  then show "map_inv (map_input_step m i)"
    by (cases i) (auto intro: map_inv_HandleEvent map_inv_Sweep)
qed

inductive map_step :: "SessionMap \<Rightarrow> SessionMap \<Rightarrow> bool" where
  input: "map_step m (map_input_step m i)"
| reorder: "mset es = mset (entries m) \<Longrightarrow> map_step m (m\<lparr>entries := es\<rparr>)"

inductive_cases map_stepE: "map_step m m'"

inductive reachable :: "SessionMap \<Rightarrow> bool" where
  new: "reachable (NewMap ttl)"
| new_window: "0 < w \<Longrightarrow> reachable (NewMapWithProfileWindow ttl w)"
| step: "reachable m \<Longrightarrow> map_step m m' \<Longrightarrow> reachable m'"

lemma map_inv_new: "0 < w \<Longrightarrow> map_inv (NewMapWithProfileWindow ttl w)"
  by (simp add: map_inv_def NewMapWithProfileWindow_def newProfileTracker_good NewRotationTracker_good)

lemma NewMap_window: "NewMap ttl = NewMapWithProfileWindow ttl profileWindowSize"
  by (simp add: NewMap_def NewMapWithProfileWindow_def NewProfileTracker_def)

lemma map_inv_NewMap: "map_inv (NewMap ttl)"
  unfolding NewMap_window by (rule map_inv_new) (simp add: profile_consts Minute_def Second_def)

lemma map_inv_reorder:
  assumes "map_inv m" "mset es = mset (entries m)"
  shows "map_inv (m\<lparr>entries := es\<rparr>)"
proof -
  have "set es = set (entries m)" using assms(2) by (rule mset_eq_setD)
  moreover have "mset (map fst es) = mset (map fst (entries m))" using assms(2) by simp
  then have "distinct (map fst es) = distinct (map fst (entries m))"
    by (rule mset_eq_imp_distinct_iff)
  ultimately show ?thesis using assms(1) by (simp add: map_inv_def)
qed

lemma map_inv_step: "map_inv m \<Longrightarrow> map_step m m' \<Longrightarrow> map_inv m'"
  by (auto elim!: map_stepE intro: sm.step_inv map_inv_reorder)

lemma reachable_inv: "reachable m \<Longrightarrow> map_inv m"
  by (induction rule: reachable.induct) (auto intro: map_inv_NewMap map_inv_new map_inv_step)

lemma map_inv_bounds:
  assumes "map_inv m"
  shows "length (History (rotation m) i) \<le> certHistoryMax"
    and "length (windows_of (profiles m) i) \<le> profileWindowMax"
  using assms by (simp_all add: map_inv_def rot_good_def rot_view_def History_def prof_good_def prof_view_def)

text \<open>
  Property C1: in every state the session map can reach, whatever events, sweeps and
  iteration orders occur, the keys are distinct and every entry is stored under the
  connection key of its own fields or under a rotation key, with a status the code
  defines and a typed identity; the certificate histories and the profile windows
  stay within their bounds.
\<close>

theorem session_map_invariant:
  "reachable m \<Longrightarrow> distinct (map fst (entries m))
     \<and> (\<forall>k e. map_of (entries m) k = Some e \<longrightarrow> entry_ok k e)
     \<and> (\<forall>i. length (History (rotation m) i) \<le> certHistoryMax)
     \<and> (\<forall>i. length (windows_of (profiles m) i) \<le> profileWindowMax)"
  by (intro conjI allI impI) (auto dest!: reachable_inv simp: map_inv_bounds dest: map_invD)

section \<open>Example events\<close>

definition ev_open :: "string \<Rightarrow> time \<Rightarrow> ReflectorEvent" where
  "ev_open ident t = NewTestEvent t ''n1'' ''10.0.0.1:80'' ''10.0.0.2:443'' ''tcp'' ident CONNECTION_OPEN"

lemma ev_open_fields [simp]:
  "ev_EventType (ev_open i t) = CONNECTION_OPEN" "ev_Timestamp (ev_open i t) = Some t"
  "ev_SourceAddr (ev_open i t) = ''10.0.0.1:80''" "ev_DestAddr (ev_open i t) = ''10.0.0.2:443''"
  "ev_NodeId (ev_open i t) = ''n1''" "ev_Pid (ev_open i t) = 0"
  "ev_IdentityType (ev_open i t) = SPIFFE" "ev_SourceIdentity (ev_open i t) = i"
  "eventTime w (ev_open i t) = t"
  "eventKey (ev_open i t) = ''n1|10.0.0.1:80|10.0.0.2:443|tcp''"
  by (simp_all add: ev_open_def NewTestEvent_def zero_event_def eventTime_def eventKey_def connectionKey_def)

theorem session_map_invariant_witness:
  "entry_ok ''n1|10.0.0.1:80|10.0.0.2:443|tcp'' (openEntry (ev_open [] 7) 7)"
proof -
  let ?m = "HandleEvent (NewMap 60) 0 (ev_open [] 7)"
  have "reachable ?m"
    using reachable.step [OF reachable.new map_step.input [of _ "Event 0 (ev_open [] 7)"]] by simp
  moreover have "map_of (entries ?m) ''n1|10.0.0.1:80|10.0.0.2:443|tcp'' = Some (openEntry (ev_open [] 7) 7)"
    by (simp add: HandleEvent_def handleOpen_def NewMap_def pickIdentity_def DefaultMaxEntries_def)
  ultimately show ?thesis using session_map_invariant by blast
qed

section \<open>Eviction and the size cap\<close>

definition evict_select :: "(Entry \<Rightarrow> bool) \<Rightarrow> (string \<times> Entry) list \<Rightarrow> string \<Rightarrow> Entry \<Rightarrow> bool" where
  "evict_select P es k e \<longleftrightarrow> (k, e) \<in> set es \<and> P e
     \<and> (\<forall>(k', e') \<in> set es. P e' \<longrightarrow> en_LastSeen e \<le> en_LastSeen e')"

text \<open>The scan with a candidate returns the candidate or an older matching entry.\<close>

lemma evict_scan_cand:
  assumes "k \<noteq> []" "\<forall>(k', e') \<in> set es. k' \<noteq> []"
  shows "\<exists>k' t'. evict_scan P (k, t) es = (k', t') \<and> k' \<noteq> [] \<and> t' \<le> t
     \<and> (\<forall>(q, e) \<in> set es. P e \<longrightarrow> t' \<le> en_LastSeen e)
     \<and> ((k', t') = (k, t) \<or> (\<exists>e. (k', e) \<in> set es \<and> P e \<and> t' = en_LastSeen e))"
  using assms
proof (induction es arbitrary: k t)
  case (Cons p es)
  obtain q e where p: "p = (q, e)" by (cases p)
  define acc where "acc = (if P e \<and> en_LastSeen e < t then (q, en_LastSeen e) else (k, t))"
  have step: "evict_scan P (k, t) (p # es) = evict_scan P acc es"
    using Cons.prems by (simp add: evict_scan_def p acc_def)
  have "fst acc \<noteq> []" using Cons.prems p by (simp add: acc_def)
  then obtain k' t' where R: "evict_scan P acc es = (k', t')" "k' \<noteq> []" "t' \<le> snd acc"
    "\<forall>(q, e) \<in> set es. P e \<longrightarrow> t' \<le> en_LastSeen e"
    "(k', t') = acc \<or> (\<exists>e. (k', e) \<in> set es \<and> P e \<and> t' = en_LastSeen e)"
    using Cons.IH [of "fst acc" "snd acc"] Cons.prems by auto
  moreover have "t' \<le> t" "P e \<longrightarrow> t' \<le> en_LastSeen e"
    using R(3) by (auto simp: acc_def split: if_splits)
  moreover have "(k', t') = (k, t) \<or> (\<exists>e. (k', e) \<in> set (p # es) \<and> P e \<and> t' = en_LastSeen e)"
    using R(5) by (auto simp: acc_def p split: if_splits)
  ultimately show ?case unfolding step by (simp add: p)
qed (simp add: evict_scan_def)

lemma evict_scan_select:
  assumes "\<forall>(k', e') \<in> set es. k' \<noteq> []"
  shows "if \<exists>(k, e) \<in> set es. P e
         then \<exists>k e. evict_scan P ([], t0) es = (k, en_LastSeen e) \<and> k \<noteq> [] \<and> evict_select P es k e
         else evict_scan P ([], t0) es = ([], t0)"
  using assms
proof (induction es)
  case (Cons p es)
  obtain q e where p: "p = (q, e)" by (cases p)
  show ?case
  proof (cases "P e")
    case True
    then have "evict_scan P ([], t0) (p # es) = evict_scan P (q, en_LastSeen e) es"
      by (simp add: evict_scan_def p)
    moreover obtain k' t' where "evict_scan P (q, en_LastSeen e) es = (k', t')" "k' \<noteq> []"
      "t' \<le> en_LastSeen e" "\<forall>(q, e) \<in> set es. P e \<longrightarrow> t' \<le> en_LastSeen e"
      "(k', t') = (q, en_LastSeen e) \<or> (\<exists>e. (k', e) \<in> set es \<and> P e \<and> t' = en_LastSeen e)"
      using evict_scan_cand [of q es P "en_LastSeen e"] Cons.prems p by auto
    ultimately show ?thesis
      using True unfolding p evict_select_def by fastforce
  next
    case False
    then have "evict_scan P ([], t0) (p # es) = evict_scan P ([], t0) es"
      by (simp add: evict_scan_def p)
    moreover have "evict_select P (p # es) k x \<longleftrightarrow> evict_select P es k x" for k x
      using False by (auto simp: p evict_select_def)
    ultimately show ?thesis using Cons False by (simp add: p)
  qed
qed (simp add: evict_scan_def)

lemma evictOldest_selects:
  assumes "map_inv m" "entries m \<noteq> []"
  shows "\<exists>k e. evictOldest m = m\<lparr>entries := AList.delete k (entries m)\<rparr>
     \<and> evict_select (if \<exists>(k, e) \<in> set (entries m). stale_or_closed e then stale_or_closed
                     else (\<lambda>_. True)) (entries m) k e"
proof -
  have ne: "\<forall>(k', e') \<in> set (entries m). k' \<noteq> []"
    using map_inv_no_empty_key [OF assms(1)] by auto
  show ?thesis
  proof (cases "\<exists>(k, e) \<in> set (entries m). stale_or_closed e")
    case True
    with evict_scan_select [OF ne, of stale_or_closed zero_time] obtain k e where
      "evict_scan stale_or_closed ([], zero_time) (entries m) = (k, en_LastSeen e)"
      "k \<noteq> []" "evict_select stale_or_closed (entries m) k e" by auto
    with True show ?thesis by (auto simp: evictOldest_def)
  next
    case False
    with evict_scan_select [OF ne, of stale_or_closed zero_time] have
      "evict_scan stale_or_closed ([], zero_time) (entries m) = ([], zero_time)" by auto
    moreover have "\<exists>(k, e) \<in> set (entries m). True" using assms(2) by (cases "entries m") auto
    with evict_scan_select [OF ne, of "\<lambda>_. True" zero_time] obtain k e where
      "evict_scan (\<lambda>_. True) ([], zero_time) (entries m) = (k, en_LastSeen e)"
      "k \<noteq> []" "evict_select (\<lambda>_. True) (entries m) k e" by auto
    ultimately show ?thesis using False by (auto simp: evictOldest_def)
  qed
qed

text \<open>
  Eviction removes exactly one entry. If any entry is stale or closed
  the victim is one of these, and the one seen longest ago; only if there is none
  is it the longest unseen entry of the whole table. Every other entry stays as it is.
\<close>

lemma evictOldest_victim:
  assumes "reachable m" and "entries m \<noteq> []"
  shows "\<exists>k e. map_of (entries m) k = Some e
     \<and> map_of (entries (evictOldest m)) = (map_of (entries m))(k := None)
     \<and> Suc (length (entries (evictOldest m))) = length (entries m)
     \<and> (if \<exists>(k', e') \<in> set (entries m). stale_or_closed e'
        then stale_or_closed e
          \<and> (\<forall>(k', e') \<in> set (entries m). stale_or_closed e' \<longrightarrow> en_LastSeen e \<le> en_LastSeen e')
        else (\<forall>(k', e') \<in> set (entries m). en_LastSeen e \<le> en_LastSeen e'))"
proof -
  note inv = reachable_inv [OF assms(1)]
  obtain k e where del: "evictOldest m = m\<lparr>entries := AList.delete k (entries m)\<rparr>"
    and sel: "evict_select (if \<exists>(k, e) \<in> set (entries m). stale_or_closed e then stale_or_closed
                     else (\<lambda>_. True)) (entries m) k e"
    using evictOldest_selects [OF inv assms(2)] by blast
  from sel have mem: "(k, e) \<in> set (entries m)" by (simp add: evict_select_def)
  then have "map_of (entries m) k = Some e" using map_of_mem [OF map_invD(1) [OF inv]] by simp
  moreover from mem have "Suc (length (entries (evictOldest m))) = length (entries m)"
    using length_delete [OF map_invD(1) [OF inv]] by (force simp: del)
  ultimately show ?thesis
    using sel by (intro exI [of _ k] exI [of _ e])
      (auto simp: del delete_conv evict_select_def split: if_splits)
qed

lemma reachable_run: "reachable m \<Longrightarrow> reachable (foldl map_input_step m is)"
  by (induction "is" arbitrary: m) (auto intro: reachable.step map_step.input)

lemma entries_open_new:
  "entries (HandleEvent (NewMap ttl) w (ev_open i t))
     = [(''n1|10.0.0.1:80|10.0.0.2:443|tcp'', openEntry (ev_open i t) t)]"
  by (simp add: HandleEvent_def handleOpen_def observeProfile_def NewMap_def DefaultMaxEntries_def
        Let_def split_beta)

lemma length_evictOldest:
  "map_inv m \<Longrightarrow> entries m \<noteq> [] \<Longrightarrow> Suc (length (entries (evictOldest m))) = length (entries m)"
proof -
  assume inv: "map_inv m" and "entries m \<noteq> []"
  then obtain k e where "evictOldest m = m\<lparr>entries := AList.delete k (entries m)\<rparr>"
    "(k, e) \<in> set (entries m)"
    using evictOldest_selects unfolding evict_select_def by metis
  with length_delete [OF map_invD(1) [OF inv], of k] show ?thesis by force
qed

lemma entries_observeProfile [simp]: "entries (observeProfile m i d tool tx rx now) = entries m"
  by (simp add: observeProfile_def)

lemma maxEntries_ops [simp]:
  "maxEntries (observeProfile m i d tool tx rx now) = maxEntries m"
  "maxEntries (evictOldest m) = maxEntries m"
  "maxEntries (fst (trackCertRotation m wall ev now)) = maxEntries m"
  by (simp_all add: observeProfile_def evictOldest_def trackCertRotation_def Let_def split: prod.splits)

lemma maxEntries_step [simp]: "maxEntries (map_input_step m i) = maxEntries m"
  by (cases i) (simp_all add: HandleEvent_def handleOpen_def handleClose_def handleData_def
      handleRotation_def markStaleFromNode_def Let_def split_beta split: EventType.splits option.splits)

definition inserts_rotation :: "ReflectorEvent \<Rightarrow> bool" where
  "inserts_rotation ev \<longleftrightarrow> is_rotation (ev_EventType ev)
     \<or> (ev_EventType ev = DATA_EXCHANGE \<and> ev_IdentityType ev = SPIFFE \<and> ev_CertSerial ev \<noteq> [])"

fun rotation_input :: "map_input \<Rightarrow> bool" where
  "rotation_input (Event wall ev) = inserts_rotation ev"
| "rotation_input (Tick now) = False"

lemma length_update_present: "map_of al k = Some v \<Longrightarrow> length (AList.update k x al) = length al"
  by (force simp: length_update dest: map_of_SomeD)

lemma length_handleOpen:
  assumes "map_inv m"
  shows "length (entries (handleOpen m ev now))
    \<le> (if 0 < maxEntries m \<and> maxEntries m \<le> int (length (entries m))
       then length (entries m) else Suc (length (entries m)))"
proof -
  let ?m1 = "if 0 < maxEntries m \<and> maxEntries m \<le> int (length (entries m)) then evictOldest m else m"
  have "length (entries (handleOpen m ev now))
      = length (AList.update (eventKey ev) (openEntry ev now) (entries ?m1))"
    by (simp add: handleOpen_def Let_def split: prod.splits)
  also have "\<dots> \<le> Suc (length (entries ?m1))" by (rule length_update_le)
  also have "\<dots> \<le> (if 0 < maxEntries m \<and> maxEntries m \<le> int (length (entries m))
       then length (entries m) else Suc (length (entries m)))"
    using length_evictOldest [OF assms] by (cases "entries m = []") auto
  finally show ?thesis .
qed

lemma length_handleClose [simp]: "length (entries (handleClose m ev now)) = length (entries m)"
  by (simp add: handleClose_def length_update_present split: option.splits)

text \<open>The status of the rotation entry that a data event records, if it records one.\<close>

definition rotation_status :: "SessionMap \<Rightarrow> time \<Rightarrow> ReflectorEvent \<Rightarrow> time \<Rightarrow> string option" where
  "rotation_status m wall ev now =
     (if ev_IdentityType ev = SPIFFE \<and> ev_CertSerial ev \<noteq> []
      then let c = fst (Track (rotation m) wall (ev_SourceIdentity ev) (certObservation ev now))
           in if c = RotationFirstSeen then None
              else Some (rotationEventStatus (rotationClassToEventType c))
      else None)"

lemma map_of_handleData:
  "map_of (entries m) (eventKey ev) = Some e \<Longrightarrow>
   map_of (entries (handleData m wall ev now)) =
     (let T = (map_of (entries m))(eventKey ev \<mapsto> boundaryUpdate (dataUpdate e ev now) ev)
      in case rotation_status m wall ev now of None \<Rightarrow> T
         | Some s \<Rightarrow> T(syntheticKey ev now \<mapsto> rotationEntry ev now s))"
  by (auto simp: handleData_def rotation_status_def trackCertRotation_def Let_def split_beta update_conv)

lemma length_card_dom: "distinct (map fst al) \<Longrightarrow> length al = card (dom (map_of al))"
  by (metis distinct_card dom_map_of_conv_image_fst length_map set_map)

lemma length_handleData:
  assumes "map_inv m"
  shows "length (entries (handleData m wall ev now))
    \<le> length (entries m) + (if ev_IdentityType ev = SPIFFE \<and> ev_CertSerial ev \<noteq> [] then 1 else 0)"
proof (cases "map_of (entries m) (eventKey ev)")
  case (Some e)
  then have K: "insert (eventKey ev) (dom (map_of (entries m))) = dom (map_of (entries m))" by auto
  have "length (entries (handleData m wall ev now))
      = card (dom (map_of (entries (handleData m wall ev now))))"
    by (rule length_card_dom [OF map_invD(1) [OF map_inv_handleData [OF assms]]])
  also have "\<dots> \<le> (if rotation_status m wall ev now = None then card (dom (map_of (entries m)))
                    else Suc (card (dom (map_of (entries m)))))"
    unfolding map_of_handleData [OF Some]
    by (auto simp: Let_def K card_insert_if finite_dom_map_of)
  finally show ?thesis
    using length_card_dom [OF map_invD(1) [OF assms]]
    by (auto simp: rotation_status_def split: if_splits)
qed (simp add: handleData_def)

lemma length_handleRotation: "length (entries (handleRotation m ev now)) \<le> Suc (length (entries m))"
  by (simp add: handleRotation_def length_update_le)

lemma length_Sweep: "length (entries (Sweep m now)) \<le> length (entries m)"
  using keys_Sweep [of m now] by (metis length_filter_le length_map)

text \<open>One input against a bound at or above the cap.\<close>

lemma length_step:
  assumes "map_inv m" "0 < maxEntries m" "maxEntries m \<le> b" "int (length (entries m)) \<le> b"
  shows "int (length (entries (map_input_step m i))) \<le> b + (if rotation_input i then 1 else 0)"
proof (cases i)
  case (Event wall ev)
  show ?thesis
    using length_handleOpen [OF assms(1), of ev "eventTime wall ev"]
      length_handleData [OF assms(1), of wall ev "eventTime wall ev"]
      length_handleRotation [of m ev "eventTime wall ev"] assms
    by (cases "ev_EventType ev")
       (auto simp: Event HandleEvent_def Let_def inserts_rotation_def markStaleFromNode_def split: if_splits)
next
  case (Tick now)
  with length_Sweep [of m now] assms show ?thesis by simp
qed

lemma length_run:
  assumes "map_inv m" "0 < maxEntries m" "maxEntries m \<le> b" "int (length (entries m)) \<le> b"
  shows "int (length (entries (foldl map_input_step m is))) \<le> b + int (length (filter rotation_input is))"
  using assms
proof (induction "is" arbitrary: m b)
  case (Cons i is')
  let ?b = "b + (if rotation_input i then 1 else 0)"
  have "int (length (entries (foldl map_input_step (map_input_step m i) is')))
      \<le> ?b + int (length (filter rotation_input is'))"
    using Cons.prems length_step by (intro Cons.IH) (auto intro: sm.step_inv)
  then show ?case by (simp split: if_splits)
qed simp

text \<open>
  Property C3: after any sequence of events and sweeps the table holds at most
  \<open>DefaultMaxEntries\<close> entries plus one for each event that may record a certificate
  rotation. In particular connection traffic alone never takes it over the cap.
\<close>

theorem session_cap:
  "int (length (entries (foldl map_input_step (NewMap ttl) is)))
     \<le> DefaultMaxEntries + int (length (filter rotation_input is))"
  by (rule length_run [OF map_inv_NewMap]) (simp_all add: NewMap_def DefaultMaxEntries_def)

section \<open>The table as a finite map\<close>

text \<open>
  The abstract specification of the handler: its effect on the table seen as a map
  from keys to entries, given the victim of an eviction and the status of a recorded
  rotation. List order plays no part in it.
\<close>

definition table :: "SessionMap \<Rightarrow> string \<Rightarrow> Entry option" where
  "table m = map_of (entries m)"

definition closedEntry :: "Entry \<Rightarrow> ReflectorEvent \<Rightarrow> time \<Rightarrow> Entry" where
  "closedEntry e ev now = e\<lparr>en_Status := ''closed'', en_LastSeen := now,
     en_BytesTx := ev_BytesTx ev, en_BytesRx := ev_BytesRx ev\<rparr>"

definition markStale :: "string \<Rightarrow> Entry \<Rightarrow> Entry" where
  "markStale n e = (if en_NodeID e = n \<and> en_Status e = ''active'' then e\<lparr>en_Status := ''stale''\<rparr> else e)"

definition spec_event ::
  "string option \<Rightarrow> string option \<Rightarrow> time \<Rightarrow> ReflectorEvent \<Rightarrow> (string \<Rightarrow> Entry option)
   \<Rightarrow> (string \<Rightarrow> Entry option)" where
  "spec_event victim rot now ev T =
     (case ev_EventType ev of
        CONNECTION_OPEN \<Rightarrow>
          (case victim of None \<Rightarrow> T | Some v \<Rightarrow> T(v := None))(eventKey ev \<mapsto> openEntry ev now)
      | CONNECTION_CLOSE \<Rightarrow>
          T(eventKey ev := map_option (\<lambda>e. closedEntry e ev now) (T (eventKey ev)))
      | DATA_EXCHANGE \<Rightarrow>
          (case T (eventKey ev) of None \<Rightarrow> T
           | Some e \<Rightarrow>
             (let T' = T(eventKey ev \<mapsto> boundaryUpdate (dataUpdate e ev now) ev)
              in (case rot of None \<Rightarrow> T'
                  | Some s \<Rightarrow> (T'(syntheticKey ev now \<mapsto> rotationEntry ev now s)))))
      | STREAM_RESUMED \<Rightarrow> (\<lambda>k. map_option (markStale (ev_NodeId ev)) (T k))
      | _ \<Rightarrow> if is_rotation (ev_EventType ev)
             then T(eventKey ev \<mapsto> (rotationEntry ev now (rotationEventStatus (ev_EventType ev)))
                     \<lparr>en_PrevCertSerial := ev_PrevCertSerial ev\<rparr>)
             else T)"

text \<open>An admissible victim: none below the cap, at the cap an entry that the eviction rule allows.\<close>

definition victim_ok :: "SessionMap \<Rightarrow> string option \<Rightarrow> bool" where
  "victim_ok m v \<longleftrightarrow>
     (if 0 < maxEntries m \<and> maxEntries m \<le> int (length (entries m))
      then \<exists>k e. v = Some k \<and> evict_select (if \<exists>(k, e) \<in> set (entries m). stale_or_closed e
             then stale_or_closed else (\<lambda>_. True)) (entries m) k e
      else v = None)"

lemma victim_exists:
  assumes "map_inv m"
  obtains v where "victim_ok m v"
    and "map_of (entries (if 0 < maxEntries m \<and> maxEntries m \<le> int (length (entries m))
           then evictOldest m else m)) = (case v of None \<Rightarrow> table m | Some k \<Rightarrow> (table m)(k := None))"
proof (cases "0 < maxEntries m \<and> maxEntries m \<le> int (length (entries m))")
  case True
  then have "entries m \<noteq> []" by auto
  from evictOldest_selects [OF assms this] obtain k e
    where "evictOldest m = m\<lparr>entries := AList.delete k (entries m)\<rparr>"
      "evict_select (if \<exists>(k, e) \<in> set (entries m). stale_or_closed e then stale_or_closed
          else (\<lambda>_. True)) (entries m) k e" by blast
  then show ?thesis
    using True that [of "Some k"] by (simp add: victim_ok_def table_def delete_conv') blast
next
  case False
  then have "victim_ok m None" by (auto simp: victim_ok_def)
  moreover from False have "(if 0 < maxEntries m \<and> maxEntries m \<le> int (length (entries m))
           then evictOldest m else m) = m" by auto
  ultimately show ?thesis using that [of None] by (simp add: table_def)
qed

lemma table_handleOpen:
  assumes "map_inv m"
  obtains v where "victim_ok m v"
    "table (handleOpen m ev now)
       = (case v of None \<Rightarrow> table m | Some k \<Rightarrow> (table m)(k := None))(eventKey ev \<mapsto> openEntry ev now)"
proof -
  obtain v where v: "victim_ok m v"
    "map_of (entries (if 0 < maxEntries m \<and> maxEntries m \<le> int (length (entries m))
           then evictOldest m else m)) = (case v of None \<Rightarrow> table m | Some k \<Rightarrow> (table m)(k := None))"
    by (rule victim_exists [OF assms])
  then have "table (handleOpen m ev now)
       = (case v of None \<Rightarrow> table m | Some k \<Rightarrow> (table m)(k := None))(eventKey ev \<mapsto> openEntry ev now)"
    by (simp add: handleOpen_def Let_def split_beta table_def update_conv')
  with v(1) show ?thesis by (rule that)
qed

lemma table_handleClose:
  "table (handleClose m ev now)
     = (table m)(eventKey ev := map_option (\<lambda>e. closedEntry e ev now) (table m (eventKey ev)))"
  by (auto simp: handleClose_def table_def closedEntry_def update_conv' fun_eq_iff split: option.splits)

lemma table_handleData:
  "table (handleData m wall ev now) = (case table m (eventKey ev) of None \<Rightarrow> table m
     | Some e \<Rightarrow>
       (let T' = (table m)(eventKey ev \<mapsto> boundaryUpdate (dataUpdate e ev now) ev)
        in (case rotation_status m wall ev now of None \<Rightarrow> T'
            | Some s \<Rightarrow> (T'(syntheticKey ev now \<mapsto> rotationEntry ev now s)))))"
  using map_of_handleData [of m ev]
  by (auto simp: table_def handleData_def split: option.splits)

lemma table_markStale:
  "table (markStaleFromNode m n) = (\<lambda>k. map_option (markStale n) (table m k))"
  by (simp add: markStaleFromNode_def table_def markStale_def [abs_def] map_of_map_snd [symmetric])

lemma table_HandleEvent:
  assumes "map_inv m"
  shows "\<exists>v. victim_ok m v \<and> table (HandleEvent m wall ev)
     = spec_event v (rotation_status m wall ev (eventTime wall ev)) (eventTime wall ev) ev (table m)"
proof -
  obtain v where v: "victim_ok m v" "table (handleOpen m ev (eventTime wall ev))
       = (case v of None \<Rightarrow> table m | Some k \<Rightarrow> (table m)(k := None))(eventKey ev \<mapsto> openEntry ev (eventTime wall ev))"
    by (rule table_handleOpen [OF assms])
  have "table (handleRotation m ev now) = (table m)(eventKey ev \<mapsto>
      (rotationEntry ev now (rotationEventStatus (ev_EventType ev)))\<lparr>en_PrevCertSerial := ev_PrevCertSerial ev\<rparr>)" for now
    by (simp add: handleRotation_def table_def update_conv')
  with v show ?thesis
    by (intro exI [of _ v])
       (simp add: HandleEvent_def spec_event_def Let_def table_handleClose table_handleData
          table_markStale split: EventType.splits)
qed

text \<open>
  Property C2: the handler refines the abstract specification. In every reachable
  state and for every event, whatever its type, the table afterwards is
  \<open>spec_event\<close> of the table before, for an admissible victim and for the rotation
  class that the tracker reports.
\<close>

theorem HandleEvent_refines:
  "reachable m \<Longrightarrow> \<exists>v. victim_ok m v \<and> table (HandleEvent m wall ev)
     = spec_event v (rotation_status m wall ev (eventTime wall ev)) (eventTime wall ev) ev (table m)"
  by (rule table_HandleEvent [OF reachable_inv])

theorem HandleEvent_refines_witness:
  "\<exists>v. victim_ok (NewMap 60) v \<and> table (HandleEvent (NewMap 60) 0 (ev_open [] 7))
     = spec_event v (rotation_status (NewMap 60) 0 (ev_open [] 7) 7) 7 (ev_open [] 7) (table (NewMap 60))"
  using HandleEvent_refines [OF reachable.new, of 60 0 "ev_open [] 7"] by simp

section \<open>The sweep\<close>

lemma map_of_map_filter:
  "distinct (map fst al) \<Longrightarrow>
   map_of (List.map_filter (\<lambda>(k, e). map_option (Pair k) (f e)) al) k = Option.bind (map_of al k) f"
proof (induction al)
  case (Cons p al)
  obtain q e where p: "p = (q, e)" by (cases p)
  from Cons.prems have "map_of al q = None" by (simp add: p map_of_eq_None_iff)
  with Cons show ?case by (auto simp: p split: option.splits)
qed simp

lemma table_Sweep:
  "map_inv m \<Longrightarrow> table (Sweep m now) k = Option.bind (table m k)
     (sweep_entry (now + wrap64 (- staleTTL m)) (now + wrap64 (- 2 * staleTTL m)))"
  by (simp add: Sweep_def Let_def table_def map_of_map_filter map_invD)

lemma ttl_no_overflow:
  assumes "0 \<le> d" "2 * d \<le> maxDuration"
  shows "wrap64 (- d) = - d" "wrap64 (- 2 * d) = - (2 * d)"
proof -
  show "wrap64 (- d) = - d"
    by (rule wrap64_id) (use assms in \<open>simp_all add: minDuration_def maxDuration_def\<close>)
  have "wrap64 (- (2 * d)) = - (2 * d)"
    by (rule wrap64_id) (use assms in \<open>simp_all add: minDuration_def maxDuration_def\<close>)
  then show "wrap64 (- 2 * d) = - (2 * d)" by simp
qed

text \<open>
  What one sweep does to each entry, for a time-to-live whose double
  does not overflow a duration. Closed entries unseen for the time-to-live and stale
  entries unseen for twice that are removed, active entries unseen for the
  time-to-live become stale and change in no other field, all other entries
  (the rotation records among them) stay, and no entry appears.
\<close>

lemma sweep_exact:
  assumes "reachable m" and "0 \<le> staleTTL m" and "2 * staleTTL m \<le> maxDuration"
  shows "table (Sweep m now) k = (case table m k of None \<Rightarrow> None | Some e \<Rightarrow>
     if en_Status e = ''closed'' \<and> en_LastSeen e < now - staleTTL m
        \<or> en_Status e = ''stale'' \<and> en_LastSeen e < now - 2 * staleTTL m then None
     else if en_Status e = ''active'' \<and> en_LastSeen e < now - staleTTL m
     then Some (e\<lparr>en_Status := ''stale''\<rparr>) else Some e)"
  unfolding table_Sweep [OF reachable_inv [OF assms(1)]] ttl_no_overflow [OF assms(2,3)]
  by (auto simp: sweep_entry_def split: option.splits)

text \<open>
  Property C35: no connection is kept for ever. An active, stale or closed entry that
  has not been seen for twice the time-to-live when a sweep runs is gone after the
  next sweep.
\<close>

theorem sweep_reclaims:
  assumes "reachable m" and "0 \<le> staleTTL m" and "2 * staleTTL m \<le> maxDuration"
    and "table m k = Some e" and "en_Status e \<in> {''active'', ''stale'', ''closed''}"
    and "en_LastSeen e < t1 - 2 * staleTTL m" and "t1 \<le> t2"
  shows "table (Sweep (Sweep m t1) t2) k = None"
proof -
  note inv = reachable_inv [OF assms(1)]
  have "table (Sweep (Sweep m t1) t2) k = Option.bind (sweep_entry (t1 - staleTTL m) (t1 - 2 * staleTTL m) e)
      (sweep_entry (t2 - staleTTL m) (t2 - 2 * staleTTL m))"
    unfolding table_Sweep [OF map_inv_Sweep [OF inv]] table_Sweep [OF inv] Sweep_frame
      ttl_no_overflow [OF assms(2,3)] assms(4) by simp
  with assms show ?thesis by (auto simp: sweep_entry_def)
qed

theorem sweep_reclaims_witness:
  "table (Sweep (Sweep (HandleEvent (NewMap 60) 0 (ev_open [] 7)) 200) 200)
     ''n1|10.0.0.1:80|10.0.0.2:443|tcp'' = None"
proof -
  let ?m = "HandleEvent (NewMap 60) 0 (ev_open [] 7)"
  have "reachable ?m" using reachable_run [OF reachable.new, of 60 "[Event 0 (ev_open [] 7)]"] by simp
  moreover have "staleTTL ?m = 60"
    by (simp add: HandleEvent_def handleOpen_def NewMap_def DefaultMaxEntries_def pickIdentity_def)
  moreover have "table ?m ''n1|10.0.0.1:80|10.0.0.2:443|tcp'' = Some (openEntry (ev_open [] 7) 7)"
    by (simp add: table_def entries_open_new)
  ultimately show ?thesis
    using sweep_reclaims [of ?m "''n1|10.0.0.1:80|10.0.0.2:443|tcp''" "openEntry (ev_open [] 7) 7" 200 200]
    by (simp add: maxDuration_def)
qed

text \<open>The entries that a sweep never touches.\<close>

definition audit_entry :: "Entry \<Rightarrow> bool" where
  "audit_entry e \<longleftrightarrow> en_Status e \<notin> {''active'', ''closed'', ''stale''}"

lemma sweep_entry_audit: "audit_entry e \<Longrightarrow> sweep_entry c s e = Some e"
  by (simp add: sweep_entry_def audit_entry_def)

lemma Sweep_audit_only:
  assumes "list_all audit_entry (map snd (entries m))"
  shows "entries (Sweep m now) = entries m"
proof -
  have "List.map_filter (\<lambda>(k, e). map_option (Pair k) (sweep_entry c s e)) es = es"
    if "list_all audit_entry (map snd es)" for c s and es :: "(string \<times> Entry) list"
    using that by (induction es) (auto simp: sweep_entry_audit)
  with assms show ?thesis by (simp add: Sweep_def Let_def)
qed

lemma sweeps_audit_only:
  "list_all audit_entry (map snd (entries m)) \<Longrightarrow> entries (foldl Sweep m ts) = entries m"
  by (induction ts arbitrary: m) (simp_all add: Sweep_audit_only)

lemma update_fresh: "k \<notin> fst ` set al \<Longrightarrow> AList.update k v al = al @ [(k, v)]"
  by (induction al) auto

lemma rotation_inserts:
  assumes "is_rotation (ev_EventType ev)" "eventKey ev \<notin> fst ` set (entries m)"
  shows "\<exists>e. audit_entry e \<and> entries (HandleEvent m wall ev) = entries m @ [(eventKey ev, e)]"
proof -
  have "HandleEvent m wall ev = handleRotation m ev (eventTime wall ev)"
    using assms(1) by (cases "ev_EventType ev") (simp_all add: HandleEvent_def)
  moreover have "audit_entry (rotationEntry ev now (rotationEventStatus (ev_EventType ev))
      \<lparr>en_PrevCertSerial := p\<rparr>)" for now p
    using assms(1) by (cases "ev_EventType ev") (simp_all add: audit_entry_def rotationEntry_def)
  ultimately show ?thesis by (auto simp: handleRotation_def update_fresh [OF assms(2)])
qed

lemma rotation_run:
  assumes "\<forall>ev \<in> set evs. is_rotation (ev_EventType ev)" "distinct (map eventKey evs)"
    "\<forall>ev \<in> set evs. eventKey ev \<notin> fst ` set (entries m)"
    "list_all audit_entry (map snd (entries m))"
  shows "length (entries (foldl (\<lambda>m ev. HandleEvent m wall ev) m evs)) = length (entries m) + length evs
    \<and> list_all audit_entry (map snd (entries (foldl (\<lambda>m ev. HandleEvent m wall ev) m evs)))"
  using assms
proof (induction evs arbitrary: m)
  case (Cons ev evs)
  then obtain e where e: "audit_entry e" "entries (HandleEvent m wall ev) = entries m @ [(eventKey ev, e)]"
    using rotation_inserts [of ev m wall] by auto
  have "length (entries (foldl (\<lambda>m ev. HandleEvent m wall ev) (HandleEvent m wall ev) evs))
      = length (entries (HandleEvent m wall ev)) + length evs
    \<and> list_all audit_entry (map snd (entries (foldl (\<lambda>m ev. HandleEvent m wall ev) (HandleEvent m wall ev) evs)))"
    by (rule Cons.IH) (use Cons.prems e in \<open>auto simp: image_iff\<close>)
  with e show ?case by simp
qed simp

text \<open>
  Rotation records accumulate without bound. Events of the rotation
  types with distinct keys each add an entry, whatever the cap, and no number of
  sweeps at any times removes one.
\<close>

lemma rotation_entries_accumulate:
  assumes "\<forall>ev \<in> set evs. is_rotation (ev_EventType ev)" and "distinct (map eventKey evs)"
  shows "length (entries (foldl Sweep (foldl (\<lambda>m ev. HandleEvent m wall ev) (NewMap ttl) evs) ts))
     = length evs"
proof -
  have "entries (NewMap ttl) = []" by (simp add: NewMap_def)
  with rotation_run [OF assms, of "NewMap ttl" wall] sweeps_audit_only show ?thesis by simp
qed

section \<open>The life cycle of a connection\<close>

lemma rotation_status_audit:
  "rotation_status m wall ev now = Some s \<Longrightarrow>
   s \<notin> {''active'', ''closed'', ''stale''} \<and> ev_IdentityType ev = SPIFFE \<and> ev_CertSerial ev \<noteq> []"
proof -
  assume A: "rotation_status m wall ev now = Some s"
  have "rotationEventStatus (rotationClassToEventType c) \<notin> {''active'', ''closed'', ''stale''}" for c
    by (cases c) simp_all
  with A show ?thesis by (auto simp: rotation_status_def Let_def split: if_splits)
qed

lemma en_Status_ops [simp]:
  "en_Status (closedEntry e ev now) = ''closed''"
  "en_Status (rotationEntry ev now s) = s"
  "en_Identity (closedEntry e ev now) = en_Identity e"
  "en_Identity (markStale n e) = en_Identity e"
  by (simp_all add: closedEntry_def rotationEntry_def markStale_def)

text \<open>What an event of each type can do to the status of the entry under a key.\<close>

lemma status_open:
  assumes "ev_EventType ev = CONNECTION_OPEN" "T' = spec_event v r now ev T"
  shows "T' k = T k \<or> (T' k = None \<and> v = Some k) \<or> (k = eventKey ev \<and> T' k = Some (openEntry ev now))"
  using assms by (auto simp: spec_event_def split: option.splits)

lemma status_data:
  assumes "ev_EventType ev = DATA_EXCHANGE" "T' = spec_event v r now ev T"
  shows "map_option en_Status (T' k) = map_option en_Status (T k)
     \<or> (\<exists>s. r = Some s \<and> T' k = Some (rotationEntry ev now s) \<and> k = syntheticKey ev now)"
  using assms by (auto simp: spec_event_def Let_def split: option.splits)

lemma status_rotation:
  assumes "is_rotation (ev_EventType ev)" "T' = spec_event v r now ev T"
  shows "T' k = T k \<or> (k = eventKey ev \<and> (\<exists>e. T' k = Some e \<and> audit_entry e))"
  using assms by (cases "ev_EventType ev") (auto simp: spec_event_def audit_entry_def)

lemma status_resumed:
  assumes "ev_EventType ev = STREAM_RESUMED" "T' = spec_event v r now ev T"
  shows "map_option en_Status (T' k) = map_option en_Status (T k)
     \<or> (map_option en_Status (T k) = Some ''active'' \<and> map_option en_Status (T' k) = Some ''stale'')"
  using assms by (cases "T k") (auto simp: spec_event_def markStale_def)

lemma status_close:
  assumes "ev_EventType ev = CONNECTION_CLOSE" "T' = spec_event v r now ev T"
  shows "T' k = T k \<or> (k = eventKey ev \<and> T k \<noteq> None \<and> map_option en_Status (T' k) = Some ''closed'')"
  using assms by (cases "T (eventKey ev)") (auto simp: spec_event_def)

lemma status_other:
  assumes "\<not> is_rotation (ev_EventType ev)"
    "ev_EventType ev \<notin> {CONNECTION_OPEN, CONNECTION_CLOSE, DATA_EXCHANGE, STREAM_RESUMED}"
    "T' = spec_event v r now ev T"
  shows "T' = T"
  using assms by (cases "ev_EventType ev") (auto simp: spec_event_def)

lemma status_sweep:
  "map_inv m \<Longrightarrow> map_option en_Status (table (Sweep m now) k) = map_option en_Status (table m k)
     \<or> table (Sweep m now) k = None
     \<or> (map_option en_Status (table m k) = Some ''active''
        \<and> map_option en_Status (table (Sweep m now) k) = Some ''stale'')"
  by (cases "table m k") (auto simp: table_Sweep sweep_entry_def)

definition status_cause :: "SessionMap \<Rightarrow> map_input \<Rightarrow> string \<Rightarrow> string option \<Rightarrow> bool" where
  "status_cause m i k q \<longleftrightarrow> (case q of
     None \<Rightarrow> (\<exists>now. i = Tick now)
       \<or> (\<exists>wall ev. i = Event wall ev \<and> ev_EventType ev = CONNECTION_OPEN
           \<and> maxEntries m \<le> int (length (entries m)))
   | Some s \<Rightarrow>
       if s = ''active'' then
         \<exists>wall ev. i = Event wall ev \<and> ev_EventType ev = CONNECTION_OPEN \<and> eventKey ev = k
       else if s = ''closed'' then table m k \<noteq> None
         \<and> (\<exists>wall ev. i = Event wall ev \<and> ev_EventType ev = CONNECTION_CLOSE \<and> eventKey ev = k)
       else if s = ''stale'' then map_option en_Status (table m k) = Some ''active''
         \<and> ((\<exists>now. i = Tick now) \<or> (\<exists>wall ev. i = Event wall ev \<and> ev_EventType ev = STREAM_RESUMED))
       else \<exists>wall ev. i = Event wall ev \<and> inserts_rotation ev)"

lemma status_cause_event:
  assumes inv: "map_inv m"
    and diff: "map_option en_Status (table (HandleEvent m wall ev) k) \<noteq> map_option en_Status (table m k)"
  shows "status_cause m (Event wall ev) k (map_option en_Status (table (HandleEvent m wall ev) k))"
proof -
  let ?now = "eventTime wall ev"
  obtain v where v: "victim_ok m v" and T: "table (HandleEvent m wall ev)
     = spec_event v (rotation_status m wall ev ?now) ?now ev (table m)"
    using table_HandleEvent [OF inv] by blast
  consider (R) "is_rotation (ev_EventType ev)" | (Op) "ev_EventType ev = CONNECTION_OPEN"
    | (C) "ev_EventType ev = CONNECTION_CLOSE" | (D) "ev_EventType ev = DATA_EXCHANGE"
    | (S) "ev_EventType ev = STREAM_RESUMED"
    | (X) "\<not> is_rotation (ev_EventType ev)"
        "ev_EventType ev \<notin> {CONNECTION_OPEN, CONNECTION_CLOSE, DATA_EXCHANGE, STREAM_RESUMED}"
    by auto
  then show ?thesis
  proof cases
    case R
    with status_rotation [OF R T, of k] diff show ?thesis
      by (auto simp: status_cause_def audit_entry_def inserts_rotation_def)
  next
    case Op
    have "v = Some k \<Longrightarrow> maxEntries m \<le> int (length (entries m))"
      using v by (simp add: victim_ok_def split: if_splits)
    with status_open [OF Op T, of k] diff Op show ?thesis
      by (auto simp: status_cause_def)
  next
    case C
    with status_close [OF C T, of k] diff show ?thesis by (auto simp: status_cause_def)
  next
    case D
    with status_data [OF D T, of k] diff rotation_status_audit show ?thesis
      by (auto simp: status_cause_def inserts_rotation_def)
  next
    case S
    with status_resumed [OF S T, of k] diff show ?thesis by (auto simp: status_cause_def)
  next
    case X
    with status_other [OF X T] diff show ?thesis by simp
  qed
qed

text \<open>
  Property C5: the life cycle of the entry under a key. When a step changes its
  status, the new status has its own cause: an entry is created or becomes active
  only by an open event for the key, becomes closed only from an existing entry by a
  close event for the key, becomes stale only from active, by a sweep or by a resumed
  stream, disappears only by a sweep or by an eviction at the cap, and takes a
  rotation status only by an event that may record a rotation.
\<close>

theorem connection_lifecycle:
  assumes "reachable m"
    and "map_option en_Status (table (map_input_step m i) k) \<noteq> map_option en_Status (table m k)"
  shows "status_cause m i k (map_option en_Status (table (map_input_step m i) k))"
proof (cases i)
  case (Event wall ev)
  with status_cause_event [OF reachable_inv [OF assms(1)]] assms(2) show ?thesis by simp
next
  case (Tick now)
  with status_sweep [OF reachable_inv [OF assms(1)], of now k] assms(2) show ?thesis
    by (auto simp: status_cause_def)
qed

theorem connection_lifecycle_witness:
  "status_cause (NewMap 60) (Event 0 (ev_open [] 7)) ''n1|10.0.0.1:80|10.0.0.2:443|tcp'' (Some ''active'')"
proof -
  have "table (HandleEvent (NewMap 60) 0 (ev_open [] 7)) ''n1|10.0.0.1:80|10.0.0.2:443|tcp''
      = Some (openEntry (ev_open [] 7) 7)"
    by (simp add: table_def entries_open_new)
  moreover have "table (NewMap 60) k = None" for k by (simp add: table_def NewMap_def)
  ultimately show ?thesis
    using connection_lifecycle [OF reachable.new, of 60 "Event 0 (ev_open [] 7)"
        "''n1|10.0.0.1:80|10.0.0.2:443|tcp''"] by simp
qed

text \<open>
  A discovered identity is not overwritten by traffic. If one step
  changes the identity of a stored entry that had one, that step replaced the entry:
  it was an open or rotation event for the same key, or it recorded a rotation under
  that very key.
\<close>

lemma identity_sticky:
  assumes "reachable m" and "table m k = Some e" and "en_Identity e \<noteq> []"
    and "table (map_input_step m i) k = Some e'" and "en_Identity e' \<noteq> en_Identity e"
  shows "\<exists>wall ev. i = Event wall ev
     \<and> (eventKey ev = k \<and> (ev_EventType ev = CONNECTION_OPEN \<or> is_rotation (ev_EventType ev))
        \<or> ev_EventType ev = DATA_EXCHANGE \<and> syntheticKey ev (eventTime wall ev) = k)"
proof (cases i)
  case (Event wall ev)
  from table_HandleEvent [OF reachable_inv [OF assms(1)]] obtain v where
    "table (HandleEvent m wall ev) = spec_event v (rotation_status m wall ev (eventTime wall ev))
       (eventTime wall ev) ev (table m)" by blast
  with assms show ?thesis
    by (cases "ev_EventType ev")
       (auto simp: Event spec_event_def Let_def split: option.splits if_splits)
next
  case (Tick now)
  with assms show ?thesis
    by (auto simp: table_Sweep [OF reachable_inv [OF assms(1)]] sweep_entry_def split: if_splits)
qed

lemma entries_open_twice:
  "entries (HandleEvent (HandleEvent (NewMap ttl) w (ev_open i t)) w' (ev_open j u))
     = [(''n1|10.0.0.1:80|10.0.0.2:443|tcp'', openEntry (ev_open j u) u)]"
proof -
  have "maxEntries (HandleEvent (NewMap ttl) w (ev_open i t)) = 100000"
    using maxEntries_step [of "NewMap ttl" "Event w (ev_open i t)"] by (simp add: NewMap_def DefaultMaxEntries_def)
  then show ?thesis
    using entries_open_new [of ttl w i t]
    by (simp add: HandleEvent_def [of _ w'] handleOpen_def [of _ "ev_open j u"] Let_def split_beta)
qed

end
