(* ===== verification/Session_Concurrent.thy ===== *)
theory Session_Concurrent
  imports Session_Spec
begin

text \<open>
  The session map under concurrent calls (\<^verbatim>\<open>internal/session/map.go\<close>). The entries of the
  table are pointers, and \<^verbatim>\<open>HandleEvent\<close> gives up the lock around the calls of the trackers
  while it keeps a pointer. Here the entries live in a heap, a call is a sequence of
  segments, each of which runs under one lock, and calls, sweeps and the order of the
  table interleave in the step relation \<open>interleave\<close>. One segment reads the fields of an
  entry without a lock (line 182); it is modelled as a single step, the strings it reads
  are not torn.
\<close>

section \<open>Shared state\<close>

record Shared =
  sh_table :: "(string \<times> nat) list"
  sh_heap :: "Entry list"
  sh_staleTTL :: duration
  sh_maxEntries :: int
  sh_rotation :: RotationTracker
  sh_profiles :: ProfileTracker

text \<open>The map of the sequential model that a shared state stands for.\<close>

definition view :: "Shared \<Rightarrow> SessionMap" where
  "view s = \<lparr>entries = map (\<lambda>(k, a). (k, sh_heap s ! a)) (sh_table s), staleTTL = sh_staleTTL s,
     maxEntries = sh_maxEntries s, rotation = sh_rotation s, profiles = sh_profiles s\<rparr>"

definition new_shared :: "duration \<Rightarrow> Shared" where
  "new_shared ttl = \<lparr>sh_table = [], sh_heap = [], sh_staleTTL = ttl, sh_maxEntries = DefaultMaxEntries,
     sh_rotation = NewRotationTracker, sh_profiles = NewProfileTracker\<rparr>"

text \<open>The three ways the code changes the table: a new object, a write through a pointer, a loop over all entries.\<close>

definition put_entry :: "string \<Rightarrow> Entry \<Rightarrow> Shared \<Rightarrow> Shared" where
  "put_entry k e s = s\<lparr>sh_heap := sh_heap s @ [e], sh_table := AList.update k (length (sh_heap s)) (sh_table s)\<rparr>"

definition store :: "nat \<Rightarrow> (Entry \<Rightarrow> Entry) \<Rightarrow> Shared \<Rightarrow> Shared" where
  "store a f s = s\<lparr>sh_heap := (sh_heap s)[a := f (sh_heap s ! a)]\<rparr>"

definition write_all :: "(Entry \<Rightarrow> Entry) \<Rightarrow> Shared \<Rightarrow> Shared" where
  "write_all f s = s\<lparr>sh_heap := fold (\<lambda>(k, a) h. h[a := f (h ! a)]) (sh_table s) (sh_heap s)\<rparr>"

definition shared_evictOldest :: "Shared \<Rightarrow> Shared" where
  "shared_evictOldest s =
     (let es = entries (view s);
          (k1, t1) = evict_scan stale_or_closed ([], zero_time) es;
          (k2, t2) = (if k1 = [] then evict_scan (\<lambda>_. True) (k1, t1) es else (k1, t1))
      in if k2 \<noteq> [] then s\<lparr>sh_table := AList.delete k2 (sh_table s)\<rparr> else s)"

definition shared_markStale :: "Shared \<Rightarrow> string \<Rightarrow> Shared" where
  "shared_markStale s nodeID =
     write_all (\<lambda>e. if en_NodeID e = nodeID \<and> en_Status e = ''active'' then e\<lparr>en_Status := ''stale''\<rparr> else e) s"

definition shared_Sweep :: "Shared \<Rightarrow> time \<Rightarrow> Shared" where
  "shared_Sweep s now =
     (let swept = sweep_entry (now + wrap64 (- sh_staleTTL s)) (now + wrap64 (- 2 * sh_staleTTL s)) in
      write_all (\<lambda>e. case swept e of None \<Rightarrow> e | Some e1 \<Rightarrow> e1)
        (s\<lparr>sh_table := filter (\<lambda>(k, a). swept (sh_heap s ! a) \<noteq> None) (sh_table s)\<rparr>))"

section \<open>Calls\<close>

text \<open>
  Where a call of \<^verbatim>\<open>HandleEvent\<close> is, with its local variables: before it takes the lock,
  before and after \<^verbatim>\<open>Track\<close>, before it reads the arguments of \<^verbatim>\<open>Observe\<close>, before \<^verbatim>\<open>Observe\<close>,
  and returned. A number is the pointer to the entry.
\<close>

datatype thread =
    Call time ReflectorEvent
  | Tracking nat time ReflectorEvent time
  | Tracked nat ReflectorEvent time RotationClass
  | Reading nat ReflectorEvent time
  | Observing string string string ReflectorEvent time
  | Done

definition open_segment :: "Shared \<Rightarrow> ReflectorEvent \<Rightarrow> time \<Rightarrow> Shared \<times> thread" where
  "open_segment s ev now =
     (let (ident, idType) = pickIdentity ev;
          s1 = (if sh_maxEntries s > 0 \<and> int (length (sh_table s)) \<ge> sh_maxEntries s
                then shared_evictOldest s else s)
      in (put_entry (eventKey ev) (openEntry ev now) s1,
          if ident \<noteq> [] \<and> idType = ''spiffe''
          then Observing ident (ev_DestAddr ev) (ev_McpToolName ev) ev now else Done))"

definition close_segment :: "Shared \<Rightarrow> ReflectorEvent \<Rightarrow> time \<Rightarrow> Shared \<times> thread" where
  "close_segment s ev now =
     (case map_of (sh_table s) (eventKey ev) of None \<Rightarrow> (s, Done)
      | Some a \<Rightarrow> (store a (\<lambda>e. e\<lparr>en_Status := ''closed'', en_LastSeen := now, en_BytesTx := ev_BytesTx ev,
             en_BytesRx := ev_BytesRx ev\<rparr>) s, Done))"

text \<open>The end of the data case: the Boundary token, and whether the profile is fed.\<close>

definition data_end :: "Shared \<Rightarrow> nat \<Rightarrow> ReflectorEvent \<Rightarrow> time \<Rightarrow> Shared \<times> thread" where
  "data_end s a ev now =
     (let s1 = store a (\<lambda>e. boundaryUpdate e ev) s
      in (s1, if en_Identity (sh_heap s1 ! a) \<noteq> [] then Reading a ev now else Done))"

definition data_segment :: "Shared \<Rightarrow> time \<Rightarrow> ReflectorEvent \<Rightarrow> time \<Rightarrow> Shared \<times> thread" where
  "data_segment s wall ev now =
     (case map_of (sh_table s) (eventKey ev) of None \<Rightarrow> (s, Done)
      | Some a \<Rightarrow>
        let s1 = store a (\<lambda>e. dataUpdate e ev now) s
        in if ev_IdentityType ev = SPIFFE \<and> ev_CertSerial ev \<noteq> [] then (s1, Tracking a wall ev now)
           else data_end s1 a ev now)"

definition rotation_segment :: "Shared \<Rightarrow> ReflectorEvent \<Rightarrow> time \<Rightarrow> Shared \<times> thread" where
  "rotation_segment s ev now =
     (put_entry (eventKey ev)
        ((rotationEntry ev now (rotationEventStatus (ev_EventType ev)))\<lparr>en_PrevCertSerial := ev_PrevCertSerial ev\<rparr>) s,
      Done)"

definition first_segment :: "Shared \<Rightarrow> time \<Rightarrow> ReflectorEvent \<Rightarrow> Shared \<times> thread" where
  "first_segment s wall ev =
     (if ev_EventType ev = STREAM_RESUMED then (shared_markStale s (ev_NodeId ev), Done)
      else let now = eventTime wall ev in
        case ev_EventType ev of
          CONNECTION_OPEN \<Rightarrow> open_segment s ev now
        | CONNECTION_CLOSE \<Rightarrow> close_segment s ev now
        | DATA_EXCHANGE \<Rightarrow> data_segment s wall ev now
        | CERT_ROTATION_NORMAL \<Rightarrow> rotation_segment s ev now
        | CERT_ROTATION_EARLY \<Rightarrow> rotation_segment s ev now
        | CERT_ROTATION_ISSUER \<Rightarrow> rotation_segment s ev now
        | CERT_ROTATION_DOMAIN \<Rightarrow> rotation_segment s ev now
        | _ \<Rightarrow> (s, Done))"

text \<open>What \<^verbatim>\<open>trackCertRotation\<close> does when it has the lock again.\<close>

definition record_rotation :: "Shared \<Rightarrow> ReflectorEvent \<Rightarrow> time \<Rightarrow> RotationClass \<Rightarrow> Shared" where
  "record_rotation s ev now class =
     (if class = RotationFirstSeen then s
      else put_entry (syntheticKey ev now)
             (rotationEntry ev now (rotationEventStatus (rotationClassToEventType class))) s)"

fun advance :: "Shared \<times> thread \<Rightarrow> Shared \<times> thread" where
  "advance (s, Call wall ev) = first_segment s wall ev"
| "advance (s, Tracking a wall ev now) =
     (let (class, rot) = Track (sh_rotation s) wall (ev_SourceIdentity ev) (certObservation ev now)
      in (s\<lparr>sh_rotation := rot\<rparr>, Tracked a ev now class))"
| "advance (s, Tracked a ev now class) =
     data_end (record_rotation s ev now class) a ev now"
| "advance (s, Reading a ev now) =
     (let e = sh_heap s ! a in (s, Observing (en_Identity e) (en_DestAddr e) (en_MCPTool e) ev now))"
| "advance (s, Observing ident dest tool ev now) =
     (s\<lparr>sh_profiles := Observe (sh_profiles s) ident dest tool (ev_BytesTx ev) (ev_BytesRx ev) now\<rparr>, Done)"
| "advance (s, Done) = (s, Done)"

text \<open>The steps of the process: a call starts, some call makes its next step, a sweep, a new order of the table.\<close>

inductive interleave :: "Shared \<times> thread list \<Rightarrow> Shared \<times> thread list \<Rightarrow> bool" where
  Start: "interleave (s, ts) (s, ts @ [Call wall ev])"
| Advance: "i < length ts \<Longrightarrow> advance (s, ts ! i) = (s1, t) \<Longrightarrow> interleave (s, ts) (s1, ts[i := t])"
| Sweeping: "interleave (s, ts) (shared_Sweep s now, ts)"
| Reorder: "mset es = mset (sh_table s) \<Longrightarrow> interleave (s, ts) (s\<lparr>sh_table := es\<rparr>, ts)"

inductive_cases interleaveE: "interleave c c1"

section \<open>Pointers and the view\<close>

definition addresses :: "Shared \<Rightarrow> nat list" where
  "addresses s = map snd (sh_table s)"

text \<open>No two keys share an entry, and every pointer of the table leads to one.\<close>

definition pointers_ok :: "Shared \<Rightarrow> bool" where
  "pointers_ok s \<longleftrightarrow> distinct (map fst (sh_table s)) \<and> distinct (addresses s)
     \<and> (\<forall>a \<in> set (addresses s). a < length (sh_heap s))"

lemma map_update_values:
  "map (\<lambda>(k, a). (k, g a)) (AList.update k a xs) = AList.update k (g a) (map (\<lambda>(k, a). (k, g a)) xs)"
  by (induction xs) auto

lemma map_delete_values:
  "map (\<lambda>(k, a). (k, g a)) (AList.delete k xs) = AList.delete k (map (\<lambda>(k, a). (k, g a)) xs)"
  by (induction xs) (auto simp: AList.delete_eq)

lemma keys_view [simp]: "map fst (entries (view s)) = map fst (sh_table s)"
  by (simp add: view_def comp_def split_beta)

lemma length_view [simp]: "length (entries (view s)) = length (sh_table s)"
  by (simp add: view_def)

lemma lookup_view: "map_of (entries (view s)) k = map_option (\<lambda>a. sh_heap s ! a) (map_of (sh_table s) k)"
  by (simp add: view_def map_of_map)

lemma view_fields [simp]:
  "staleTTL (view s) = sh_staleTTL s" "maxEntries (view s) = sh_maxEntries s"
  "rotation (view s) = sh_rotation s" "profiles (view s) = sh_profiles s"
  by (simp_all add: view_def)

lemma view_trackers [simp]:
  "view (s\<lparr>sh_rotation := r\<rparr>) = (view s)\<lparr>rotation := r\<rparr>"
  "view (s\<lparr>sh_profiles := p\<rparr>) = (view s)\<lparr>profiles := p\<rparr>"
  by (simp_all add: view_def)

lemma pointer_valid: "pointers_ok s \<Longrightarrow> map_of (sh_table s) k = Some a \<Longrightarrow> a < length (sh_heap s)"
  by (force simp: pointers_ok_def addresses_def dest: map_of_SomeD)

text \<open>What each kind of change is on the view.\<close>

lemma view_put:
  assumes "pointers_ok s"
  shows "view (put_entry k e s) = (view s)\<lparr>entries := AList.update k e (entries (view s))\<rparr>"
proof -
  have "map (\<lambda>(k, a). (k, (sh_heap s @ [e]) ! a)) (sh_table s) = map (\<lambda>(k, a). (k, sh_heap s ! a)) (sh_table s)"
    using assms by (auto simp: pointers_ok_def addresses_def nth_append)
  then show ?thesis
    using map_update_values [of "\<lambda>a. (sh_heap s @ [e]) ! a" k "length (sh_heap s)" "sh_table s"]
    by (simp add: view_def put_entry_def del: map_eq_conv)
qed

lemma update_at:
  "distinct (map fst xs) \<Longrightarrow> distinct (map snd xs) \<Longrightarrow> map_of xs k = Some a \<Longrightarrow>
   map (\<lambda>(k, b). (k, if b = a then v else g b)) xs = AList.update k v (map (\<lambda>(k, b). (k, g b)) xs)"
proof (induction xs)
  case (Cons x xs)
  show ?case
  proof (cases "fst x = k")
    case True
    then have "snd x = a" using Cons.prems(3) by (cases x) simp
    then have "(k1, b) \<in> set xs \<Longrightarrow> b \<noteq> a" for k1 b using Cons.prems(2)
      by (metis distinct.simps(2) image_eqI list.simps(9) set_map snd_conv)
    with True \<open>snd x = a\<close> show ?thesis by (cases x) auto
  next
    case False
    then have m: "map_of xs k = Some a" using Cons.prems(3) by (cases x) auto
    then have "snd x \<noteq> a" using Cons.prems(2) map_of_SomeD [OF m]
      by (metis distinct.simps(2) image_eqI list.simps(9) set_map snd_conv)
    with False Cons.IH [OF _ _ m] Cons.prems(1,2) show ?thesis by (cases x) simp
  qed
qed simp

lemma view_write:
  assumes "pointers_ok s" "map_of (sh_table s) k = Some a"
  shows "view (store a f s) = (view s)\<lparr>entries := AList.update k (f (sh_heap s ! a)) (entries (view s))\<rparr>"
proof -
  have "map (\<lambda>(k, b). (k, (sh_heap s)[a := f (sh_heap s ! a)] ! b)) (sh_table s)
      = map (\<lambda>(k, b). (k, if b = a then f (sh_heap s ! a) else sh_heap s ! b)) (sh_table s)"
    using pointer_valid [OF assms] by (auto simp: nth_list_update)
  with update_at [of "sh_table s" k a "f (sh_heap s ! a)" "\<lambda>b. sh_heap s ! b"] assms
  show ?thesis by (simp add: view_def store_def pointers_ok_def addresses_def)
qed

lemma view_write_detached:
  assumes "a \<notin> set (addresses s)"
  shows "view (store a f s) = view s"
proof -
  have "(k, b) \<in> set (sh_table s) \<Longrightarrow> b \<noteq> a" for k b using assms by (force simp: addresses_def)
  then have "(k, b) \<in> set (sh_table s) \<Longrightarrow> (sh_heap s)[a := e] ! b = sh_heap s ! b" for k b e
    by (metis nth_list_update_neq)
  then show ?thesis by (auto simp: view_def store_def)
qed

lemma fold_write:
  "distinct (map snd xs) \<Longrightarrow> \<forall>a \<in> set (map snd xs). a < length h \<Longrightarrow>
   length (fold (\<lambda>(k, a) h. h[a := f (h ! a)]) xs h) = length h
   \<and> (\<forall>b < length h. fold (\<lambda>(k, a) h. h[a := f (h ! a)]) xs h ! b
        = (if b \<in> set (map snd xs) then f (h ! b) else h ! b))"
proof (induction xs arbitrary: h)
  case (Cons x xs)
  from Cons.IH [of "h[snd x := f (h ! snd x)]"] Cons.prems show ?case
    by (cases x) (auto simp: nth_list_update)
qed simp

lemma heap_write_all:
  assumes "pointers_ok s"
  shows "length (sh_heap (write_all f s)) = length (sh_heap s)"
    and "b < length (sh_heap s) \<Longrightarrow> sh_heap (write_all f s) ! b
       = (if b \<in> set (addresses s) then f (sh_heap s ! b) else sh_heap s ! b)"
  using fold_write [of "sh_table s" "sh_heap s" f] assms
  by (auto simp: write_all_def pointers_ok_def addresses_def)

lemma view_write_all:
  assumes "pointers_ok s"
  shows "view (write_all f s) = (view s)\<lparr>entries := map (\<lambda>(k, e). (k, f e)) (entries (view s))\<rparr>"
proof -
  have "(k, a) \<in> set (sh_table s) \<Longrightarrow> sh_heap (write_all f s) ! a = f (sh_heap s ! a)" for k a
    using assms heap_write_all(2) [OF assms, of a f]
    by (force simp: pointers_ok_def addresses_def)
  then have "map (\<lambda>(k, a). (k, sh_heap (write_all f s) ! a)) (sh_table s)
      = map (\<lambda>(k, e). (k, f e)) (map (\<lambda>(k, a). (k, sh_heap s ! a)) (sh_table s))" by auto
  then show ?thesis by (simp add: view_def write_all_def)
qed

lemma view_evict: "view (shared_evictOldest s) = evictOldest (view s)"
  using map_delete_values [of "\<lambda>a. sh_heap s ! a" _ "sh_table s"]
  by (auto simp: shared_evictOldest_def evictOldest_def view_def Let_def split: prod.splits)

lemma view_markStale: "pointers_ok s \<Longrightarrow> view (shared_markStale s n) = markStaleFromNode (view s) n"
  by (simp add: shared_markStale_def markStaleFromNode_def view_write_all)

lemma pointers_restrict: "pointers_ok s \<Longrightarrow> pointers_ok (s\<lparr>sh_table := filter P (sh_table s)\<rparr>)"
  by (auto simp: pointers_ok_def addresses_def distinct_map_filter)

lemma view_Sweep:
  assumes "pointers_ok s"
  shows "view (shared_Sweep s now) = Sweep (view s) now"
proof -
  define swept where "swept = sweep_entry (now + wrap64 (- sh_staleTTL s)) (now + wrap64 (- 2 * sh_staleTTL s))"
  define s1 where "s1 = s\<lparr>sh_table := filter (\<lambda>(k, a). swept (sh_heap s ! a) \<noteq> None) (sh_table s)\<rparr>"
  have "map (\<lambda>(k, e). (k, case swept e of None \<Rightarrow> e | Some e1 \<Rightarrow> e1)) (entries (view s1))
      = List.map_filter (\<lambda>(k, e). map_option (Pair k) (swept e)) (entries (view s))"
    by (auto simp: view_def s1_def List.map_filter_def filter_map comp_def split_beta' intro!: map_cong)
  moreover have "pointers_ok s1" unfolding s1_def by (rule pointers_restrict [OF assms])
  note view_write_all [OF this, of "\<lambda>e. case swept e of None \<Rightarrow> e | Some e1 \<Rightarrow> e1"]
  moreover have "view s1 = (view s)\<lparr>entries := entries (view s1)\<rparr>" by (simp add: view_def s1_def)
  moreover have "shared_Sweep s now = write_all (\<lambda>e. case swept e of None \<Rightarrow> e | Some e1 \<Rightarrow> e1) s1"
    unfolding shared_Sweep_def swept_def s1_def Let_def ..
  moreover have "Sweep (view s) now
      = (view s)\<lparr>entries := List.map_filter (\<lambda>(k, e). map_option (Pair k) (swept e)) (entries (view s))\<rparr>"
    unfolding Sweep_def swept_def Let_def by simp
  ultimately show ?thesis by (metis (no_types, lifting) SessionMap.update_convs(1) SessionMap.surjective)
qed


section \<open>A call that runs alone\<close>

lemma snd_update: "set (map snd (AList.update k a xs)) \<subseteq> insert a (set (map snd xs))"
  by (induction xs) auto

lemma distinct_snd_update:
  "distinct (map snd xs) \<Longrightarrow> a \<notin> set (map snd xs) \<Longrightarrow> distinct (map snd (AList.update k a xs))"
proof (induction xs)
  case (Cons x xs)
  have "snd x \<noteq> a" "snd x \<notin> set (map snd xs)" using Cons.prems by auto
  then have "snd x \<notin> set (map snd (AList.update k a xs))" using snd_update [of k a xs] by blast
  with Cons show ?case by (cases x) simp
qed simp

lemma pointers_put:
  assumes "pointers_ok s"
  shows "pointers_ok (put_entry k e s)"
proof -
  let ?a = "length (sh_heap s)"
  have "?a \<notin> set (map snd (sh_table s))" using assms by (auto simp: pointers_ok_def addresses_def)
  then have "distinct (map snd (AList.update k ?a (sh_table s)))"
    using assms by (intro distinct_snd_update) (simp_all add: pointers_ok_def addresses_def)
  moreover have "b < Suc ?a" if "b \<in> set (map snd (AList.update k ?a (sh_table s)))" for b
    using subsetD [OF snd_update that] assms by (auto simp: pointers_ok_def addresses_def less_SucI)
  ultimately show ?thesis
    using assms unfolding pointers_ok_def addresses_def put_entry_def by (simp add: distinct_update)
qed

lemma addresses_simps [simp]:
  "addresses (store a f s) = addresses s" "addresses (write_all f s) = addresses s"
  "addresses (s\<lparr>sh_rotation := r\<rparr>) = addresses s" "addresses (s\<lparr>sh_profiles := p\<rparr>) = addresses s"
  by (simp_all add: addresses_def store_def write_all_def)

lemma table_simps [simp]:
  "sh_table (store a f s) = sh_table s" "sh_table (write_all f s) = sh_table s"
  "sh_table (put_entry k e s) = AList.update k (length (sh_heap s)) (sh_table s)"
  by (simp_all add: store_def write_all_def put_entry_def)

lemma heap_simps [simp]:
  "length (sh_heap (store a f s)) = length (sh_heap s)"
  "a < length (sh_heap s) \<Longrightarrow> sh_heap (store a f s) ! a = f (sh_heap s ! a)"
  "sh_heap (put_entry k e s) = sh_heap s @ [e]"
  by (simp_all add: store_def put_entry_def)

lemma pointers_simps [simp]:
  "pointers_ok (store a f s) = pointers_ok s"
  "pointers_ok (s\<lparr>sh_rotation := r\<rparr>) = pointers_ok s" "pointers_ok (s\<lparr>sh_profiles := p\<rparr>) = pointers_ok s"
  by (simp_all add: pointers_ok_def)

lemma advance_Done [simp]: "(advance ^^ n) (s, Done) = (s, Done)"
  by (induction n) simp_all

lemma steps_Suc: "(advance ^^ Suc n) c = (advance ^^ n) (advance c)"
  by (simp add: funpow_swap1)

text \<open>
  The rest of the data case, on the view, for a pointer that the table has under the key
  \<open>k\<close> or that it has no more.
\<close>

definition data_rest :: "SessionMap \<Rightarrow> Entry \<Rightarrow> ReflectorEvent \<Rightarrow> time \<Rightarrow> SessionMap" where
  "data_rest m e ev now =
     (if en_Identity e \<noteq> []
      then observeProfile m (en_Identity e) (en_DestAddr e) (en_MCPTool e) (ev_BytesTx ev) (ev_BytesRx ev) now
      else m)"

lemma data_end_alone:
  assumes "a < length (sh_heap s)" "e = boundaryUpdate (sh_heap s ! a) ev"
    "view (store a (\<lambda>e. boundaryUpdate e ev) s) = m"
  shows "\<exists>s1. (advance ^^ Suc (Suc n)) (data_end s a ev now) = (s1, Done) \<and> view s1 = data_rest m e ev now"
  using assms
  by (auto simp: data_end_def Let_def steps_Suc data_rest_def observeProfile_def simp del: funpow.simps)

lemma pointer_inj:
  assumes "pointers_ok s" "map_of (sh_table s) k = Some a" "map_of (sh_table s) k1 = Some a"
  shows "k = k1"
proof -
  have "inj_on snd (set (sh_table s))" using assms(1) by (simp add: pointers_ok_def addresses_def distinct_map)
  from inj_onD [OF this, of "(k, a)" "(k1, a)"] assms(2,3) show ?thesis by (simp add: map_of_SomeD)
qed

text \<open>A new object under the key of an entry leaves the pointer to the old one detached.\<close>

lemma put_detaches:
  assumes ok: "pointers_ok s" and a: "map_of (sh_table s) k = Some a"
  shows "a \<notin> set (addresses (put_entry k e s))"
proof
  assume "a \<in> set (addresses (put_entry k e s))"
  then obtain k1 where "(k1, a) \<in> set (sh_table (put_entry k e s))" by (auto simp: addresses_def)
  then have k1: "map_of (sh_table (put_entry k e s)) k1 = Some a"
    using pointers_put [OF ok, of k e] unfolding pointers_ok_def by (simp del: table_simps)
  show False
  proof (cases "k1 = k")
    case True
    with k1 pointer_valid [OF ok a] show False by (simp add: update_conv)
  next
    case False
    with k1 have "map_of (sh_table s) k1 = Some a" by (simp add: update_conv)
    with pointer_inj [OF ok a] False show False by blast
  qed
qed

lemma view_record:
  assumes ok: "pointers_ok s" and a: "map_of (sh_table s) k = Some a" "sh_heap s ! a = e"
    and s1: "s1 = record_rotation s ev now class"
    and stored: "stored = (if class = RotationFirstSeen then None else Some (syntheticKey ev now))"
  shows "view (store a f s1)
     = (if stored = Some k then view s1 else (view s1)\<lparr>entries := AList.update k (f e) (entries (view s1))\<rparr>)"
    and "sh_heap s1 ! a = e" "a < length (sh_heap s1)"
proof -
  show e: "sh_heap s1 ! a = e" "a < length (sh_heap s1)"
    using pointer_valid [OF ok a(1)] a(2) by (auto simp: s1 record_rotation_def nth_append)
  have ok1: "pointers_ok s1" using ok pointers_put by (simp add: s1 record_rotation_def)
  show "view (store a f s1)
     = (if stored = Some k then view s1 else (view s1)\<lparr>entries := AList.update k (f e) (entries (view s1))\<rparr>)"
  proof (cases "stored = Some k")
    case True
    then have "a \<notin> set (addresses s1)"
      using put_detaches [OF ok a(1)] by (auto simp: s1 stored record_rotation_def split: if_splits)
    from view_write_detached [OF this] True show ?thesis by simp
  next
    case False
    then have "map_of (sh_table s1) k = Some a"
      using a(1) by (auto simp: s1 stored record_rotation_def update_conv)
    from view_write [OF ok1 this] False e(1) show ?thesis by simp
  qed
qed

lemma data_alone:
  assumes ok: "pointers_ok s"
  shows "\<exists>s1. (advance ^^ 4) (data_segment s wall ev now) = (s1, Done) \<and> view s1 = handleData (view s) wall ev now"
proof (cases "map_of (sh_table s) (eventKey ev)")
  case None
  then show ?thesis by (simp add: data_segment_def handleData_def lookup_view)
next
  case (Some a)
  let ?k = "eventKey ev"
  define e1 where "e1 = dataUpdate (sh_heap s ! a) ev now"
  define s1 where "s1 = store a (\<lambda>e. dataUpdate e ev now) s"
  define m1 where "m1 = (view s)\<lparr>entries := AList.update ?k e1 (entries (view s))\<rparr>"
  let ?e2 = "boundaryUpdate e1 ev"
  have v1: "view s1 = m1" using view_write [OF ok Some] by (simp add: s1_def m1_def e1_def)
  have ok1: "pointers_ok s1" and h1: "sh_heap s1 ! a = e1" "a < length (sh_heap s1)"
    and t1: "map_of (sh_table s1) ?k = Some a"
    using ok pointer_valid [OF ok Some] Some by (simp_all add: s1_def e1_def)
  have handle: "handleData (view s) wall ev now = data_rest
      (if stored = Some ?k then m2 else m2\<lparr>entries := AList.update ?k ?e2 (entries m2)\<rparr>) ?e2 ev now"
    if "(m2, stored) = (if ev_IdentityType ev = SPIFFE \<and> ev_CertSerial ev \<noteq> []
          then trackCertRotation m1 wall ev now else (m1, None))" for m2 stored
    unfolding handleData_def using Some that [symmetric]
    by (auto simp: lookup_view e1_def [symmetric] m1_def [symmetric] data_rest_def Let_def)
  have four: "(4 :: nat) = Suc (Suc 2)" "(2 :: nat) = Suc (Suc 0)" by simp_all
  show ?thesis
  proof (cases "ev_IdentityType ev = SPIFFE \<and> ev_CertSerial ev \<noteq> []")
    case False
    have v2: "view (store a (\<lambda>e. boundaryUpdate e ev) s1) = m1\<lparr>entries := AList.update ?k ?e2 (entries m1)\<rparr>"
      using view_write [OF ok1 t1] by (simp add: v1 h1)
    have "data_segment s wall ev now = data_end s1 a ev now"
      unfolding data_segment_def using False Some by (auto simp: s1_def Let_def)
    with data_end_alone [OF h1(2) refl v2, where n = 2 and now = now] show ?thesis
      using handle [of m1 None] False unfolding h1(1) four(1) by auto
  next
    case True
    obtain c r where T: "Track (sh_rotation s1) wall (ev_SourceIdentity ev) (certObservation ev now) = (c, r)"
      by (cases "Track (sh_rotation s1) wall (ev_SourceIdentity ev) (certObservation ev now)")
    define s2 where "s2 = s1\<lparr>sh_rotation := r\<rparr>"
    define s3 where "s3 = record_rotation s2 ev now c"
    define stored where "stored = (if c = RotationFirstSeen then None else Some (syntheticKey ev now))"
    have s2: "pointers_ok s2" "map_of (sh_table s2) ?k = Some a" "sh_heap s2 ! a = e1"
      using ok1 t1 h1 by (simp_all add: s2_def)
    note rec = view_record [OF s2 s3_def stored_def]
    have "trackCertRotation m1 wall ev now = (view s3, stored)"
      using T view_put [OF s2(1)] v1 [symmetric]
      by (simp add: trackCertRotation_def s3_def record_rotation_def stored_def s2_def)
    moreover have "(advance ^^ 4) (data_segment s wall ev now) = (advance ^^ 2) (data_end s3 a ev now)"
      unfolding four(1) steps_Suc using Some True T by (simp add: data_segment_def s1_def [symmetric] s2_def s3_def)
    moreover note data_end_alone [OF rec(3) refl rec(1) [where f = "\<lambda>e. boundaryUpdate e ev"], where n = 0 and now = now]
    ultimately show ?thesis using handle [of "view s3" stored] True unfolding rec(2) four(2) by simp
  qed
qed

lemma open_alone:
  assumes "pointers_ok s"
  shows "\<exists>s1. (advance ^^ 4) (open_segment s ev now) = (s1, Done) \<and> view s1 = handleOpen (view s) ev now"
proof -
  define s1 where "s1 = (if sh_maxEntries s > 0 \<and> int (length (sh_table s)) \<ge> sh_maxEntries s
    then shared_evictOldest s else s)"
  have "pointers_ok s1"
    using assms
    by (auto simp: s1_def shared_evictOldest_def pointers_ok_def addresses_def AList.delete_eq distinct_map_filter Let_def
        split: prod.splits)
  then have v2: "view (put_entry k e s1) = (view s1)\<lparr>entries := AList.update k e (entries (view s1))\<rparr>" for k e
    by (rule view_put)
  have v1: "view s1 = (if maxEntries (view s) > 0 \<and> int (length (entries (view s))) \<ge> maxEntries (view s)
    then evictOldest (view s) else view s)" by (simp add: s1_def view_evict)
  have "handleOpen (view s) ev now =
     (let m2 = view (put_entry (eventKey ev) (openEntry ev now) s1) in
      if fst (pickIdentity ev) \<noteq> [] \<and> snd (pickIdentity ev) = ''spiffe''
      then observeProfile m2 (fst (pickIdentity ev)) (ev_DestAddr ev) (ev_McpToolName ev) (ev_BytesTx ev) (ev_BytesRx ev) now
      else m2)"
    unfolding handleOpen_def v2 v1 [symmetric] Let_def split_beta by simp
  then show ?thesis
    by (simp add: open_segment_def s1_def [symmetric] observeProfile_def numeral_eq_Suc steps_Suc split_beta Let_def
        del: funpow.simps)
qed

lemma call_alone:
  assumes "pointers_ok s"
  shows "\<exists>s1. (advance ^^ 5) (s, Call wall ev) = (s1, Done) \<and> view s1 = HandleEvent (view s) wall ev"
proof -
  have five: "(advance ^^ 5) (s, Call wall ev) = (advance ^^ 4) (first_segment s wall ev)"
    using steps_Suc [of 4 "(s, Call wall ev)"] by simp
  have close: "\<exists>s1. (advance ^^ 4) (close_segment s ev now) = (s1, Done) \<and> view s1 = handleClose (view s) ev now" for now
    using view_write [OF assms, of "eventKey ev"]
    by (cases "map_of (sh_table s) (eventKey ev)")
       (simp_all add: close_segment_def handleClose_def lookup_view)
  have rot: "\<exists>s1. (advance ^^ 4) (rotation_segment s ev now) = (s1, Done) \<and> view s1 = handleRotation (view s) ev now" for now
    using view_put [OF assms] by (simp add: rotation_segment_def handleRotation_def)
  show ?thesis
    unfolding five
    using open_alone [OF assms] data_alone [OF assms] close rot view_markStale [OF assms]
    by (simp add: first_segment_def HandleEvent_def Let_def split: EventType.split)
qed

text \<open>
  Property C8: the segments compose to the sequential handler. A call of \<^verbatim>\<open>HandleEvent\<close>
  that no other call interrupts returns after at most five segments, and the table,
  the rotation tracker and the profiles are then those of the sequential model. This
  includes the case that the entry of a rotation replaces the very entry whose pointer
  the call holds.
\<close>

theorem uninterrupted_call:
  assumes "pointers_ok s"
  shows "\<exists>s1. (advance ^^ 5) (s, Call wall ev) = (s1, Done) \<and> view s1 = HandleEvent (view s) wall ev"
  by (rule call_alone [OF assms])

theorem uninterrupted_call_witness:
  "\<exists>s1. (advance ^^ 5) (new_shared 60, Call 0 (ev_open ''alice'' 0)) = (s1, Done)
     \<and> view s1 = HandleEvent (NewMap 60) 0 (ev_open ''alice'' 0)"
proof -
  have "pointers_ok (new_shared 60)" "view (new_shared 60) = NewMap 60"
    by (simp_all add: pointers_ok_def addresses_def new_shared_def view_def NewMap_def)
  with uninterrupted_call [of "new_shared 60" 0 "ev_open ''alice'' 0"] show ?thesis by simp
qed

section \<open>Interference\<close>

text \<open>
  The contract of a process whose steps interfere with each other: an invariant, and a
  relation that every step guarantees to the others and that is closed under further
  steps.
\<close>

locale interference =
  fixes move :: "'c \<Rightarrow> 'c \<Rightarrow> bool" and inv :: "'c \<Rightarrow> bool" and G :: "'c \<Rightarrow> 'c \<Rightarrow> bool"
  assumes inv_move: "inv c \<Longrightarrow> move c c1 \<Longrightarrow> inv c1"
    and G_move: "inv c \<Longrightarrow> move c c1 \<Longrightarrow> G c c1"
    and G_refl: "G c c"
    and G_trans: "G c c1 \<Longrightarrow> G c1 c2 \<Longrightarrow> G c c2"
begin

lemma moves_inv: "move\<^sup>*\<^sup>* c c1 \<Longrightarrow> inv c \<Longrightarrow> inv c1"
  by (induction rule: rtranclp_induct) (auto intro: inv_move)

lemma moves_G: "move\<^sup>*\<^sup>* c c1 \<Longrightarrow> inv c \<Longrightarrow> G c c1"
proof (induction rule: rtranclp_induct)
  case base
  show ?case by (rule G_refl)
next
  case (step c1 c2)
  with moves_inv have "inv c1" by blast
  with step G_move G_trans show ?case by blast
qed

end

text \<open>
  What a holder of a pointer can rely on: addresses, process and first sight of an entry
  never change, and an identity, a tool or a token stays once it is known.
\<close>

definition settled :: "Entry \<Rightarrow> Entry \<Rightarrow> bool" where
  "settled e e1 \<longleftrightarrow> en_NodeID e1 = en_NodeID e \<and> en_SourceAddr e1 = en_SourceAddr e
     \<and> en_DestAddr e1 = en_DestAddr e \<and> en_Protocol e1 = en_Protocol e \<and> en_PID e1 = en_PID e
     \<and> en_FirstSeen e1 = en_FirstSeen e
     \<and> (en_Identity e \<noteq> [] \<longrightarrow> en_Identity e1 = en_Identity e \<and> en_IdentityType e1 = en_IdentityType e)
     \<and> (en_MCPTool e \<noteq> [] \<longrightarrow> en_MCPTool e1 = en_MCPTool e)
     \<and> (en_BoundarySessionToken e \<noteq> [] \<longrightarrow> en_BoundarySessionToken e1 = en_BoundarySessionToken e)
     \<and> (\<forall>k. entry_ok k e \<longrightarrow> entry_ok k e1)"

definition heap_settled :: "Shared \<Rightarrow> Shared \<Rightarrow> bool" where
  "heap_settled s s1 \<longleftrightarrow> length (sh_heap s) \<le> length (sh_heap s1)
     \<and> (\<forall>a < length (sh_heap s). settled (sh_heap s ! a) (sh_heap s1 ! a))"

lemma settled_refl [simp]: "settled e e"
  by (simp add: settled_def)

lemma settled_trans: "settled e e1 \<Longrightarrow> settled e1 e2 \<Longrightarrow> settled e e2"
  by (simp add: settled_def)

lemma settled_data [simp]: "settled e (dataUpdate e ev now)"
  using entry_ok_data [of _ e ev now] by (simp add: settled_def) (simp add: dataUpdate_def Let_def applyOTELFields_def)

lemma settled_boundary [simp]: "settled e (boundaryUpdate e ev)"
  by (simp add: settled_def entry_ok_boundary) (simp add: boundaryUpdate_def)

lemma settled_close [simp]:
  "settled e (e\<lparr>en_Status := ''closed'', en_LastSeen := now, en_BytesTx := tx, en_BytesRx := rx\<rparr>)"
  by (simp add: settled_def entry_ok_def statuses_def)

lemma settled_stale [simp]: "settled e (e\<lparr>en_Status := ''stale''\<rparr>)"
  by (simp add: settled_def entry_ok_def statuses_def)

lemma settled_sweep [simp]: "settled e (case sweep_entry c d e of None \<Rightarrow> e | Some e1 \<Rightarrow> e1)"
  by (simp add: sweep_entry_def)

lemma heap_settled_refl [simp]: "heap_settled s s"
  by (simp add: heap_settled_def)

lemma heap_settled_trans: "heap_settled s s1 \<Longrightarrow> heap_settled s1 s2 \<Longrightarrow> heap_settled s s2"
  unfolding heap_settled_def using settled_trans order_less_le_trans order_trans by meson

lemma heap_settled_same: "sh_heap s1 = sh_heap s \<Longrightarrow> heap_settled s s1"
  by (simp add: heap_settled_def)

lemma heap_settled_put: "heap_settled s (put_entry k e s)"
  by (simp add: heap_settled_def nth_append)

lemma heap_settled_store: "(\<And>e. settled e (f e)) \<Longrightarrow> heap_settled s (store a f s)"
  by (auto simp: heap_settled_def store_def) (metis nth_list_update_eq nth_list_update_neq settled_refl)

lemma heap_settled_write_all:
  "pointers_ok s \<Longrightarrow> (\<And>e. settled e (f e)) \<Longrightarrow> heap_settled s (write_all f s)"
  using heap_write_all [of s] by (simp add: heap_settled_def)

section \<open>The invariant of all interleavings\<close>

text \<open>A call holds a valid pointer, and a call that is about to feed the profile one to an entry with an identity.\<close>

fun thread_ok :: "Shared \<Rightarrow> thread \<Rightarrow> bool" where
  "thread_ok s (Tracking a wall ev now) \<longleftrightarrow> a < length (sh_heap s)"
| "thread_ok s (Tracked a ev now class) \<longleftrightarrow> a < length (sh_heap s)"
| "thread_ok s (Reading a ev now) \<longleftrightarrow> a < length (sh_heap s) \<and> en_Identity (sh_heap s ! a) \<noteq> []"
| "thread_ok s (Observing ident dest tool ev now) \<longleftrightarrow> ident \<noteq> []"
| "thread_ok s _ \<longleftrightarrow> True"

definition shared_ok :: "Shared \<Rightarrow> bool" where
  "shared_ok s \<longleftrightarrow> pointers_ok s \<and> map_inv (view s)"

definition calls_ok :: "Shared \<times> thread list \<Rightarrow> bool" where
  "calls_ok c \<longleftrightarrow> shared_ok (fst c) \<and> list_all (thread_ok (fst c)) (snd c)"

lemma thread_ok_settled: "thread_ok s t \<Longrightarrow> heap_settled s s1 \<Longrightarrow> thread_ok s1 t"
  by (cases t) (auto simp: heap_settled_def settled_def)

lemma shared_ok_put: "shared_ok s \<Longrightarrow> entry_ok k e \<Longrightarrow> shared_ok (put_entry k e s)"
  by (simp add: shared_ok_def pointers_put view_put map_inv_update)

lemma shared_ok_store:
  assumes "shared_ok s" "\<And>e. settled e (f e)"
  shows "shared_ok (store a f s)"
proof (cases "a \<in> set (addresses s)")
  case True
  then obtain k where "(k, a) \<in> set (sh_table s)" by (auto simp: addresses_def)
  then have k: "map_of (sh_table s) k = Some a" using assms(1) by (simp add: shared_ok_def pointers_ok_def)
  moreover from this have "entry_ok k (sh_heap s ! a)"
    using assms(1) map_invD(3) [of "view s" k] by (simp add: shared_ok_def lookup_view)
  ultimately show ?thesis
    using assms view_write [of s k a f] map_inv_update [of "view s" k "f (sh_heap s ! a)"]
    by (simp add: shared_ok_def settled_def)
qed (use assms(1) view_write_detached in \<open>simp add: shared_ok_def\<close>)

lemma shared_ok_write_all:
  assumes "shared_ok s" "\<And>e. settled e (f e)"
  shows "shared_ok (write_all f s)"
proof -
  have "map_inv (view (write_all f s))"
    using assms map_inv_map_values [of "view s" f] by (simp add: shared_ok_def view_write_all settled_def)
  moreover have "pointers_ok (write_all f s)"
    using assms(1) heap_write_all(1) [of s f] by (simp add: shared_ok_def pointers_ok_def)
  ultimately show ?thesis by (simp add: shared_ok_def)
qed

lemma shared_ok_evict: "shared_ok s \<Longrightarrow> shared_ok (shared_evictOldest s)"
  using map_inv_evictOldest [of "view s"]
  by (simp add: shared_ok_def view_evict)
     (auto simp: shared_evictOldest_def pointers_ok_def addresses_def AList.delete_eq distinct_map_filter Let_def
      split: prod.splits)

lemma shared_ok_Sweep: "shared_ok s \<Longrightarrow> shared_ok (shared_Sweep s now)"
proof -
  assume ok: "shared_ok s"
  let ?P = "\<lambda>(k, a). sweep_entry (now + wrap64 (- sh_staleTTL s)) (now + wrap64 (- 2 * sh_staleTTL s)) (sh_heap s ! a) \<noteq> None"
  have p: "pointers_ok (s\<lparr>sh_table := filter ?P (sh_table s)\<rparr>)"
    using ok by (simp add: shared_ok_def pointers_restrict)
  have "pointers_ok (shared_Sweep s now)"
    using p heap_write_all(1) [OF p] unfolding shared_Sweep_def Let_def pointers_ok_def by simp
  then show ?thesis using ok view_Sweep [of s now] map_inv_Sweep by (simp add: shared_ok_def)
qed

lemma shared_ok_Reorder:
  assumes "shared_ok s" "mset es = mset (sh_table s)"
  shows "shared_ok (s\<lparr>sh_table := es\<rparr>)"
proof -
  have "mset (map fst es) = mset (map fst (sh_table s))" "mset (map snd es) = mset (map snd (sh_table s))"
    using assms(2) by simp_all
  then have "pointers_ok (s\<lparr>sh_table := es\<rparr>)"
    using assms(1) mset_eq_imp_distinct_iff mset_eq_setD unfolding shared_ok_def pointers_ok_def addresses_def
    by (metis Shared.ext_inject Shared.surjective Shared.update_convs(1))
  moreover have "view (s\<lparr>sh_table := es\<rparr>) = (view s)\<lparr>entries := map (\<lambda>(k, a). (k, sh_heap s ! a)) es\<rparr>"
    "mset (map (\<lambda>(k, a). (k, sh_heap s ! a)) es) = mset (entries (view s))"
    using assms(2) by (simp_all add: view_def)
  ultimately show ?thesis using assms(1) map_inv_reorder [of "view s"] by (simp add: shared_ok_def)
qed

lemma data_end_ok:
  assumes "shared_ok s" "a < length (sh_heap s)" "data_end s a ev now = (s1, t)"
  shows "shared_ok s1 \<and> heap_settled s s1 \<and> thread_ok s1 t"
proof -
  have "s1 = store a (\<lambda>e. boundaryUpdate e ev) s" "t = (if en_Identity (sh_heap s1 ! a) \<noteq> [] then Reading a ev now else Done)"
    using assms(3) by (auto simp: data_end_def Let_def)
  then show ?thesis using assms(1,2) by (simp add: shared_ok_store heap_settled_store)
qed

lemma record_rotation_ok:
  assumes "shared_ok s"
  shows "shared_ok (record_rotation s ev now class) \<and> heap_settled s (record_rotation s ev now class)"
  using assms by (auto simp: record_rotation_def heap_settled_put
      intro!: shared_ok_put entry_ok_rotation rotationEventStatus_ok)

lemma first_segment_ok:
  assumes ok: "shared_ok s" and step: "first_segment s wall ev = (s1, t)"
  shows "shared_ok s1 \<and> heap_settled s s1 \<and> thread_ok s1 t"
proof -
  define now where "now = eventTime wall ev"
  have p: "pointers_ok s" using ok by (simp add: shared_ok_def)
  have stale: "shared_ok (shared_markStale s n) \<and> heap_settled s (shared_markStale s n)" for n
    using ok p unfolding shared_markStale_def by (intro conjI shared_ok_write_all heap_settled_write_all) auto
  have close: "close_segment s ev now = (s1, t) \<Longrightarrow> ?thesis"
    using ok by (auto simp: close_segment_def shared_ok_store heap_settled_store split: option.splits)
  have rot: "is_rotation (ev_EventType ev) \<Longrightarrow> rotation_segment s ev now = (s1, t) \<Longrightarrow> ?thesis"
    using ok by (auto simp: rotation_segment_def heap_settled_put intro!: shared_ok_put entry_ok_rotation rotationEventStatus_ok(1))
  have data: "data_segment s wall ev now = (s1, t) \<Longrightarrow> ?thesis"
  proof (cases "map_of (sh_table s) (eventKey ev)")
    case (Some a)
    assume step: "data_segment s wall ev now = (s1, t)"
    let ?s = "store a (\<lambda>e. dataUpdate e ev now) s"
    have s: "shared_ok ?s" "heap_settled s ?s" "a < length (sh_heap ?s)"
      using ok pointer_valid [OF p Some] by (simp_all add: shared_ok_store heap_settled_store)
    from step Some data_end_ok [OF s(1,3), of ev now s1 t] s heap_settled_trans show ?thesis
      by (auto simp: data_segment_def Let_def split: if_splits)
  qed (use ok in \<open>simp add: data_segment_def\<close>)
  have opened: "open_segment s ev now = (s1, t) \<Longrightarrow> ?thesis"
  proof -
    assume "open_segment s ev now = (s1, t)"
    moreover have "heap_settled s (shared_evictOldest s)"
      by (rule heap_settled_same) (simp add: shared_evictOldest_def Let_def split_beta)
    ultimately show ?thesis
      using ok shared_ok_evict [OF ok] shared_ok_put [OF _ entry_ok_open] heap_settled_put heap_settled_trans
      by (auto simp: open_segment_def Let_def split: prod.splits if_splits)
  qed
  show ?thesis
    using step stale close rot data opened ok unfolding first_segment_def Let_def now_def [symmetric]
    by (cases "ev_EventType ev") auto
qed

lemma advance_ok:
  assumes "shared_ok s" "thread_ok s t" "advance (s, t) = (s1, t1)"
  shows "shared_ok s1 \<and> heap_settled s s1 \<and> thread_ok s1 t1"
proof (cases t)
  case (Call wall ev)
  with assms first_segment_ok show ?thesis by simp
next
  case (Tracking a wall ev now)
  then show ?thesis
    using assms map_inv_Track [of "view s" wall "ev_SourceIdentity ev" "certObservation ev now"]
    by (auto simp: shared_ok_def intro: heap_settled_same split: prod.splits)
next
  case (Tracked a ev now cl)
  note rec = record_rotation_ok [OF assms(1), of ev now cl]
  then have "a < length (sh_heap (record_rotation s ev now cl))"
    using assms(2) Tracked by (simp add: heap_settled_def)
  from data_end_ok [OF _ this, of ev now s1 t1] rec assms(3) Tracked heap_settled_trans show ?thesis by auto
next
  case (Reading a ev now)
  with assms show ?thesis by (auto simp: Let_def)
next
  case (Observing ident dest tool ev now)
  with assms map_inv_observeProfile [of "view s"] show ?thesis
    by (auto simp: shared_ok_def observeProfile_def intro: heap_settled_same)
next
  case Done
  with assms show ?thesis by simp
qed

lemma calls_move:
  assumes "calls_ok c" "interleave c c1"
  shows "calls_ok c1 \<and> heap_settled (fst c) (fst c1)"
  using assms(2)
proof cases
  case (Start s ts wall ev)
  with assms(1) show ?thesis by (simp add: calls_ok_def)
next
  case (Advance i ts s s1 t)
  then have "thread_ok s (ts ! i)" "shared_ok s" using assms(1) by (simp_all add: calls_ok_def list_all_length)
  with advance_ok [OF _ _ Advance(4)] have s1: "shared_ok s1" "heap_settled s s1" "thread_ok s1 t" by simp_all
  then have "list_all (thread_ok s1) ts"
    using assms(1) thread_ok_settled Advance(1) by (fastforce simp: calls_ok_def list_all_iff)
  with s1 have "list_all (thread_ok s1) (ts[i := t])"
    unfolding list_all_iff using set_update_subset_insert [of ts i t] by blast
  with s1 Advance show ?thesis by (simp add: calls_ok_def)
next
  case (Sweeping s ts now)
  have p: "pointers_ok s" using assms(1) Sweeping by (simp add: calls_ok_def shared_ok_def)
  have "heap_settled s (shared_Sweep s now)"
    using heap_settled_write_all [OF pointers_restrict [OF p] settled_sweep] unfolding shared_Sweep_def Let_def
    by (simp add: heap_settled_def)
  with assms(1) Sweeping thread_ok_settled shared_ok_Sweep show ?thesis
    by (fastforce simp: calls_ok_def list_all_iff)
next
  case (Reorder es s ts)
  have "heap_settled s (s\<lparr>sh_table := es\<rparr>)" by (rule heap_settled_same) simp
  with assms(1) Reorder thread_ok_settled shared_ok_Reorder show ?thesis
    by (fastforce simp: calls_ok_def list_all_iff)
qed

interpretation calls: interference interleave calls_ok "\<lambda>c c1. heap_settled (fst c) (fst c1)"
  by unfold_locales (auto dest: calls_move intro: heap_settled_trans)

lemma new_shared_ok: "shared_ok (new_shared ttl)"
proof -
  have "view (new_shared ttl) = NewMap ttl" by (simp add: view_def new_shared_def NewMap_def)
  then show ?thesis using map_inv_NewMap by (simp add: shared_ok_def pointers_ok_def addresses_def new_shared_def)
qed

lemma new_calls_ok: "calls_ok (new_shared ttl, [])"
  by (simp add: calls_ok_def new_shared_ok)

section \<open>Schedules\<close>

text \<open>A schedule: which call makes its next step.\<close>

fun schedule :: "nat list \<Rightarrow> Shared \<times> thread list \<Rightarrow> Shared \<times> thread list" where
  "schedule [] c = c"
| "schedule (i # sched) (s, ts) =
     (if i < length ts then (case advance (s, ts ! i) of (s1, t) \<Rightarrow> schedule sched (s1, ts[i := t]))
      else schedule sched (s, ts))"

lemma schedule_moves: "interleave\<^sup>*\<^sup>* c (schedule sched c)"
proof (induction sched c rule: schedule.induct)
  case (2 i sched s ts)
  show ?case
  proof (cases "i < length ts")
    case True
    obtain s1 t where a: "advance (s, ts ! i) = (s1, t)" by (cases "advance (s, ts ! i)")
    from "2.IH"(1) [OF True a [symmetric]] Advance [OF True a] True a show ?thesis
      by (simp add: converse_rtranclp_into_rtranclp)
  qed (use "2.IH"(2) in simp)
qed simp

lemma schedule_append: "schedule (a @ b) c = schedule b (schedule a c)"
  by (induction a c rule: schedule.induct) (auto split: prod.split)

lemma schedule_replicate:
  "i < length ts \<Longrightarrow> (advance ^^ n) (s, ts ! i) = (s1, t) \<Longrightarrow> schedule (replicate n i) (s, ts) = (s1, ts[i := t])"
proof (induction n arbitrary: s ts)
  case (Suc n)
  obtain s2 t2 where a: "advance (s, ts ! i) = (s2, t2)" by (cases "advance (s, ts ! i)")
  with Suc.prems(2) have "(advance ^^ n) (s2, t2) = (s1, t)" by (simp add: steps_Suc del: funpow.simps)
  with Suc.IH [of "ts[i := t2]" s2] Suc.prems(1) a show ?case by simp
qed auto

text \<open>An example: an open event, and a data event of the same connection that waits to feed the profile.\<close>

definition ex_open :: ReflectorEvent where
  "ex_open = (ev_open ''alice'' 0)\<lparr>ev_IdentityType := JWT\<rparr>"

definition ex_data :: "string \<Rightarrow> u64 \<Rightarrow> ReflectorEvent" where
  "ex_data token tx = ex_open\<lparr>ev_EventType := DATA_EXCHANGE, ev_BoundarySessionToken := token, ev_BytesTx := tx\<rparr>"

definition ex_process :: "Shared \<times> thread list" where
  "ex_process = schedule [0, 1] (new_shared 60, [Call 0 ex_open, Call 0 (ex_data ''at_1'' 1)])"

lemma calls_start: "interleave\<^sup>*\<^sup>* (s, []) (s, [Call w1 ev1, Call w2 ev2])"
  using Start [of s "[]" w1 ev1] Start [of s "[Call w1 ev1]" w2 ev2] by auto

lemma ex_process_moves: "interleave\<^sup>*\<^sup>* (new_shared 60, []) ex_process"
  unfolding ex_process_def by (rule rtranclp_trans [OF calls_start schedule_moves])

lemma ex_process_reading: "Reading 0 (ex_data ''at_1'' 1) 0 \<in> set (snd ex_process)"
  by code_simp

text \<open>How many steps a call has left at most.\<close>

fun steps_left :: "thread \<Rightarrow> nat" where
  "steps_left (Call wall ev) = 5"
| "steps_left (Tracking a wall ev now) = 4"
| "steps_left (Tracked a ev now class) = 3"
| "steps_left (Reading a ev now) = 2"
| "steps_left (Observing ident dest tool ev now) = 1"
| "steps_left Done = 0"

lemma steps_left_0 [simp]: "steps_left t = 0 \<longleftrightarrow> t = Done"
  by (cases t) simp_all

lemma steps_left_advance: "steps_left (snd (advance (s, t))) \<le> steps_left t - 1"
proof -
  have e: "steps_left (snd (data_end s a ev now)) \<le> 2" for s a ev now by (simp add: data_end_def Let_def)
  have "steps_left (snd (first_segment s wall ev)) \<le> 4" for wall ev
    using e by (auto simp: first_segment_def open_segment_def close_segment_def data_segment_def rotation_segment_def
        Let_def le_trans [OF e] split: EventType.split option.split prod.split)
  with e show ?thesis by (cases t) (auto simp: Let_def split: prod.split)
qed

lemma schedule_steps:
  "i < length ts \<Longrightarrow> steps_left (ts ! i) \<le> count_list sched i \<Longrightarrow> snd (schedule sched (s, ts)) ! i = Done"
proof (induction sched arbitrary: s ts)
  case (Cons j sched)
  show ?case
  proof (cases "j < length ts")
    case True
    obtain s1 t where a: "advance (s, ts ! j) = (s1, t)" by (cases "advance (s, ts ! j)")
    then have "steps_left t \<le> steps_left (ts ! j) - 1" using steps_left_advance [of s "ts ! j"] by simp
    with Cons.prems have "steps_left (ts[j := t] ! i) \<le> count_list sched i"
      by (cases "i = j") (auto split: if_splits)
    with Cons.IH [of "ts[j := t]" s1] Cons.prems(1) True a show ?thesis by simp
  qed (use Cons in \<open>auto split: if_splits\<close>)
qed simp





text \<open>
  Property C10: what \<^verbatim>\<open>HandleEvent\<close> reads without its lock is settled. When a call gives up
  the lock before it feeds the profile, the entry it points to has an identity, and
  whatever other calls and sweeps do until it reads the fields (closing, updating or
  even removing the entry), it observes exactly that identity and the destination of
  the entry; and the tool, if one was known.
\<close>

theorem unlocked_read_settled:
  assumes "interleave\<^sup>*\<^sup>* (new_shared ttl, []) (s, ts)" and "Reading a ev now \<in> set ts"
    and "interleave\<^sup>*\<^sup>* (s, ts) (s1, ts1)"
  shows "\<exists>tool. advance (s1, Reading a ev now)
       = (s1, Observing (en_Identity (sh_heap s ! a)) (en_DestAddr (sh_heap s ! a)) tool ev now)
     \<and> en_Identity (sh_heap s ! a) \<noteq> [] \<and> (en_MCPTool (sh_heap s ! a) \<noteq> [] \<longrightarrow> tool = en_MCPTool (sh_heap s ! a))"
proof -
  have ok: "calls_ok (s, ts)" by (rule calls.moves_inv [OF assms(1) new_calls_ok])
  then have "thread_ok s (Reading a ev now)" using assms(2) by (auto simp: calls_ok_def list_all_iff)
  moreover have "heap_settled s s1" using calls.moves_G [OF assms(3) ok] by simp
  ultimately show ?thesis by (simp add: heap_settled_def settled_def Let_def)
qed

theorem unlocked_read_settled_witness:
  "\<exists>tool. advance (fst ex_process, Reading 0 (ex_data ''at_1'' 1) 0)
     = (fst ex_process, Observing ''alice'' (en_DestAddr (sh_heap (fst ex_process) ! 0)) tool (ex_data ''at_1'' 1) 0)"
proof -
  have "en_Identity (sh_heap (fst ex_process) ! 0) = ''alice''" by code_simp
  then show ?thesis
    using unlocked_read_settled [of 60 "fst ex_process" "snd ex_process" 0 "ex_data ''at_1'' 1" 0 "fst ex_process"
        "snd ex_process"] ex_process_moves ex_process_reading by auto
qed

section \<open>Calls are not atomic\<close>

lemma data_end_run:
  "a < length (sh_heap s) \<Longrightarrow>
   \<exists>p. (advance ^^ Suc (Suc n)) (data_end s a ev now) = ((store a (\<lambda>e. boundaryUpdate e ev) s)\<lparr>sh_profiles := p\<rparr>, Done)"
  using exI [of "\<lambda>p. s1 = s1\<lparr>sh_profiles := p\<rparr>" "sh_profiles s1" for s1]
  by (auto simp: data_end_def Let_def steps_Suc simp del: funpow.simps)

lemma record_fields:
  "syntheticKey ev now \<noteq> k \<Longrightarrow> map_of (sh_table (record_rotation s ev now c)) k = map_of (sh_table s) k"
  "a < length (sh_heap s) \<Longrightarrow> sh_heap (record_rotation s ev now c) ! a = sh_heap s ! a"
  "a < length (sh_heap s) \<Longrightarrow> a < length (sh_heap (record_rotation s ev now c))"
  by (auto simp: record_rotation_def update_conv nth_append)

text \<open>A data event with a certificate is overtaken by a whole data event without one.\<close>

lemma overtaken:
  assumes ok: "pointers_ok s" and a: "map_of (sh_table s) k = Some a"
    and ev1: "ev_EventType ev1 = DATA_EXCHANGE" "eventKey ev1 = k" "ev_IdentityType ev1 = SPIFFE" "ev_CertSerial ev1 \<noteq> []"
    and ev2: "ev_EventType ev2 = DATA_EXCHANGE" "eventKey ev2 = k" "ev_IdentityType ev2 \<noteq> SPIFFE \<or> ev_CertSerial ev2 = []"
    and key: "syntheticKey ev1 (eventTime w1 ev1) \<noteq> k"
  shows "\<exists>s1. schedule ([0] @ replicate 5 1 @ replicate 4 0) (s, [Call w1 ev1, Call w2 ev2]) = (s1, [Done, Done])
     \<and> map_of (entries (view s1)) k = Some (boundaryUpdate (boundaryUpdate
          (dataUpdate (dataUpdate (sh_heap s ! a) ev1 (eventTime w1 ev1)) ev2 (eventTime w2 ev2)) ev2) ev1)"
proof -
  let ?n1 = "eventTime w1 ev1" and ?n2 = "eventTime w2 ev2"
  have len: "a < length (sh_heap s)" by (rule pointer_valid [OF ok a])
  define s1 where "s1 = store a (\<lambda>e. dataUpdate e ev1 ?n1) s"
  have one: "advance (s, Call w1 ev1) = (s1, Tracking a w1 ev1 ?n1)"
    using ev1 a by (simp add: first_segment_def data_segment_def s1_def Let_def)
  define s2 where "s2 = store a (\<lambda>e. dataUpdate e ev2 ?n2) s1"
  have "advance (s1, Call w2 ev2) = data_end s2 a ev2 ?n2"
    using ev2 a by (auto simp: first_segment_def data_segment_def s1_def s2_def Let_def)
  moreover obtain p where "(advance ^^ Suc (Suc 2)) (data_end s2 a ev2 ?n2)
      = ((store a (\<lambda>e. boundaryUpdate e ev2) s2)\<lparr>sh_profiles := p\<rparr>, Done)"
    using data_end_run [of a s2 2 ev2 ?n2] len by (auto simp: s2_def s1_def)
  moreover define s3 where "s3 = (store a (\<lambda>e. boundaryUpdate e ev2) s2)\<lparr>sh_profiles := p\<rparr>"
  moreover have "(5 :: nat) = Suc (Suc (Suc 2))" by simp
  ultimately have two: "(advance ^^ 5) (s1, Call w2 ev2) = (s3, Done)" by (metis steps_Suc)
  obtain c r where T: "Track (sh_rotation s3) w1 (ev_SourceIdentity ev1) (certObservation ev1 ?n1) = (c, r)"
    by (cases "Track (sh_rotation s3) w1 (ev_SourceIdentity ev1) (certObservation ev1 ?n1)")
  define s4 where "s4 = record_rotation (s3\<lparr>sh_rotation := r\<rparr>) ev1 ?n1 c"
  have s3: "a < length (sh_heap s3)" "map_of (sh_table s3) k = Some a"
    "sh_heap s3 ! a = boundaryUpdate (dataUpdate (dataUpdate (sh_heap s ! a) ev1 ?n1) ev2 ?n2) ev2"
    using len a by (simp_all add: s3_def s2_def s1_def)
  note s4 = record_fields(1) [OF key, of "s3\<lparr>sh_rotation := r\<rparr>" c] record_fields(2,3) [of a "s3\<lparr>sh_rotation := r\<rparr>" ev1 ?n1 c]
  have "(advance ^^ 4) (s3, Tracking a w1 ev1 ?n1) = (advance ^^ Suc (Suc 0)) (data_end s4 a ev1 ?n1)"
    using T by (simp add: numeral_eq_Suc steps_Suc s4_def del: funpow.simps)
  moreover obtain q where "(advance ^^ Suc (Suc 0)) (data_end s4 a ev1 ?n1)
      = ((store a (\<lambda>e. boundaryUpdate e ev1) s4)\<lparr>sh_profiles := q\<rparr>, Done)"
    using data_end_run [of a s4 0 ev1 ?n1] s4 s3 unfolding s4_def by auto
  moreover define s5 where "s5 = (store a (\<lambda>e. boundaryUpdate e ev1) s4)\<lparr>sh_profiles := q\<rparr>"
  ultimately have three: "(advance ^^ 4) (s3, Tracking a w1 ev1 ?n1) = (s5, Done)" by simp
  have "schedule ([0] @ replicate 5 1 @ replicate 4 0) (s, [Call w1 ev1, Call w2 ev2]) = (s5, [Done, Done])"
    unfolding schedule_append
    using one schedule_replicate [of 1 "[Tracking a w1 ev1 ?n1, Call w2 ev2]" 5 s1 s3 Done] two
      schedule_replicate [of 0 "[Tracking a w1 ev1 ?n1, Done]" 4 s3 s5 Done] three by simp
  moreover have "map_of (entries (view s5)) k = Some (boundaryUpdate (sh_heap s3 ! a) ev1)"
    using s4 s3(1,2) unfolding lookup_view s5_def s4_def [symmetric] by simp
  ultimately show ?thesis using s3(3) by auto
qed

text \<open>
  Property C9: \<^verbatim>\<open>HandleEvent\<close> is not atomic. Two data events of one connection, the first
  with a certificate, both with Boundary tokens: when the second runs while the first
  is in the rotation tracker, the entry ends with the token and the byte counters of
  the second event, although the first one to arrive keeps its token in one sequential
  order and the byte counters are its own in the other: the result is that of neither.
\<close>

theorem handler_not_atomic:
  assumes "pointers_ok s" and "map_of (entries (view s)) k = Some e" and "en_BoundarySessionToken e = []"
    and "ev_EventType ev1 = DATA_EXCHANGE" "eventKey ev1 = k" "ev_IdentityType ev1 = SPIFFE" "ev_CertSerial ev1 \<noteq> []"
    and "ev_EventType ev2 = DATA_EXCHANGE" "eventKey ev2 = k" "ev_CertSerial ev2 = []"
    and "ev_BoundarySessionToken ev1 \<noteq> []" "ev_BoundarySessionToken ev2 \<noteq> []"
    and "ev_BoundarySessionToken ev1 \<noteq> ev_BoundarySessionToken ev2" "ev_BytesTx ev1 \<noteq> ev_BytesTx ev2"
    and "syntheticKey ev1 (eventTime w1 ev1) \<noteq> k"
  shows "\<exists>s1. interleave\<^sup>*\<^sup>* (s, [Call w1 ev1, Call w2 ev2]) (s1, [Done, Done])
     \<and> map_of (entries (view s1)) k \<noteq> map_of (entries (HandleEvent (HandleEvent (view s) w1 ev1) w2 ev2)) k
     \<and> map_of (entries (view s1)) k \<noteq> map_of (entries (HandleEvent (HandleEvent (view s) w2 ev2) w1 ev1)) k"
proof -
  let ?n1 = "eventTime w1 ev1" and ?n2 = "eventTime w2 ev2"
  obtain a where a: "map_of (sh_table s) k = Some a" "e = sh_heap s ! a" using assms(2) by (auto simp: lookup_view)
  from overtaken [OF assms(1) a(1) assms(4-9) _ assms(15), of w2] assms(10)
    schedule_moves [of "(s, [Call w1 ev1, Call w2 ev2])" "[0] @ replicate 5 1 @ replicate 4 0"]
  obtain s1 where run: "interleave\<^sup>*\<^sup>* (s, [Call w1 ev1, Call w2 ev2]) (s1, [Done, Done])"
    and x: "map_of (entries (view s1)) k
      = Some (boundaryUpdate (boundaryUpdate (dataUpdate (dataUpdate e ev1 ?n1) ev2 ?n2) ev2) ev1)"
    unfolding a(2) by auto
  have h1: "map_of (entries (HandleEvent m w1 ev1)) k = Some (boundaryUpdate (dataUpdate f ev1 ?n1) ev1)"
    if "map_of (entries m) k = Some f" for m f
    using that map_of_handleData [of m ev1 f w1 ?n1] assms(4,5,15) by (simp add: HandleEvent_def Let_def split: option.split)
  have h2: "map_of (entries (HandleEvent m w2 ev2)) k = Some (boundaryUpdate (dataUpdate f ev2 ?n2) ev2)"
    if "map_of (entries m) k = Some f" for m f
    using that map_of_handleData [of m ev2 f w2 ?n2] assms(8-10)
    by (simp add: HandleEvent_def Let_def rotation_status_def split: option.split)
  have tx: "en_BytesTx (dataUpdate f ev n) = ev_BytesTx ev" "en_BoundarySessionToken (dataUpdate f ev n) = en_BoundarySessionToken f"
    "en_BytesTx (boundaryUpdate f ev) = en_BytesTx f" for f ev n
    by (simp_all add: dataUpdate_def boundaryUpdate_def Let_def)
  have tok: "en_BoundarySessionToken (boundaryUpdate f ev)
      = (if en_BoundarySessionToken f = [] then ev_BoundarySessionToken ev else en_BoundarySessionToken f)" for f ev
    by (simp add: boundaryUpdate_def)
  let ?x = "boundaryUpdate (boundaryUpdate (dataUpdate (dataUpdate e ev1 ?n1) ev2 ?n2) ev2) ev1"
  have "en_BoundarySessionToken ?x = ev_BoundarySessionToken ev2" "en_BytesTx ?x = ev_BytesTx ev2"
    using assms(3,12) by (simp_all add: tx tok)
  moreover have "en_BoundarySessionToken (boundaryUpdate (dataUpdate (boundaryUpdate (dataUpdate e ev1 ?n1) ev1) ev2 ?n2) ev2)
      = ev_BoundarySessionToken ev1" using assms(3,11) by (simp add: tx tok)
  moreover have "en_BytesTx (boundaryUpdate (dataUpdate (boundaryUpdate (dataUpdate e ev2 ?n2) ev2) ev1 ?n1) ev1) = ev_BytesTx ev1"
    by (simp add: tx)
  ultimately show ?thesis
    using run x h2 [OF h1 [OF assms(2)]] h1 [OF h2 [OF assms(2)]] assms(13,14) by (metis option.inject)
qed

definition ex_cert :: ReflectorEvent where
  "ex_cert = (ex_data ''at_2'' 2)\<lparr>ev_IdentityType := SPIFFE, ev_CertSerial := ''01''\<rparr>"

theorem handler_not_atomic_witness:
  "\<exists>s s1. interleave\<^sup>*\<^sup>* (s, [Call 0 ex_cert, Call 0 (ex_data ''at_1'' 1)]) (s1, [Done, Done])
     \<and> map_of (entries (view s1)) (eventKey ex_open)
       \<noteq> map_of (entries (HandleEvent (HandleEvent (view s) 0 ex_cert) 0 (ex_data ''at_1'' 1))) (eventKey ex_open)"
proof -
  define s where "s = put_entry (eventKey ex_open) (openEntry ex_open 0) (new_shared 60)"
  have "pointers_ok s" using new_shared_ok [of 60] pointers_put by (simp add: s_def shared_ok_def)
  moreover have "map_of (entries (view s)) (eventKey ex_open) = Some (openEntry ex_open 0)"
    by (simp add: s_def lookup_view put_entry_def new_shared_def)
  moreover have "en_BoundarySessionToken (openEntry ex_open 0) = []" by code_simp
  moreover have "eventKey ex_cert = eventKey ex_open" "eventKey (ex_data t n) = eventKey ex_open" for t n
    by (simp_all add: ex_cert_def ex_data_def eventKey_def)
  moreover have "syntheticKey ex_cert (eventTime 0 ex_cert) \<noteq> eventKey ex_open"
    by (simp add: syntheticKey_def eventKey_def connectionKey_def ex_cert_def ex_data_def ex_open_def ev_open_def NewTestEvent_def)
  moreover have "ev_EventType ex_cert = DATA_EXCHANGE" "ev_IdentityType ex_cert = SPIFFE" "ev_CertSerial ex_cert \<noteq> []"
    "ev_EventType (ex_data ''at_1'' 1) = DATA_EXCHANGE" "ev_CertSerial (ex_data ''at_1'' 1) = []"
    "ev_BoundarySessionToken ex_cert \<noteq> []" "ev_BoundarySessionToken (ex_data ''at_1'' 1) \<noteq> []"
    "ev_BoundarySessionToken ex_cert \<noteq> ev_BoundarySessionToken (ex_data ''at_1'' 1)"
    "ev_BytesTx ex_cert \<noteq> ev_BytesTx (ex_data ''at_1'' 1)"
    by code_simp+
  ultimately show ?thesis
    using handler_not_atomic [of s "eventKey ex_open" "openEntry ex_open 0" ex_cert "ex_data ''at_1'' 1" 0 0] by blast
qed

end
