(* ===== verification/Session_Query.thy ===== *)
theory Session_Query
  imports Session_Spec
begin

text \<open>
  The read side of the session map: the attestation lookup, the filtered query and
  the statistics, and the keys under which connections are found. The answers are
  characterised on the table, whatever order the code visits it in.
\<close>

section \<open>Attestation\<close>

text \<open>The newest of the entries that satisfy a predicate.\<close>

definition newest :: "(Entry \<Rightarrow> bool) \<Rightarrow> (string \<times> Entry) list \<Rightarrow> Entry \<Rightarrow> bool" where
  "newest P es e \<longleftrightarrow> (\<exists>k. (k, e) \<in> set es) \<and> P e
     \<and> (\<forall>(k', e') \<in> set es. P e' \<longrightarrow> en_LastSeen e' \<le> en_LastSeen e)"

lemma pick_best_Some:
  "\<exists>e. pick_best P (Some b) es = Some e \<and> en_LastSeen b \<le> en_LastSeen e
     \<and> (\<forall>(k', e') \<in> set es. P e' \<longrightarrow> en_LastSeen e' \<le> en_LastSeen e)
     \<and> (e = b \<or> (\<exists>k. (k, e) \<in> set es) \<and> P e)"
proof (induction es arbitrary: b)
  case (Cons p es)
  obtain q x where p: "p = (q, x)" by (cases p)
  define b' where "b' = (if P x \<and> en_LastSeen x > en_LastSeen b then x else b)"
  have "pick_best P (Some b) (p # es) = pick_best P (Some b') es"
    by (simp add: pick_best_def p b'_def)
  with Cons.IH [of b'] obtain e where e: "pick_best P (Some b) (p # es) = Some e"
    "en_LastSeen b' \<le> en_LastSeen e" "\<forall>(k', e') \<in> set es. P e' \<longrightarrow> en_LastSeen e' \<le> en_LastSeen e"
    "e = b' \<or> (\<exists>k. (k, e) \<in> set es) \<and> P e" by auto
  have "en_LastSeen b \<le> en_LastSeen e" "P x \<longrightarrow> en_LastSeen x \<le> en_LastSeen e"
    using e(2) by (auto simp: b'_def split: if_splits)
  moreover have "e = b \<or> (\<exists>k. (k, e) \<in> set (p # es)) \<and> P e"
    using e(4) by (auto simp: b'_def p split: if_splits)
  ultimately show ?case using e(1,3) by (intro exI [of _ e]) (simp add: p)
qed (simp add: pick_best_def)

lemma pick_best_None:
  "pick_best P None es = None \<and> (\<forall>(k, e) \<in> set es. \<not> P e)
   \<or> (\<exists>e. pick_best P None es = Some e \<and> newest P es e)"
proof (induction es)
  case (Cons p es)
  obtain q x where p: "p = (q, x)" by (cases p)
  show ?case
  proof (cases "P x")
    case True
    then have "pick_best P None (p # es) = pick_best P (Some x) es" by (simp add: pick_best_def p)
    with pick_best_Some [of P x es] True show ?thesis by (auto simp: newest_def p)
  next
    case False
    then have "pick_best P None (p # es) = pick_best P None es" by (simp add: pick_best_def p)
    with Cons.IH False show ?thesis by (auto simp: newest_def p)
  qed
qed (simp add: pick_best_def)

lemma Lookup_cases:
  fixes m wall pid src dst
  defines "P \<equiv> attest_match (wall - AttestationTTL) pid src dst"
  shows "(\<exists>e. newest P (entries m) e \<and> en_Identity e \<noteq> []
       \<and> Lookup m wall pid src dst
         = \<lparr>at_SpiffeID = en_Identity e, at_ObservedAt = en_LastSeen e, at_Confidence = ''kernel''\<rparr>)
   \<or> (((\<forall>(k, e) \<in> set (entries m). \<not> P e) \<or> (\<exists>e. newest P (entries m) e \<and> en_Identity e = []))
       \<and> Lookup m wall pid src dst
         = \<lparr>at_SpiffeID = [], at_ObservedAt = zero_time, at_Confidence = ''jwt-only''\<rparr>)"
proof -
  have L: "Lookup m wall pid src dst = (case pick_best P None (entries m) of
        None \<Rightarrow> \<lparr>at_SpiffeID = [], at_ObservedAt = zero_time, at_Confidence = ''jwt-only''\<rparr>
      | Some e \<Rightarrow> if en_Identity e = []
          then \<lparr>at_SpiffeID = [], at_ObservedAt = zero_time, at_Confidence = ''jwt-only''\<rparr>
          else \<lparr>at_SpiffeID = en_Identity e, at_ObservedAt = en_LastSeen e, at_Confidence = ''kernel''\<rparr>)"
    by (simp add: Lookup_def P_def Let_def)
  from pick_best_None [of P "entries m"] show ?thesis
  proof
    assume "pick_best P None (entries m) = None \<and> (\<forall>(k, e) \<in> set (entries m). \<not> P e)"
    then show ?thesis by (simp add: L)
  next
    assume "\<exists>e. pick_best P None (entries m) = Some e \<and> newest P (entries m) e"
    then obtain e where "pick_best P None (entries m) = Some e" "newest P (entries m) e" by blast
    then show ?thesis by (cases "en_Identity e = []") (auto simp: L)
  qed
qed

text \<open>
  Property C4: the attestation answer is exact. It says kernel only with the
  identity and time of a stored entry that has the two addresses and the process (if
  one was given), was seen within \<open>AttestationTTL\<close>, and is no older than any other
  such entry; it says jwt-only, with an empty identity, only if there is no such
  entry or a newest one has no identity.
\<close>

theorem lookup_exact:
  "case Lookup m wall pid src dst of r \<Rightarrow>
     (at_Confidence r = ''kernel'' \<and> at_SpiffeID r \<noteq> []
        \<and> (\<exists>e. newest (attest_match (wall - AttestationTTL) pid src dst) (entries m) e
             \<and> at_SpiffeID r = en_Identity e \<and> at_ObservedAt r = en_LastSeen e
             \<and> en_SourceAddr e = src \<and> en_DestAddr e = dst \<and> (pid = 0 \<or> en_PID e = pid)
             \<and> wall - AttestationTTL \<le> at_ObservedAt r))
   \<or> (at_Confidence r = ''jwt-only'' \<and> at_SpiffeID r = []
        \<and> ((\<nexists>k e. (k, e) \<in> set (entries m) \<and> attest_match (wall - AttestationTTL) pid src dst e)
           \<or> (\<exists>e. newest (attest_match (wall - AttestationTTL) pid src dst) (entries m) e
                  \<and> en_Identity e = [])))"
  using Lookup_cases [of wall pid src dst m] by (auto simp: newest_def attest_match_def)

theorem lookup_exact_witness:
  "at_Confidence (Lookup (HandleEvent (NewMap 60) 0 (ev_open [] 7)) 8 0 ''10.0.0.1:80'' ''10.0.0.2:443'')
     = ''jwt-only''"
  using lookup_exact [of "HandleEvent (NewMap 60) 0 (ev_open [] 7)" 8 0 "''10.0.0.1:80''" "''10.0.0.2:443''"]
  by (auto simp: newest_def entries_open_new pickIdentity_def)

lemma newest_unique:
  assumes "newest P es e" "newest P es e'" "\<forall>(k, x) \<in> set es. x \<noteq> e \<longrightarrow> en_LastSeen x < en_LastSeen e"
  shows "e' = e"
proof (rule ccontr)
  assume "e' \<noteq> e"
  moreover obtain k where "(k, e') \<in> set es" using assms(2) by (auto simp: newest_def)
  ultimately have "en_LastSeen e' < en_LastSeen e" using assms(3) by auto
  moreover have "en_LastSeen e \<le> en_LastSeen e'" using assms(1,2) by (auto simp: newest_def)
  ultimately show False by simp
qed

lemma entries_after_open:
  assumes "map_inv m" "ev_EventType ev = CONNECTION_OPEN" "(k, e) \<in> set (entries (HandleEvent m wall ev))"
  shows "(k, e) = (eventKey ev, openEntry ev (eventTime wall ev)) \<or> (k, e) \<in> set (entries m)"
proof -
  have "table (HandleEvent m wall ev) k = Some e"
    using assms(3) map_of_mem [OF map_invD(1) [OF map_inv_HandleEvent [OF assms(1)]]]
    by (simp add: table_def)
  moreover obtain v where "table (HandleEvent m wall ev)
      = (case v of None \<Rightarrow> table m | Some k \<Rightarrow> (table m)(k := None))
          (eventKey ev \<mapsto> openEntry ev (eventTime wall ev))"
    using table_handleOpen [OF assms(1)] assms(2) by (simp add: HandleEvent_def) metis
  ultimately have "(k, e) = (eventKey ev, openEntry ev (eventTime wall ev)) \<or> table m k = Some e"
    by (auto split: option.splits if_splits)
  then show ?thesis by (auto simp: table_def dest: map_of_SomeD)
qed

text \<open>
  An open event is attested at once. After an open event that carries an
  identity and is newer than everything in the table, a lookup for its addresses (and
  its process, or none) within \<open>AttestationTTL\<close> answers with this identity and the
  confidence kernel. The type of the identity makes no difference: one taken from a
  bearer token or an OTLP export is reported as kernel too.
\<close>

lemma attest_after_open:
  assumes "reachable m" and "ev_EventType ev = CONNECTION_OPEN" and "fst (pickIdentity ev) \<noteq> []"
    and "\<forall>(k, e) \<in> set (entries m). en_LastSeen e < eventTime wall ev"
    and "wall' - AttestationTTL \<le> eventTime wall ev" and "pid = 0 \<or> pid = ev_Pid ev"
  shows "Lookup (HandleEvent m wall ev) wall' pid (ev_SourceAddr ev) (ev_DestAddr ev)
     = \<lparr>at_SpiffeID = fst (pickIdentity ev), at_ObservedAt = eventTime wall ev, at_Confidence = ''kernel''\<rparr>"
proof -
  note inv = reachable_inv [OF assms(1)]
  let ?e = "openEntry ev (eventTime wall ev)" and ?m = "HandleEvent m wall ev"
  let ?P = "attest_match (wall' - AttestationTTL) pid (ev_SourceAddr ev) (ev_DestAddr ev)"
  have old: "\<forall>(k, x) \<in> set (entries ?m). x \<noteq> ?e \<longrightarrow> en_LastSeen x < en_LastSeen ?e"
    using entries_after_open [OF inv assms(2)] assms(4) by fastforce
  obtain v where "table ?m = (case v of None \<Rightarrow> table m | Some k \<Rightarrow> (table m)(k := None))(eventKey ev \<mapsto> ?e)"
    using table_handleOpen [OF inv] assms(2) by (simp add: HandleEvent_def) metis
  then have "map_of (entries ?m) (eventKey ev) = Some ?e" unfolding table_def [symmetric] by simp
  then have mem: "(eventKey ev, ?e) \<in> set (entries ?m)" by (rule map_of_SomeD)
  have match: "?P ?e" using assms(5,6) by (auto simp: attest_match_def)
  have "\<forall>(k, x) \<in> set (entries ?m). en_LastSeen x \<le> en_LastSeen ?e" using old by fastforce
  with mem match have new: "newest ?P (entries ?m) ?e" by (auto simp: newest_def)
  have "en_Identity x = fst (pickIdentity ev) \<and> en_LastSeen x = eventTime wall ev"
    if "newest ?P (entries ?m) x" for x
    using newest_unique [OF new that old] by simp
  with Lookup_cases [of wall' pid "ev_SourceAddr ev" "ev_DestAddr ev" ?m] mem match assms(3)
  show ?thesis by fastforce
qed

definition ev_jwt :: "time \<Rightarrow> ReflectorEvent" where
  "ev_jwt t = (ev_open ''alice'' t)\<lparr>ev_IdentityType := JWT\<rparr>"

section \<open>Queries and statistics\<close>

definition count_status :: "string \<Rightarrow> (string \<times> Entry) list \<Rightarrow> nat" where
  "count_status s es = length (filter (\<lambda>e. en_Status e = s) (map snd es))"

definition identities_of :: "(string \<times> Entry) list \<Rightarrow> string set" where
  "identities_of es = {en_Identity e | k e. (k, e) \<in> set es \<and> en_Identity e \<noteq> []}"

lemma GetStats_fold:
  "distinct ids \<Longrightarrow>
   (let r = foldl (\<lambda>(s, ids) (k, e).
          (if en_Status e = ''active'' then s\<lparr>st_Active := Suc (st_Active s)\<rparr>
           else if en_Status e = ''closed'' then s\<lparr>st_Closed := Suc (st_Closed s)\<rparr>
           else if en_Status e = ''stale'' then s\<lparr>st_Stale := Suc (st_Stale s)\<rparr> else s,
           if en_Identity e \<noteq> [] then List.insert (en_Identity e) ids else ids)) (s, ids) es
    in fst r = s\<lparr>st_Active := st_Active s + count_status ''active'' es,
                st_Closed := st_Closed s + count_status ''closed'' es,
                st_Stale := st_Stale s + count_status ''stale'' es\<rparr>
       \<and> distinct (snd r) \<and> set (snd r) = set ids \<union> identities_of es)"
proof (induction es arbitrary: s ids)
  case (Cons p es)
  obtain q e where p: "p = (q, e)" by (cases p)
  have ids: "identities_of (p # es) = (if en_Identity e \<noteq> [] then {en_Identity e} else {}) \<union> identities_of es"
    by (auto simp: identities_of_def p)
  have "distinct (if en_Identity e \<noteq> [] then List.insert (en_Identity e) ids else ids)"
    using Cons.prems by simp
  from Cons.IH [OF this] show ?case
    by (auto simp: p ids [unfolded p] count_status_def Let_def)
qed (simp add: count_status_def identities_of_def)

lemma QueryAll_status:
  "s \<noteq> [] \<Longrightarrow> QueryAll m [] [] s [] = filter (\<lambda>e. en_Status e = s) (map snd (entries m))"
  unfolding QueryAll_def by (rule filter_cong) (simp_all add: query_match_def)

text \<open>
  The statistics agree with the queries. The three counts are the
  numbers of entries that the query for that status returns, whatever the iteration
  order, and the number of identities is that of the distinct non-empty ones.
\<close>

lemma getStats_agrees:
  "mset es = mset (entries m) \<Longrightarrow>
   GetStats (m\<lparr>entries := es\<rparr>) =
     \<lparr>st_Active = length (QueryAll m [] [] ''active'' []),
      st_Closed = length (QueryAll m [] [] ''closed'' []),
      st_Stale = length (QueryAll m [] [] ''stale'' []),
      st_Identities = card (identities_of (entries m))\<rparr>"
proof -
  assume A: "mset es = mset (entries m)"
  have "mset (map snd es) = mset (map snd (entries m))" using A by simp
  then have "mset (filter (\<lambda>e. en_Status e = s) (map snd es))
      = mset (filter (\<lambda>e. en_Status e = s) (map snd (entries m)))" for s by simp
  then have count: "count_status s es = length (filter (\<lambda>e. en_Status e = s) (map snd (entries m)))" for s
    unfolding count_status_def by (rule mset_eq_length)
  have ids: "identities_of es = identities_of (entries m)"
    using mset_eq_setD [OF A] by (simp add: identities_of_def)
  have "length xs = card (identities_of (entries m))"
    if "distinct xs" "set xs = identities_of es" for xs
    using that ids by (metis distinct_card)
  then show ?thesis
    using GetStats_fold [of "[]" "\<lparr>st_Active = 0, st_Closed = 0, st_Stale = 0, st_Identities = 0\<rparr>" es]
    by (auto simp: GetStats_def Let_def count QueryAll_status)
qed

section \<open>Connection keys\<close>

lemma sep_inj:
  assumes "d \<notin> set a" "d \<notin> set a'"
  shows "a @ d # r = a' @ d # r' \<longleftrightarrow> a = a' \<and> r = r'"
  using assms by (induction a arbitrary: a') (case_tac a', auto)+

text \<open>
  Connections with different node, addresses or protocol have
  different keys, provided the node name and the addresses contain no vertical bar.
\<close>

lemma connectionKey_injective:
  assumes "CHR ''|'' \<notin> set n" and "CHR ''|'' \<notin> set s" and "CHR ''|'' \<notin> set d"
    and "CHR ''|'' \<notin> set n'" and "CHR ''|'' \<notin> set s'" and "CHR ''|'' \<notin> set d'"
  shows "connectionKey n s d p = connectionKey n' s' d' p' \<longleftrightarrow> n = n' \<and> s = s' \<and> d = d' \<and> p = p'"
  using assms by (auto simp: connectionKey_def sep_inj)

text \<open>The trust domain of a well-formed SPIFFE identity.\<close>

lemma trustDomain_of_uri:
  "CHR ''/'' \<notin> set td \<Longrightarrow> td \<noteq> [] \<Longrightarrow> trustDomainFromSPIFFE (''spiffe://'' @ td @ ''/'' @ path) = td"
  by (induction td) (auto simp: trustDomainFromSPIFFE_def takeWhile_append)

end
