(* ===== verification/Session_Provenance.thy ===== *)
theory Session_Provenance
  imports Session_Concurrent Session_Query
begin

text \<open>
  Where an attested identity comes from. The events that calls are started with satisfy a
  predicate; every identity of the table, and so every answer of \<open>Lookup\<close>, then comes from
  such an event about the same connection, in every interleaving of the calls.
\<close>

section \<open>Keys without bars\<close>

definition bar_free :: "ReflectorEvent \<Rightarrow> bool" where
  "bar_free ev \<longleftrightarrow> CHR ''|'' \<notin> set (ev_NodeId ev) \<and> CHR ''|'' \<notin> set (ev_SourceAddr ev)
     \<and> CHR ''|'' \<notin> set (ev_DestAddr ev) \<and> CHR ''|'' \<notin> set (ev_SourceIdentity ev)"

lemma no_bar_utoa: "CHR ''|'' \<notin> set (utoa n)"
  using utoa_digits [of n] by (auto simp: list_all_iff is_digit_def)

lemma no_bar_time: "CHR ''|'' \<notin> set (RFC3339Nano t)"
proof -
  have p: "CHR ''|'' \<notin> set (pad n (utoa k))" for n k using no_bar_utoa [of k] by (simp add: pad_def)
  have "CHR ''|'' \<notin> set (rev (dropWhile Q (rev (pad n (utoa k)))))" for Q n k
    using p [of n k] by (auto dest: set_dropWhileD)
  with p show ?thesis by (simp add: RFC3339Nano_def Let_def split: prod.split)
qed

text \<open>A connection key is never the key of a rotation entry.\<close>

lemma connection_not_synthetic:
  assumes "bar_free ev" "bar_free ev1"
  shows "eventKey ev \<noteq> syntheticKey ev1 t"
proof
  assume "eventKey ev = syntheticKey ev1 t"
  then have "ev_SourceAddr ev @ CHR ''|'' # ev_DestAddr ev @ CHR ''|'' # ev_Protocol ev
      = ''rotation'' @ CHR ''|'' # RFC3339Nano t"
    using assms sep_inj [of "CHR ''|''" "ev_NodeId ev" "ev_SourceIdentity ev1"]
    by (simp add: eventKey_def connectionKey_def syntheticKey_def bar_free_def)
  then have "ev_DestAddr ev @ CHR ''|'' # ev_Protocol ev = RFC3339Nano t"
    using assms(1) sep_inj [of "CHR ''|''" "ev_SourceAddr ev" "''rotation''"] by (simp add: bar_free_def)
  then show False using no_bar_time [of t] by (metis in_set_conv_decomp)
qed

section \<open>Provenance\<close>

definition about :: "ReflectorEvent \<Rightarrow> Entry \<Rightarrow> bool" where
  "about ev e \<longleftrightarrow> en_NodeID e = ev_NodeId ev \<and> en_SourceAddr e = ev_SourceAddr ev
     \<and> en_DestAddr e = ev_DestAddr ev \<and> en_Protocol e = ev_Protocol ev"

definition event_identities :: "ReflectorEvent \<Rightarrow> string set" where
  "event_identities ev = {fst (pickIdentity ev), ev_SourceIdentity ev}"

definition sourced :: "(ReflectorEvent \<Rightarrow> bool) \<Rightarrow> Entry \<Rightarrow> bool" where
  "sourced P e \<longleftrightarrow> (\<exists>ev. P ev \<and> about ev e \<and> (en_Identity e \<noteq> [] \<longrightarrow> en_Identity e \<in> event_identities ev))"

definition key_sourced :: "(ReflectorEvent \<Rightarrow> bool) \<Rightarrow> string \<Rightarrow> Entry \<Rightarrow> bool" where
  "key_sourced P k e \<longleftrightarrow>
     k = connectionKey (en_NodeID e) (en_SourceAddr e) (en_DestAddr e) (en_Protocol e)
   \<or> (\<exists>ev t. P ev \<and> k = syntheticKey ev t)"

definition heap_sourced :: "(ReflectorEvent \<Rightarrow> bool) \<Rightarrow> Shared \<Rightarrow> bool" where
  "heap_sourced P s \<longleftrightarrow> (\<forall>a < length (sh_heap s). sourced P (sh_heap s ! a))
     \<and> (\<forall>(k, a) \<in> set (sh_table s). key_sourced P k (sh_heap s ! a))"

fun thread_sourced :: "(ReflectorEvent \<Rightarrow> bool) \<Rightarrow> thread \<Rightarrow> bool" where
  "thread_sourced P (Call wall ev) \<longleftrightarrow> P ev"
| "thread_sourced P (Tracking a wall ev now) \<longleftrightarrow> P ev"
| "thread_sourced P (Tracked a ev now class) \<longleftrightarrow> P ev"
| "thread_sourced P _ \<longleftrightarrow> True"

text \<open>A change of an entry that keeps its connection and its identity.\<close>

definition same_identity :: "Entry \<Rightarrow> Entry \<Rightarrow> bool" where
  "same_identity e e1 \<longleftrightarrow> en_NodeID e1 = en_NodeID e \<and> en_SourceAddr e1 = en_SourceAddr e
     \<and> en_DestAddr e1 = en_DestAddr e \<and> en_Protocol e1 = en_Protocol e \<and> en_Identity e1 = en_Identity e"

lemma sourced_same: "same_identity e e1 \<Longrightarrow> sourced P e \<Longrightarrow> sourced P e1"
  by (simp add: sourced_def about_def same_identity_def)

lemma same_identity_simps [simp]:
  "same_identity e e" "same_identity e (boundaryUpdate e ev)" "same_identity e (e\<lparr>en_Status := st\<rparr>)"
  "same_identity e (e\<lparr>en_Status := st, en_LastSeen := now, en_BytesTx := tx, en_BytesRx := rx\<rparr>)"
  "same_identity e (case sweep_entry c d e of None \<Rightarrow> e | Some e1 \<Rightarrow> e1)"
  by (simp_all add: same_identity_def) (simp add: sweep_entry_def)

lemma key_sourced_about: "key_sourced P k e \<Longrightarrow> settled e e1 \<Longrightarrow> key_sourced P k e1"
  by (simp add: key_sourced_def settled_def)

lemma heap_sourcedI:
  assumes "heap_sourced P s" "pointers_ok s" "heap_settled s s1"
    and new: "\<And>a. a < length (sh_heap s1) \<Longrightarrow> sourced P (sh_heap s1 ! a)"
    and table: "\<And>k a. (k, a) \<in> set (sh_table s1) \<Longrightarrow> (k, a) \<in> set (sh_table s) \<or> key_sourced P k (sh_heap s1 ! a)"
  shows "heap_sourced P s1"
proof -
  have "key_sourced P k (sh_heap s1 ! a)" if "(k, a) \<in> set (sh_table s)" for k a
  proof -
    have "a < length (sh_heap s)" using that assms(2) by (force simp: pointers_ok_def addresses_def)
    then have "settled (sh_heap s ! a) (sh_heap s1 ! a)" using assms(3) by (simp add: heap_settled_def)
    with that assms(1) key_sourced_about show ?thesis by (fastforce simp: heap_sourced_def)
  qed
  with table have "key_sourced P k (sh_heap s1 ! a)" if "(k, a) \<in> set (sh_table s1)" for k a
    using that by blast
  with new show ?thesis unfolding heap_sourced_def by blast
qed

lemma heap_sourced_put:
  assumes "heap_sourced P s" "pointers_ok s" "sourced P e" "key_sourced P k e"
  shows "heap_sourced P (put_entry k e s)"
proof (rule heap_sourcedI [OF assms(1,2) heap_settled_put])
  have sub: "set (AList.update k a xs) \<subseteq> insert (k, a) (set xs)" for a and xs :: "(string \<times> nat) list"
    by (induction xs) auto
  show "(k1, a) \<in> set (sh_table s) \<or> key_sourced P k1 (sh_heap (put_entry k e s) ! a)"
    if "(k1, a) \<in> set (sh_table (put_entry k e s))" for k1 a
    using that subsetD [OF sub, of "(k1, a)" "length (sh_heap s)" "sh_table s"] assms(4) by auto
  show "sourced P (sh_heap (put_entry k e s) ! a)" if "a < length (sh_heap (put_entry k e s))" for a
    using that assms(1,3) by (cases "a < length (sh_heap s)") (auto simp: heap_sourced_def nth_append less_Suc_eq)
qed

lemma heap_sourced_store:
  assumes "heap_sourced P s" "pointers_ok s" "\<And>e. settled e (f e)"
    and "a < length (sh_heap s) \<Longrightarrow> sourced P (f (sh_heap s ! a))"
  shows "heap_sourced P (store a f s)"
proof (rule heap_sourcedI [OF assms(1,2) heap_settled_store [OF assms(3)]])
  show "sourced P (sh_heap (store a f s) ! b)" if "b < length (sh_heap (store a f s))" for b
    using that assms(1,4) by (cases "b = a") (auto simp: heap_sourced_def store_def)
qed simp

lemma heap_sourced_same:
  assumes "heap_sourced P s" "pointers_ok s" "\<And>e. same_identity e (f e)" "\<And>e. settled e (f e)"
  shows "heap_sourced P (store a f s)"
  using assms(1) sourced_same [OF assms(3)] by (intro heap_sourced_store [OF assms(1,2,4)]) (simp add: heap_sourced_def)

lemma heap_sourced_write_all:
  assumes "heap_sourced P s" "pointers_ok s" "\<And>e. same_identity e (f e)" "\<And>e. settled e (f e)"
  shows "heap_sourced P (write_all f s)"
proof (rule heap_sourcedI [OF assms(1,2) heap_settled_write_all [OF assms(2,4)]])
  show "sourced P (sh_heap (write_all f s) ! a)" if "a < length (sh_heap (write_all f s))" for a
    using that assms(1) sourced_same [OF assms(3)] heap_write_all(1) [OF assms(2), of f] heap_write_all(2) [OF assms(2), of a f]
    by (auto simp: heap_sourced_def)
qed simp

lemma heap_sourced_table:
  "heap_sourced P s \<Longrightarrow> sh_heap s1 = sh_heap s \<Longrightarrow> set (sh_table s1) \<subseteq> set (sh_table s) \<Longrightarrow> heap_sourced P s1"
  by (auto simp: heap_sourced_def)

section \<open>Every step keeps it\<close>

lemma sourced_open: "P ev \<Longrightarrow> sourced P (openEntry ev now)"
  by (auto simp: sourced_def about_def event_identities_def intro!: exI [of _ ev])

lemma sourced_rotation: "P ev \<Longrightarrow> sourced P (rotationEntry ev now st)"
  by (auto simp: sourced_def about_def event_identities_def rotationEntry_def intro!: exI [of _ ev])

lemma sourced_rotation_serial: "P ev \<Longrightarrow> sourced P ((rotationEntry ev now st)\<lparr>en_PrevCertSerial := x\<rparr>)"
  using sourced_rotation [of P ev now st] by (simp add: sourced_def about_def)

lemma pointers_evict: "pointers_ok s \<Longrightarrow> pointers_ok (shared_evictOldest s)"
  by (auto simp: shared_evictOldest_def pointers_ok_def addresses_def AList.delete_eq distinct_map_filter Let_def
      split: prod.splits)

lemma key_sourced_event: "about ev e \<Longrightarrow> key_sourced P (eventKey ev) e"
  by (simp add: key_sourced_def about_def eventKey_def)

lemma about_entries [simp]:
  "about ev (openEntry ev now)" "about ev (rotationEntry ev now st)"
  "about ev ((rotationEntry ev now st)\<lparr>en_PrevCertSerial := x\<rparr>)"
  by (simp_all add: about_def rotationEntry_def)

text \<open>The entry that a data event finds is about the connection of the event.\<close>

lemma found_about:
  assumes "heap_sourced P s" "pointers_ok s" "\<forall>ev. P ev \<longrightarrow> bar_free ev" "P ev"
    and a: "map_of (sh_table s) (eventKey ev) = Some a"
  shows "about ev (sh_heap s ! a)"
proof -
  let ?e = "sh_heap s ! a"
  have "key_sourced P (eventKey ev) ?e" using assms(1) map_of_SomeD [OF a] by (auto simp: heap_sourced_def)
  then have k: "eventKey ev = connectionKey (en_NodeID ?e) (en_SourceAddr ?e) (en_DestAddr ?e) (en_Protocol ?e)"
    using connection_not_synthetic assms(3,4) by (auto simp: key_sourced_def)
  obtain ev1 where "P ev1" "about ev1 ?e"
    using assms(1) pointer_valid [OF assms(2) a] by (auto simp: heap_sourced_def sourced_def)
  with assms(3,4) have "bar_free ev1" "bar_free ev" by blast+
  with k \<open>about ev1 ?e\<close> show ?thesis
    by (auto simp: eventKey_def about_def bar_free_def connectionKey_injective)
qed

lemma sourced_data:
  assumes "P ev" "about ev e" "sourced P e"
  shows "sourced P (dataUpdate e ev now)"
proof (cases "en_Identity e = []")
  case True
  with assms(1,2) show ?thesis
    by (auto simp: sourced_def about_def event_identities_def intro!: exI [of _ ev])
next
  case False
  with assms(3) show ?thesis by (auto simp: sourced_def about_def)
qed

lemma sourced_end:
  assumes "heap_sourced P s" "pointers_ok s" "data_end s a ev now = (s1, t)"
  shows "heap_sourced P s1 \<and> thread_sourced P t"
  using assms(3) heap_sourced_same [OF assms(1,2), of "\<lambda>e. boundaryUpdate e ev" a]
  by (auto simp: data_end_def Let_def)

lemma sourced_first:
  assumes ok: "heap_sourced P s" "pointers_ok s" and P: "\<forall>ev. P ev \<longrightarrow> bar_free ev" "P ev"
    and step: "first_segment s wall ev = (s1, t)"
  shows "heap_sourced P s1 \<and> thread_sourced P t"
proof -
  define now where "now = eventTime wall ev"
  have stale: "heap_sourced P (shared_markStale s n)" for n
    unfolding shared_markStale_def by (rule heap_sourced_write_all [OF ok]) auto
  have close: "close_segment s ev now = (s1, t) \<Longrightarrow> ?thesis"
    using ok(1) heap_sourced_same [OF ok] by (auto simp: close_segment_def split: option.splits)
  have rot: "rotation_segment s ev now = (s1, t) \<Longrightarrow> ?thesis"
    using heap_sourced_put [OF ok] sourced_rotation_serial [of P ev] P(2) key_sourced_event [of ev]
    by (auto simp: rotation_segment_def)
  have data: "data_segment s wall ev now = (s1, t) \<Longrightarrow> ?thesis"
  proof (cases "map_of (sh_table s) (eventKey ev)")
    case (Some a)
    assume step: "data_segment s wall ev now = (s1, t)"
    let ?s = "store a (\<lambda>e. dataUpdate e ev now) s"
    have "sourced P (sh_heap s ! a)" using ok(1) pointer_valid [OF ok(2) Some] by (simp add: heap_sourced_def)
    then have "heap_sourced P ?s"
      using heap_sourced_store [OF ok, of "\<lambda>e. dataUpdate e ev now" a]
        sourced_data [of P ev, OF P(2) found_about [OF ok P Some]] by simp
    with step Some sourced_end [of P ?s a ev now s1 t] ok(2) P(2) show ?thesis
      by (auto simp: data_segment_def Let_def split: if_splits)
  qed (use ok in \<open>simp add: data_segment_def\<close>)
  have opened: "open_segment s ev now = (s1, t) \<Longrightarrow> ?thesis"
  proof -
    assume step: "open_segment s ev now = (s1, t)"
    let ?s = "if sh_maxEntries s > 0 \<and> int (length (sh_table s)) \<ge> sh_maxEntries s then shared_evictOldest s else s"
    have evict: "heap_sourced P (shared_evictOldest s)"
      by (rule heap_sourced_table [OF ok(1)]) (auto simp: shared_evictOldest_def Let_def AList.delete_eq split: prod.splits)
    with ok have "heap_sourced P ?s" "pointers_ok ?s" by (auto simp: pointers_evict)
    with heap_sourced_put sourced_open P(2) key_sourced_event about_entries(1)
    have "heap_sourced P (put_entry (eventKey ev) (openEntry ev now) ?s)" by blast
    with step show ?thesis by (auto simp: open_segment_def Let_def split: prod.splits if_splits)
  qed
  show ?thesis
    using step stale close rot data opened ok(1) unfolding first_segment_def Let_def now_def [symmetric]
    by (cases "ev_EventType ev") auto
qed

lemma sourced_advance:
  assumes ok: "heap_sourced P s" "pointers_ok s" and P: "\<forall>ev. P ev \<longrightarrow> bar_free ev" "thread_sourced P t"
    and step: "advance (s, t) = (s1, t1)"
  shows "heap_sourced P s1 \<and> thread_sourced P t1"
proof (cases t)
  case (Call wall ev)
  with assms sourced_first show ?thesis by simp
next
  case (Tracking a wall ev now)
  with assms heap_sourced_table show ?thesis by (auto split: prod.splits)
next
  case (Tracked a ev now cl)
  have ev: "P ev" using P(2) Tracked by simp
  then have "key_sourced P (syntheticKey ev now) e" for e unfolding key_sourced_def by blast
  with ok(1) heap_sourced_put [OF ok] sourced_rotation [of P ev] ev have "heap_sourced P (record_rotation s ev now cl)"
    by (simp add: record_rotation_def)
  moreover have "pointers_ok (record_rotation s ev now cl)" using ok(2) pointers_put by (simp add: record_rotation_def)
  ultimately show ?thesis using sourced_end step Tracked by simp
next
  case (Reading a ev now)
  with assms show ?thesis by (auto simp: Let_def)
next
  case (Observing ident dest tool ev now)
  with assms heap_sourced_table show ?thesis by auto
next
  case Done
  with assms show ?thesis by simp
qed

section \<open>Processes that see only such events\<close>

definition sees :: "(ReflectorEvent \<Rightarrow> bool) \<Rightarrow> Shared \<times> thread list \<Rightarrow> Shared \<times> thread list \<Rightarrow> bool" where
  "sees P c c1 \<longleftrightarrow> interleave c c1 \<and> (\<forall>wall ev. Call wall ev \<in> set (snd c1) \<longrightarrow> P ev)"

definition provenance :: "(ReflectorEvent \<Rightarrow> bool) \<Rightarrow> Shared \<times> thread list \<Rightarrow> bool" where
  "provenance P c \<longleftrightarrow> (\<forall>ev. P ev \<longrightarrow> bar_free ev) \<longrightarrow>
     calls_ok c \<and> heap_sourced P (fst c) \<and> list_all (thread_sourced P) (snd c)"

lemma provenance_move:
  assumes "provenance P c" "sees P c c1"
  shows "provenance P c1"
  unfolding provenance_def
proof (intro impI conjI)
  assume P: "\<forall>ev. P ev \<longrightarrow> bar_free ev"
  with assms(1) have c: "calls_ok c" "heap_sourced P (fst c)" "list_all (thread_sourced P) (snd c)"
    by (simp_all add: provenance_def)
  have move: "interleave c c1" using assms(2) by (simp add: sees_def)
  show "calls_ok c1" using calls_move [OF c(1) move] by simp
  have p: "pointers_ok (fst c)" using c(1) by (simp add: calls_ok_def shared_ok_def)
  from move have "heap_sourced P (fst c1) \<and> list_all (thread_sourced P) (snd c1)"
  proof cases
    case (Start s ts wall ev)
    with c assms(2) show ?thesis by (auto simp: sees_def)
  next
    case (Advance i ts s s1 t)
    have "heap_sourced P s1 \<and> thread_sourced P t"
      using c p Advance by (intro sourced_advance [OF _ _ P _ Advance(4)]) (simp_all add: list_all_length)
    with c(3) Advance show ?thesis
      unfolding list_all_iff using set_update_subset_insert [of ts i t] by auto
  next
    case (Sweeping s ts now)
    let ?swept = "sweep_entry (now + wrap64 (- sh_staleTTL s)) (now + wrap64 (- 2 * sh_staleTTL s))"
    let ?s = "s\<lparr>sh_table := filter (\<lambda>(k, a). ?swept (sh_heap s ! a) \<noteq> None) (sh_table s)\<rparr>"
    have "heap_sourced P s" using c(2) Sweeping(1) by simp
    then have "heap_sourced P ?s" by (rule heap_sourced_table) auto
    moreover have "pointers_ok ?s" by (rule pointers_restrict) (use p Sweeping(1) in simp)
    ultimately have "heap_sourced P (shared_Sweep s now)"
      unfolding shared_Sweep_def Let_def by (rule heap_sourced_write_all) simp_all
    with c(3) Sweeping show ?thesis by simp
  next
    case (Reorder es s ts)
    with c mset_eq_setD [of es "sh_table s"] heap_sourced_table [of P s "s\<lparr>sh_table := es\<rparr>"] show ?thesis by simp
  qed
  then show "heap_sourced P (fst c1)" "list_all (thread_sourced P) (snd c1)" by simp_all
qed

interpretation sourcing: interference "sees P" "provenance P" "\<lambda>c c1. True" for P
  by unfold_locales (auto intro: provenance_move)

lemma new_provenance: "provenance P (new_shared ttl, [])"
  using new_calls_ok by (simp add: provenance_def heap_sourced_def) (simp add: new_shared_def)


definition ex_seen :: "Shared \<times> thread" where
  "ex_seen = advance (new_shared 60, Call 0 (ev_open ''alice'' 7))"


end
