(* ===== verification/Ring_Events.thy ===== *)
theory Ring_Events
  imports Go_Time
begin

text \<open>
  The records that the eBPF programs put into their ring buffers, and how the
  reflector decodes them: connection events (\<^verbatim>\<open>internal/extract/event.go\<close>), captured TLS
  plaintext (\<^verbatim>\<open>internal/extract/tls_event.go\<close>) and certificates
  (\<^verbatim>\<open>internal/ebpf/cert_loader.go\<close>, \<^verbatim>\<open>internal/certebpf/loader.go\<close>). A decoder returns an
  error text or the event. The encoders are the packed structs of the C programs;
  the properties are the round trips and what the decoders do with any other bytes.
\<close>

section \<open>Fields\<close>

definition Uint16 :: "bytes \<Rightarrow> u16" where "Uint16 b = word_of_nat (le_val b)"
definition Uint32 :: "bytes \<Rightarrow> u32" where "Uint32 b = word_of_nat (le_val b)"
definition Uint64 :: "bytes \<Rightarrow> u64" where "Uint64 b = word_of_nat (le_val b)"

definition byte_at :: "bytes \<Rightarrow> nat \<Rightarrow> u8" where
  "byte_at b i = word_of_nat (of_char (b ! i))"

text \<open>\<^verbatim>\<open>time.Duration(x) * time.Nanosecond\<close> for an unsigned \<^verbatim>\<open>x\<close>: the conversion wraps.\<close>

definition duration_of :: "u64 \<Rightarrow> duration" where
  "duration_of x = wrap64 (uint x)"

definition put16 :: "u16 \<Rightarrow> bytes" where "put16 x = le_put 2 (unat x)"
definition put32 :: "u32 \<Rightarrow> bytes" where "put32 x = le_put 4 (unat x)"
definition put64 :: "u64 \<Rightarrow> bytes" where "put64 x = le_put 8 (unat x)"
definition put8 :: "u8 \<Rightarrow> bytes" where "put8 x = [char_of (unat x)]"

lemma length_put [simp]:
  "length (put8 a) = 1" "length (put16 b) = 2" "length (put32 c) = 4" "length (put64 d) = 8"
  by (simp_all add: put8_def put16_def put32_def put64_def)

lemma word_nat_id: "unat (x :: 'a :: len word) mod 2 ^ LENGTH('a) = unat x"
  by simp

lemma get_put [simp]: "Uint16 (put16 a) = a" "Uint32 (put32 b) = b" "Uint64 (put64 c) = c"
  "word_of_nat (unat d mod 256) = (d :: u8)"
  using word_nat_id [of a] word_nat_id [of b] word_nat_id [of c] word_nat_id [of d]
  by (simp_all add: Uint16_def put16_def Uint32_def put32_def Uint64_def put64_def le_val_put)

section \<open>Connection events\<close>

datatype conn_type = EventConnect | EventAccept | conn_type_Other u8

fun conn_type_of :: "u8 \<Rightarrow> conn_type" where
  "conn_type_of n = (if n = 0 then EventConnect else if n = 1 then EventAccept else conn_type_Other n)"

fun conn_type_String :: "conn_type \<Rightarrow> string" where
  "conn_type_String EventConnect = ''connect''"
| "conn_type_String EventAccept = ''accept''"
| "conn_type_String (conn_type_Other n) = ''unknown('' @ utoa (unat n) @ '')''"

datatype AddressFamily = AFInet | AFInet6 | AF_Other u8

fun family_of :: "u8 \<Rightarrow> AddressFamily" where
  "family_of n = (if n = 2 then AFInet else if n = 10 then AFInet6 else AF_Other n)"

record RawEvent =
  re_TimestampNS :: u64
  re_PID :: u32
  re_TID :: u32
  re_SrcAddr :: u32
  re_DstAddr :: u32
  re_SrcPort :: u16
  re_DstPort :: u16
  re_Protocol :: u8
  re_EventType :: u8
  re_AF :: u8
  re_Pad :: u8
  re_SrcAddr6 :: bytes
  re_DstAddr6 :: bytes

definition RawEventSize :: nat where "RawEventSize = 64"

record ConnectionEvent =
  ce_Timestamp :: duration
  ce_PID :: u32
  ce_TID :: u32
  ce_SrcIP :: bytes
  ce_DstIP :: bytes
  ce_SrcPort :: u16
  ce_DstPort :: u16
  ce_Protocol :: u8
  ce_Type :: conn_type
  ce_Family :: AddressFamily

definition uint32ToIPv4 :: "u32 \<Rightarrow> bytes" where
  "uint32ToIPv4 addr = put32 addr"

definition read_RawEvent :: "bytes \<Rightarrow> RawEvent" where
  "read_RawEvent b =
     \<lparr>re_TimestampNS = Uint64 (slice b 0 8), re_PID = Uint32 (slice b 8 12),
      re_TID = Uint32 (slice b 12 16), re_SrcAddr = Uint32 (slice b 16 20),
      re_DstAddr = Uint32 (slice b 20 24), re_SrcPort = Uint16 (slice b 24 26),
      re_DstPort = Uint16 (slice b 26 28), re_Protocol = byte_at b 28, re_EventType = byte_at b 29,
      re_AF = byte_at b 30, re_Pad = 0, re_SrcAddr6 = slice b 32 48, re_DstAddr6 = slice b 48 64\<rparr>"

definition ParseEvent :: "bytes \<Rightarrow> string + ConnectionEvent" where
  "ParseEvent b =
     (if length b < RawEventSize
      then Inl (''event too short: got '' @ utoa (length b) @ '' bytes, want '' @ utoa RawEventSize)
      else
        let raw = read_RawEvent b;
            ev = \<lparr>ce_Timestamp = duration_of (re_TimestampNS raw), ce_PID = re_PID raw, ce_TID = re_TID raw,
                  ce_SrcIP = [], ce_DstIP = [], ce_SrcPort = re_SrcPort raw, ce_DstPort = re_DstPort raw,
                  ce_Protocol = re_Protocol raw, ce_Type = conn_type_of (re_EventType raw),
                  ce_Family = family_of (re_AF raw)\<rparr>
        in case ce_Family ev of
             AFInet \<Rightarrow> Inr (ev\<lparr>ce_SrcIP := uint32ToIPv4 (re_SrcAddr raw), ce_DstIP := uint32ToIPv4 (re_DstAddr raw)\<rparr>)
           | AFInet6 \<Rightarrow> Inr (ev\<lparr>ce_SrcIP := re_SrcAddr6 raw, ce_DstIP := re_DstAddr6 raw\<rparr>)
           | AF_Other n \<Rightarrow> Inl (''unsupported address family: '' @ utoa (unat n)))"

text \<open>
  \<^verbatim>\<open>net.IP.String\<close>: dotted decimal for four bytes and for an IPv4-mapped address,
  otherwise eight groups with the first longest run of at least two zero groups
  replaced by two colons; a question mark and hex digits for any other length.
\<close>

definition dotted :: "bytes \<Rightarrow> string" where
  "dotted ip = concat (map (\<lambda>(i, c). (if i = 0 then [] else ''.'') @ utoa (of_char c)) (enumerate 0 ip))"

fun hex_nat :: "nat \<Rightarrow> string" where
  "hex_nat n = (if n < 16 then [hex_lower n] else hex_nat (n div 16) @ [hex_lower (n mod 16)])"

declare hex_nat.simps [simp del]

definition groups :: "bytes \<Rightarrow> nat list" where
  "groups ip = map (\<lambda>i. 256 * of_char (ip ! (2 * i)) + of_char (ip ! (2 * i + 1))) [0..<8]"

definition zero_run :: "nat list \<Rightarrow> nat \<Rightarrow> nat" where
  "zero_run gs i = length (takeWhile (\<lambda>g. g = 0) (drop i gs))"

text \<open>The first position with the longest run of zero groups, if that is at least two.\<close>

definition best_run :: "nat list \<Rightarrow> nat \<times> nat" where
  "best_run gs = foldl (\<lambda>(s, l) i. if zero_run gs i > l then (i, zero_run gs i) else (s, l)) (0, 1) [0..<length gs]"

definition ipv6_string :: "bytes \<Rightarrow> string" where
  "ipv6_string ip =
     (let gs = groups ip; (s, l) = best_run gs;
          join = (\<lambda>xs. concat (map (\<lambda>(i, g). (if i = 0 then [] else '':'') @ hex_nat g) (enumerate 0 xs)))
      in if l < 2 then join gs else join (take s gs) @ ''::'' @ join (drop (s + l) gs))"

definition mapped_prefix :: bytes where
  "mapped_prefix = replicate 10 (CHR 0x00) @ replicate 2 (CHR 0xFF)"

definition ip_String :: "bytes \<Rightarrow> string" where
  "ip_String ip =
     (if length ip = 0 then ''<nil>''
      else if length ip = 4 then dotted ip
      else if length ip = 16 then
        (if take 12 ip = mapped_prefix then dotted (drop 12 ip) else ipv6_string ip)
      else ''?'' @ concat (map (\<lambda>c. [hex_lower (of_char c div 16), hex_lower (of_char c mod 16)]) ip))"

definition FiveTuple :: "ConnectionEvent \<Rightarrow> string" where
  "FiveTuple e = ip_String (ce_SrcIP e) @ '':'' @ utoa (unat (ce_SrcPort e)) @ '' -> '' @ ip_String (ce_DstIP e)
     @ '':'' @ utoa (unat (ce_DstPort e)) @ '' proto='' @ utoa (unat (ce_Protocol e))"

text \<open>The packed C struct of the connection program.\<close>

definition put_RawEvent :: "RawEvent \<Rightarrow> bytes" where
  "put_RawEvent r = put64 (re_TimestampNS r) @ put32 (re_PID r) @ put32 (re_TID r) @ put32 (re_SrcAddr r)
     @ put32 (re_DstAddr r) @ put16 (re_SrcPort r) @ put16 (re_DstPort r) @ put8 (re_Protocol r)
     @ put8 (re_EventType r) @ put8 (re_AF r) @ put8 (re_Pad r) @ re_SrcAddr6 r @ re_DstAddr6 r"

lemma slice_field: "length f = j - i \<Longrightarrow> length p = i \<Longrightarrow> i \<le> j \<Longrightarrow> slice (p @ f @ r) i j = f"
  by (simp add: slice_def)

lemma read_put_RawEvent:
  assumes "length (re_SrcAddr6 r) = 16" "length (re_DstAddr6 r) = 16"
  shows "read_RawEvent (put_RawEvent r @ rest) = r\<lparr>re_Pad := 0\<rparr>"
  using assms
  by (intro RawEvent.equality) (simp_all add: read_RawEvent_def put_RawEvent_def byte_at_def
      nth_append put8_def slice_def)

text \<open>
  Decoding inverts the layout of the kernel's struct. For every raw
  event, the bytes of its packed struct (followed by anything) decode to an event
  with the same fields; an IPv4 address comes out as the four bytes the kernel
  stored, an IPv6 address as its sixteen bytes, and any other family is an error.
\<close>

lemma ParseEvent_put_rest:
  assumes "length (re_SrcAddr6 r) = 16" and "length (re_DstAddr6 r) = 16"
  shows "ParseEvent (put_RawEvent r @ rest) =
     (let ev = \<lparr>ce_Timestamp = duration_of (re_TimestampNS r), ce_PID = re_PID r, ce_TID = re_TID r,
                ce_SrcIP = (if re_AF r = 2 then put32 (re_SrcAddr r) else re_SrcAddr6 r),
                ce_DstIP = (if re_AF r = 2 then put32 (re_DstAddr r) else re_DstAddr6 r),
                ce_SrcPort = re_SrcPort r, ce_DstPort = re_DstPort r, ce_Protocol = re_Protocol r,
                ce_Type = conn_type_of (re_EventType r), ce_Family = family_of (re_AF r)\<rparr>
      in if re_AF r = 2 \<or> re_AF r = 10 then Inr ev
         else Inl (''unsupported address family: '' @ utoa (unat (re_AF r))))"
proof -
  have "length (put_RawEvent r) = 64" using assms by (simp add: put_RawEvent_def)
  then show ?thesis
    by (simp add: ParseEvent_def RawEventSize_def read_put_RawEvent [OF assms] uint32ToIPv4_def)
qed

definition raw_example :: RawEvent where
  "raw_example = \<lparr>re_TimestampNS = 5, re_PID = 7, re_TID = 8, re_SrcAddr = 0x0100000A, re_DstAddr = 0x0200000A,
     re_SrcPort = 4000, re_DstPort = 443, re_Protocol = 6, re_EventType = 1, re_AF = 2, re_Pad = 0,
     re_SrcAddr6 = replicate 16 (CHR 0x00), re_DstAddr6 = replicate 16 (CHR 0x00)\<rparr>"

section \<open>TLS plaintext events\<close>

datatype TLSEventType = TLSEventWrite | TLSEventRead | TLSEventType_Other u8

fun tls_type_of :: "u8 \<Rightarrow> TLSEventType" where
  "tls_type_of n = (if n = 0 then TLSEventWrite else if n = 1 then TLSEventRead else TLSEventType_Other n)"

fun tls_type_String :: "TLSEventType \<Rightarrow> string" where
  "tls_type_String TLSEventWrite = ''write''"
| "tls_type_String TLSEventRead = ''read''"
| "tls_type_String (TLSEventType_Other n) = ''unknown('' @ utoa (unat n) @ '')''"

definition MaxCaptureBytes :: nat where "MaxCaptureBytes = 4096"

definition TLSDataEventSize :: nat where
  "TLSDataEventSize = 8 + 4 + 4 + 4 + 4 + 1 + 3 + MaxCaptureBytes"

record TLSDataEvent =
  td_Timestamp :: duration
  td_PID :: u32
  td_TID :: u32
  td_Len :: u32
  td_OriginalLen :: u32
  td_Type :: TLSEventType
  td_Data :: bytes

definition capped :: "nat \<Rightarrow> u32 \<Rightarrow> u32" where
  "capped mx n = (if unat n > mx then word_of_nat mx else n)"

definition ParseTLSDataEvent :: "bytes \<Rightarrow> string + TLSDataEvent" where
  "ParseTLSDataEvent b =
     (if length b < TLSDataEventSize
      then Inl (''TLS event too short: got '' @ utoa (length b) @ '' bytes, want '' @ utoa TLSDataEventSize)
      else
        let captureLen = capped MaxCaptureBytes (Uint32 (slice b 16 20)) in
        Inr \<lparr>td_Timestamp = duration_of (Uint64 (slice b 0 8)), td_PID = Uint32 (slice b 8 12),
             td_TID = Uint32 (slice b 12 16), td_Len = captureLen,
             td_OriginalLen = Uint32 (slice b 20 24), td_Type = tls_type_of (byte_at b 24),
             td_Data = slice b 28 (28 + unat captureLen)\<rparr>)"

section \<open>Certificate events\<close>

record CertEvent =
  cv_TimestampNS :: u64
  cv_PID :: u32
  cv_TID :: u32
  cv_DERLen :: u32
  cv_OrigLen :: u32
  cv_DER :: bytes

definition maxDERBytes :: nat where "maxDERBytes = 2048"

definition ParseCertEvent :: "bytes \<Rightarrow> string + CertEvent" where
  "ParseCertEvent b =
     (let hdr = 24 in
      if length b < hdr + maxDERBytes then Inl (''cert event too short: '' @ utoa (length b) @ '' bytes'')
      else
        let derLen = capped maxDERBytes (Uint32 (slice b 16 20)) in
        Inr \<lparr>cv_TimestampNS = Uint64 (slice b 0 8), cv_PID = Uint32 (slice b 8 12),
             cv_TID = Uint32 (slice b 12 16), cv_DERLen = derLen, cv_OrigLen = Uint32 (slice b 20 24),
             cv_DER = slice b 24 (24 + unat derLen)\<rparr>)"

text \<open>The decoder of the separate loader package, which keeps a duration.\<close>

record CertEvent2 =
  cw_Timestamp :: duration
  cw_PID :: u32
  cw_TID :: u32
  cw_DERLen :: u32
  cw_OrigLen :: u32
  cw_DER :: bytes

definition CertEventSize :: nat where "CertEventSize = 8 + 4 + 4 + 4 + 4 + maxDERBytes"

definition certebpf_ParseCertEvent :: "bytes \<Rightarrow> string + CertEvent2" where
  "certebpf_ParseCertEvent b =
     (if length b < CertEventSize
      then Inl (''cert event too short: got '' @ utoa (length b) @ '' bytes, want '' @ utoa CertEventSize)
      else
        let derLen = capped maxDERBytes (Uint32 (slice b 16 20)) in
        Inr \<lparr>cw_Timestamp = duration_of (Uint64 (slice b 0 8)), cw_PID = Uint32 (slice b 8 12),
             cw_TID = Uint32 (slice b 12 16), cw_DERLen = derLen, cw_OrigLen = Uint32 (slice b 20 24),
             cw_DER = slice b 24 (24 + unat derLen)\<rparr>)"

lemma capped_le: "mx < 2 ^ 32 \<Longrightarrow> unat (capped mx n) \<le> mx \<and> unat (capped mx n) = min mx (unat n)"
  by (simp add: capped_def unat_of_nat)

lemma unat_Uint32: "length f = 4 \<Longrightarrow> unat (Uint32 f) = le_val f"
  using le_val_bound [of f] by (simp add: Uint32_def unat_of_nat)

lemma length_field: "20 \<le> length b \<Longrightarrow> unat (Uint32 (slice b 16 20)) = le_val (slice b 16 20)"
  by (simp add: unat_Uint32)

text \<open>
  The decoders of captured data never trust the length field. For any
  bytes at all, the two decoders fail exactly when there are fewer bytes than the
  fixed record, and otherwise the data has exactly the reported length, which is the
  length field capped at the size of the record's buffer, and is a piece of the
  record; the two certificate decoders agree.
\<close>

lemma capture_bounded:
  "(case ParseTLSDataEvent b of
      Inl err \<Rightarrow> length b < 4124
    | Inr ev \<Rightarrow> 4124 \<le> length b \<and> length (td_Data ev) = unat (td_Len ev)
        \<and> unat (td_Len ev) = min 4096 (le_val (slice b 16 20))
        \<and> td_Data ev = take (unat (td_Len ev)) (drop 28 b))
   \<and> (case ParseCertEvent b of
      Inl err \<Rightarrow> length b < 2072 \<and> (\<exists>err2. certebpf_ParseCertEvent b = Inl err2)
    | Inr ev \<Rightarrow> 2072 \<le> length b \<and> length (cv_DER ev) = unat (cv_DERLen ev)
        \<and> unat (cv_DERLen ev) = min 2048 (le_val (slice b 16 20))
        \<and> cv_DER ev = take (unat (cv_DERLen ev)) (drop 24 b)
        \<and> (\<exists>ev2. certebpf_ParseCertEvent b = Inr ev2 \<and> cw_DER ev2 = cv_DER ev
              \<and> cw_PID ev2 = cv_PID ev \<and> cw_DERLen ev2 = cv_DERLen ev))"
  (is "?tls \<and> ?cert")
proof
  have "4124 \<le> length b \<Longrightarrow> 28 + min 4096 (le_val (slice b 16 20)) \<le> length b" by linarith
  then show ?tls
    using capped_le [of 4096 "Uint32 (slice b 16 20)"] length_field [of b]
    by (simp add: ParseTLSDataEvent_def TLSDataEventSize_def MaxCaptureBytes_def Let_def)
       (simp add: slice_def)
  have "2072 \<le> length b \<Longrightarrow> 24 + min 2048 (le_val (slice b 16 20)) \<le> length b" by linarith
  then show ?cert
    using capped_le [of 2048 "Uint32 (slice b 16 20)"] length_field [of b]
    by (simp add: ParseCertEvent_def certebpf_ParseCertEvent_def CertEventSize_def maxDERBytes_def Let_def)
       (simp add: slice_def)
qed

end
