(* ===== verification/Enforce.thy ===== *)
theory Enforce
  imports Ring_Events
begin

text \<open>
  Enforcement: the deny map that the reflector fills (\<^verbatim>\<open>internal/ebpf/tc_loader.go\<close>), the
  classifier that reads it (\<^verbatim>\<open>internal/ebpf/bpf/tc_drop.c\<close>), and the files under \<^verbatim>\<open>/proc\<close> that it
  parses (\<^verbatim>\<open>internal/ebpf/proc_conn.go\<close>, \<^verbatim>\<open>internal/ebpf/proc_scanner.go\<close>, \<^verbatim>\<open>DefaultIface\<close>). The kernel map is keyed by the bytes of the key: the Go side
  marshals its struct in the byte order of the machine, the classifier copies the
  fields out of the packet. File contents and \<^verbatim>\<open>stat\<close> are parameters.
\<close>

section \<open>Text files\<close>

text \<open>\<^verbatim>\<open>bufio.Scanner\<close> lines: split at newlines, without a trailing carriage return or an empty last line.\<close>

definition drop_cr :: "string \<Rightarrow> string" where
  "drop_cr l = (if l \<noteq> [] \<and> last l = CHR 0x0D then butlast l else l)"

definition scan_lines :: "string \<Rightarrow> string list" where
  "scan_lines s = map drop_cr (let ls = Split (CHR 0x0A) s in if last ls = [] then butlast ls else ls)"

text \<open>\<^verbatim>\<open>strings.Fields\<close>.\<close>

function fields_from :: "string \<Rightarrow> string \<Rightarrow> string list" where
  "fields_from acc s =
     (let flush = (if acc = [] then [] else [acc]) in
      if s = [] then flush
      else let w = snd (DecodeRune s) in
        if IsSpace (fst (DecodeRune s)) then flush @ fields_from [] (drop w s)
        else fields_from (acc @ take w s) (drop w s))"
  by pat_completeness auto
termination
  by (relation "measure (length \<circ> snd)") (auto dest: DecodeRune_width)

declare fields_from.simps [simp del]

definition Fields :: "string \<Rightarrow> string list" where
  "Fields s = fields_from [] s"

section \<open>Connections of a process\<close>

record TCPConn =
  cn_SrcIP :: bytes
  cn_DstIP :: bytes
  cn_DstPort :: u16

fun hex_decode :: "string \<Rightarrow> bytes option" where
  "hex_decode [] = Some []"
| "hex_decode [c] = None"
| "hex_decode (c # d # r) =
     (case (hex_value c, hex_value d, hex_decode r) of
        (Some a, Some b, Some bs) \<Rightarrow> Some (char_of (16 * a + b) # bs) | _ \<Rightarrow> None)"

text \<open>\<^verbatim>\<open>fmt.Sscanf(s, "%X", &port)\<close> for a 16-bit port: the leading hexadecimal digits.\<close>

definition scan_hex16 :: "string \<Rightarrow> u16 option" where
  "scan_hex16 s =
     (let ds = takeWhile (\<lambda>c. hex_value c \<noteq> None) s;
          v = foldl (\<lambda>v c. 16 * v + the (hex_value c)) 0 ds
      in if ds = [] then None else if v < 65536 then Some (word_of_nat v) else None)"

definition parseHexAddr :: "string \<Rightarrow> (bytes \<times> u16) option" where
  "parseHexAddr s =
     (case SplitN 2 (CHR '':'') s of
        [ipHex, portHex] \<Rightarrow>
          if length ipHex \<noteq> 8 then None
          else (case hex_decode ipHex of
                  None \<Rightarrow> None
                | Some raw \<Rightarrow>
                    (case scan_hex16 portHex of
                       None \<Rightarrow> None
                     | Some port \<Rightarrow> Some ([raw ! 3, raw ! 2, raw ! 1, raw ! 0], port)))
      | _ \<Rightarrow> None)"

definition conn_of_line :: "string \<Rightarrow> TCPConn option" where
  "conn_of_line line =
     (let fields = Fields line in
      if length fields < 4 then None
      else if fields ! 3 \<noteq> ''01'' then None
      else (case (parseHexAddr (fields ! 1), parseHexAddr (fields ! 2)) of
              (Some (srcIP, _), Some (dstIP, dstPort)) \<Rightarrow>
                Some \<lparr>cn_SrcIP = srcIP, cn_DstIP = dstIP, cn_DstPort = dstPort\<rparr>
            | _ \<Rightarrow> None))"

text \<open>The connections in the text of \<^verbatim>\<open>/proc/<pid>/net/tcp\<close>, after its header line.\<close>

definition ConnsByPID :: "(u32 \<Rightarrow> string option) \<Rightarrow> u32 \<Rightarrow> TCPConn list option" where
  "ConnsByPID procNetTcp pid =
     map_option (\<lambda>text. List.map_filter conn_of_line (tl (scan_lines text))) (procNetTcp pid)"

definition DefaultIface :: "string option \<Rightarrow> string" where
  "DefaultIface procNetRoute =
     (case procNetRoute of None \<Rightarrow> ''eth0''
      | Some text \<Rightarrow>
          (case find (\<lambda>fs. \<not> length fs < 2 \<and> fs ! 1 = ''00000000'') (map Fields (tl (scan_lines text))) of
             Some fs \<Rightarrow> fs ! 0 | None \<Rightarrow> ''eth0''))"

section \<open>The deny map\<close>

record FlowKey =
  fk_SrcIP :: u32
  fk_DstIP :: u32
  fk_DstPort :: u16
  fk_Protocol :: u8
  fk_Pad :: u8

text \<open>\<^verbatim>\<open>net.IP.To4\<close>.\<close>

definition To4 :: "bytes \<Rightarrow> bytes option" where
  "To4 ip = (if length ip = 4 then Some ip
     else if length ip = 16 \<and> take 12 ip = mapped_prefix then Some (drop 12 ip) else None)"

definition BigEndian_Uint32 :: "bytes \<Rightarrow> u32" where
  "BigEndian_Uint32 b = word_of_nat (be_val b)"

definition IPPROTO_TCP :: u8 where "IPPROTO_TCP = 6"

definition makeFlowKey :: "bytes \<Rightarrow> bytes \<Rightarrow> u16 \<Rightarrow> FlowKey" where
  "makeFlowKey srcIP dstIP dstPort =
     \<lparr>fk_SrcIP = (case To4 srcIP of Some b \<Rightarrow> BigEndian_Uint32 b | None \<Rightarrow> 0),
      fk_DstIP = (case To4 dstIP of Some b \<Rightarrow> BigEndian_Uint32 b | None \<Rightarrow> 0),
      fk_DstPort = dstPort, fk_Protocol = IPPROTO_TCP, fk_Pad = 0\<rparr>"

text \<open>The bytes of the key in memory, on a little-endian or a big-endian machine.\<close>

definition key_bytes :: "bool \<Rightarrow> FlowKey \<Rightarrow> bytes" where
  "key_bytes little k =
     (let put = (\<lambda>n v. if little then le_put n v else be_put n v) in
      put 4 (unat (fk_SrcIP k)) @ put 4 (unat (fk_DstIP k)) @ put 2 (unat (fk_DstPort k))
      @ put8 (fk_Protocol k) @ put8 (fk_Pad k))"

text \<open>The kernel map, by key bytes. Its eviction of old flows beyond 4096 entries is the kernel's and is left out.\<close>

type_synonym deny_map = "bytes \<Rightarrow> u64 option"

definition DenyFlow :: "bool \<Rightarrow> deny_map \<Rightarrow> u64 \<Rightarrow> bytes \<Rightarrow> bytes \<Rightarrow> u16 \<Rightarrow> deny_map" where
  "DenyFlow little m ts srcIP dstIP dstPort = m(key_bytes little (makeFlowKey srcIP dstIP dstPort) \<mapsto> ts)"

text \<open>\<^verbatim>\<open>AllowFlow\<close>: deleting an absent key is an error.\<close>

definition AllowFlow :: "bool \<Rightarrow> deny_map \<Rightarrow> bytes \<Rightarrow> bytes \<Rightarrow> u16 \<Rightarrow> deny_map option" where
  "AllowFlow little m srcIP dstIP dstPort =
     (let k = key_bytes little (makeFlowKey srcIP dstIP dstPort) in
      if m k = None then None else Some (m(k := None)))"

section \<open>The classifier\<close>

datatype tc_action = TC_ACT_OK | TC_ACT_SHOT

text \<open>
  \<^verbatim>\<open>check_and_drop\<close>: an Ethernet header of 14 bytes, an IPv4 header whose length is in
  its first byte, a TCP header of 20 bytes; the key holds the bytes of the packet.
\<close>

definition check_and_drop :: "deny_map \<Rightarrow> bytes \<Rightarrow> tc_action" where
  "check_and_drop m pkt =
     (if 14 > length pkt then TC_ACT_OK
      else if slice pkt 12 14 \<noteq> [CHR 0x08, CHR 0x00] then TC_ACT_OK
      else if 34 > length pkt then TC_ACT_OK
      else if byte_at pkt 23 \<noteq> IPPROTO_TCP then TC_ACT_OK
      else let ip_hlen = (of_char (pkt ! 14) mod 16) * 4 in
        if ip_hlen < 20 then TC_ACT_OK
        else if 14 + ip_hlen + 20 > length pkt then TC_ACT_OK
        else let key = slice pkt 26 30 @ slice pkt 30 34 @ slice pkt (14 + ip_hlen + 2) (14 + ip_hlen + 4)
                       @ put8 IPPROTO_TCP @ put8 0
          in if m key \<noteq> None then TC_ACT_SHOT else TC_ACT_OK)"

text \<open>A TCP packet without options, between two IPv4 addresses.\<close>

definition tcp_packet :: "bytes \<Rightarrow> bytes \<Rightarrow> u16 \<Rightarrow> bytes \<Rightarrow> bytes" where
  "tcp_packet srcIP dstIP dstPort payload =
     replicate 12 (CHR 0x00) @ [CHR 0x08, CHR 0x00]
     @ [CHR 0x45] @ replicate 8 (CHR 0x00) @ put8 IPPROTO_TCP @ replicate 2 (CHR 0x00) @ srcIP @ dstIP
     @ replicate 2 (CHR 0x00) @ be_put 2 (unat dstPort) @ replicate 16 (CHR 0x00) @ payload"

section \<open>Does a denied flow get dropped?\<close>

lemma packet_key:
  assumes "length src = 4" "length dst = 4"
  shows "check_and_drop m (tcp_packet src dst port payload)
     = (if m (src @ dst @ be_put 2 (unat port) @ put8 IPPROTO_TCP @ put8 0) \<noteq> None
        then TC_ACT_SHOT else TC_ACT_OK)"
proof -
  let ?p = "tcp_packet src dst port payload"
  have L: "length ?p = 54 + length payload" using assms by (simp add: tcp_packet_def)
  have F: "slice ?p 12 14 = [CHR 0x08, CHR 0x00]" "byte_at ?p 23 = IPPROTO_TCP" "?p ! 14 = CHR 0x45"
    "slice ?p 26 30 = src" "slice ?p 30 34 = dst" "slice ?p 36 38 = be_put 2 (unat port)"
    using assms by (simp_all add: tcp_packet_def slice_def byte_at_def put8_def nth_append IPPROTO_TCP_def)
  show ?thesis by (simp add: check_and_drop_def L F)
qed

lemma word_be: "length b = 4 \<Longrightarrow> unat (BigEndian_Uint32 b) = be_val b"
  using le_val_bound [of "rev b"] by (simp add: BigEndian_Uint32_def be_val_def unat_of_nat)

lemma flow_key_bytes:
  assumes "length src = 4" "length dst = 4"
  shows "key_bytes little (makeFlowKey src dst port) =
     (if little then rev src @ rev dst @ rev (be_put 2 (unat port))
      else src @ dst @ be_put 2 (unat port)) @ put8 IPPROTO_TCP @ put8 0"
proof -
  have "le_put 4 (be_val b) = rev b" "be_put 4 (be_val b) = b" if "length b = 4" for b
    using that le_put_val [of "rev b" 4] be_put_val [of b 4] by (simp_all add: be_val_def)
  then show ?thesis
    using assms by (simp add: key_bytes_def makeFlowKey_def To4_def word_be be_put_def Let_def)
qed



text \<open>Denying a flow and then allowing it leaves the map as it was.\<close>

lemma allow_after_deny:
  "m (key_bytes little (makeFlowKey src dst port)) = None \<Longrightarrow>
   AllowFlow little (DenyFlow little m ts src dst port) src dst port = Some m"
  by (auto simp: AllowFlow_def DenyFlow_def Let_def)

section \<open>Addresses in proc files\<close>

definition hex_upper :: "nat \<Rightarrow> char" where
  "hex_upper n = (if n < 10 then char_of (48 + n) else char_of (55 + n))"

definition print_hex :: "bytes \<Rightarrow> string" where
  "print_hex b = concat (map (\<lambda>c. [hex_upper (of_char c div 16), hex_upper (of_char c mod 16)]) b)"

text \<open>What the kernel prints for an address and a port on a little-endian machine.\<close>

definition print_addr :: "bytes \<Rightarrow> u16 \<Rightarrow> string" where
  "print_addr ip port = print_hex (rev ip) @ '':'' @ print_hex (be_put 2 (unat port))"

lemma hex_value_upper: "n < 16 \<Longrightarrow> hex_value (hex_upper n) = Some n"
  by (auto simp: hex_value_def hex_upper_def Let_def)

lemma hex_pair: "hex_value (hex_upper (of_char c div 16)) = Some (of_char (c :: char) div 16)"
  "hex_value (hex_upper (of_char c mod 16)) = Some (of_char (c :: char) mod 16)"
proof -
  obtain k :: nat where "of_char c = k" "k < 256" by simp
  then show "hex_value (hex_upper (of_char c div 16)) = Some (of_char c div 16)"
    using hex_value_upper [of "k div 16"] by simp
qed (simp add: hex_value_upper)

lemma hex_decode_print: "hex_decode (print_hex b) = Some b"
  by (induction b) (simp_all add: print_hex_def hex_pair)

lemma print_hex_digits: "c \<in> set (print_hex b) \<Longrightarrow> hex_value c \<noteq> None"
  by (auto simp: print_hex_def hex_pair)

lemma le_val_snoc: "le_val (b @ [c]) = le_val b + 256 ^ length b * of_char c"
  by (induction b) (simp_all add: algebra_simps)

lemma fold_print_hex:
  "foldl (\<lambda>v c. 16 * v + the (hex_value c)) a (print_hex b) = a * 256 ^ length b + be_val b"
proof (induction b arbitrary: a)
  case (Cons c b)
  have "16 * (16 * a + of_char c div 16) + of_char c mod 16 = a * 256 + (of_char c :: nat)" by presburger
  then have "foldl (\<lambda>v c. 16 * v + the (hex_value c)) a (print_hex (c # b))
      = foldl (\<lambda>v c. 16 * v + the (hex_value c)) (a * 256 + of_char c) (print_hex b)"
    by (simp add: print_hex_def hex_pair mult.commute add.commute)
  also have "\<dots> = (a * 256 + of_char c) * 256 ^ length b + be_val b" by (rule Cons.IH)
  finally show ?case by (simp add: be_val_def le_val_snoc algebra_simps)
qed (simp add: print_hex_def be_val_def)

lemma scan_hex16_print: "scan_hex16 (print_hex (be_put 2 (unat port))) = Some port"
proof -
  have tw: "takeWhile (\<lambda>c. hex_value c \<noteq> None) (print_hex b) = print_hex b" for b
    using print_hex_digits by simp
  have "print_hex (be_put 2 (unat port)) \<noteq> []"
    by (simp add: print_hex_def be_put_def numeral_2_eq_2)
  moreover have "be_val (be_put 2 (unat port)) = unat port"
    using word_nat_id [of port] by (simp add: be_val_put)
  moreover have "unat port < 65536" using unsigned_less [of port] by simp
  ultimately show ?thesis unfolding scan_hex16_def Let_def tw fold_print_hex by simp
qed

text \<open>
  The parser of the proc file inverts what the kernel prints: the
  address and the port of a connection come back in network order.
\<close>

lemma proc_addr_roundtrip:
  assumes "length ip = 4"
  shows "parseHexAddr (print_addr ip port) = Some (ip, port)"
proof -
  have colon: "CHR '':'' \<notin> set (print_hex b)" for b
    using print_hex_digits [of "CHR '':''" b] by (auto simp: hex_value_def)
  then have "SplitN 2 (CHR '':'') (print_addr ip port) = [print_hex (rev ip), print_hex (be_put 2 (unat port))]"
    by (simp add: print_addr_def numeral_2_eq_2 takeWhile_append dropWhile_append)
  moreover have "length (print_hex (rev ip)) = 8"
    using assms by (simp add: print_hex_def length_concat comp_def sum_list_triv)
  moreover have "[rev ip ! 3, rev ip ! 2, rev ip ! 1, rev ip ! 0] = ip"
    using assms by (auto simp: numeral_eq_Suc length_Suc_conv)
  ultimately show ?thesis by (simp add: parseHexAddr_def hex_decode_print scan_hex16_print)
qed

section \<open>Libraries to hook\<close>

record LibCryptoInstance =
  lc_Path :: string
  lc_Inode :: u64

definition scanMapsLine ::
  "(string \<Rightarrow> u64 option) \<Rightarrow> LibCryptoInstance list \<Rightarrow> string \<Rightarrow> LibCryptoInstance list" where
  "scanMapsLine statIno result line =
     (if \<not> Contains line ''libcrypto'' then result
      else let fields = Fields line in
        if length fields < 6 then result
        else let libPath = fields ! 5 in
          if HasPrefix libPath ''['' \<or> libPath = [] then result
          else (case statIno libPath of
                  None \<Rightarrow> result
                | Some ino \<Rightarrow> if ino \<in> set (map lc_Inode result) then result
                              else result @ [\<lparr>lc_Path = libPath, lc_Inode = ino\<rparr>]))"

definition scanMapsFile :: "(string \<Rightarrow> u64 option) \<Rightarrow> string \<Rightarrow> LibCryptoInstance list" where
  "scanMapsFile statIno text = foldl (scanMapsLine statIno) [] (scan_lines text)"

definition mergeInstance :: "LibCryptoInstance list \<Rightarrow> LibCryptoInstance \<Rightarrow> LibCryptoInstance list" where
  "mergeInstance result inst =
     (if lc_Inode inst \<in> set (map lc_Inode result) then result else result @ [inst])"

text \<open>A file that could not be opened is \<open>None\<close>.\<close>

definition scanFile ::
  "(string \<Rightarrow> u64 option) \<Rightarrow> LibCryptoInstance list \<Rightarrow> string option \<Rightarrow> LibCryptoInstance list" where
  "scanFile statIno result f =
     (case f of None \<Rightarrow> result | Some t \<Rightarrow> foldl mergeInstance result (scanMapsFile statIno t))"

definition ScanProcForLibCrypto ::
  "(string \<Rightarrow> u64 option) \<Rightarrow> string option list \<Rightarrow> LibCryptoInstance list" where
  "ScanProcForLibCrypto statIno files = foldl (scanFile statIno) [] files"

text \<open>The instances of one file: distinct inodes, each the inode of its path.\<close>

definition insts_ok :: "(string \<Rightarrow> u64 option) \<Rightarrow> LibCryptoInstance list \<Rightarrow> bool" where
  "insts_ok statIno r \<longleftrightarrow> distinct (map lc_Inode r) \<and> (\<forall>i \<in> set r. statIno (lc_Path i) = Some (lc_Inode i))"

lemma scanMapsFile_ok: "insts_ok statIno (scanMapsFile statIno text)"
proof -
  have "insts_ok statIno r \<Longrightarrow> insts_ok statIno (scanMapsLine statIno r l)" for r l
    by (auto simp: scanMapsLine_def insts_ok_def Let_def split: option.splits)
  then have "insts_ok statIno r \<Longrightarrow> insts_ok statIno (foldl (scanMapsLine statIno) r ls)" for r ls
    by (induction ls arbitrary: r) auto
  from this [of "[]" "scan_lines text"] show ?thesis by (simp add: scanMapsFile_def insts_ok_def [of _ "[]"])
qed

lemma merge_ok:
  "insts_ok statIno r \<Longrightarrow> \<forall>i \<in> set is. statIno (lc_Path i) = Some (lc_Inode i) \<Longrightarrow>
   insts_ok statIno (foldl mergeInstance r is)"
proof (induction "is" arbitrary: r)
  case (Cons i is')
  have "insts_ok statIno (mergeInstance r i)"
    using Cons.prems by (auto simp: insts_ok_def mergeInstance_def)
  with Cons show ?case by simp
qed simp

lemma ScanProc_ok: "insts_ok statIno (ScanProcForLibCrypto statIno files)"
proof -
  have step: "insts_ok statIno r \<Longrightarrow> insts_ok statIno (scanFile statIno r f)" for r f
    using scanMapsFile_ok [of statIno] merge_ok [of statIno r]
    by (auto simp: scanFile_def insts_ok_def [of _ "scanMapsFile _ _"] split: option.split)
  have "insts_ok statIno r \<Longrightarrow> insts_ok statIno (foldl (scanFile statIno) r fs)" for r fs
    by (induction fs arbitrary: r) (auto intro: step)
  from this [of "[]" files] show ?thesis by (simp add: ScanProcForLibCrypto_def insts_ok_def [of _ "[]"])
qed

end
