(* ===== verification/Loaders.thy ===== *)
theory Loaders
  imports Enforce
begin

text \<open>
  The life cycle of the eBPF programs: \<^verbatim>\<open>internal/ebpf/loader.go\<close>, \<^verbatim>\<open>tls_loader.go\<close>,
  \<^verbatim>\<open>cert_loader.go\<close>, \<^verbatim>\<open>tc_loader.go\<close> and \<^verbatim>\<open>internal/certebpf/loader.go\<close>. The kernel is the list
  of open handles (objects, links, readers), the modes of files, and the goroutines that
  wait for the context to end; whether an operation on it succeeds is the environment, a
  parameter that gives an error or none for every operation. The locale \<open>life_cycle\<close> is
  the contract between a loader and the program that loads and closes it.
\<close>

section \<open>The kernel\<close>

record Kernel =
  kn_next :: nat
  kn_open :: "nat list"
  kn_mode :: "string \<Rightarrow> u32 option"
  kn_waiters :: nat

type_synonym kernel_env = "string \<Rightarrow> string option"

definition acquire :: "Kernel \<Rightarrow> nat \<times> Kernel" where
  "acquire k = (kn_next k, k\<lparr>kn_next := Suc (kn_next k), kn_open := kn_next k # kn_open k\<rparr>)"

text \<open>Closing a handle; closing it again does nothing.\<close>

definition release :: "nat \<Rightarrow> Kernel \<Rightarrow> Kernel" where
  "release h k = k\<lparr>kn_open := removeAll h (kn_open k)\<rparr>"

section \<open>Loaders\<close>

record Loader =
  ld_objs :: "nat option"
  ld_links :: "nat list"
  ld_reader :: "nat option"

type_synonym 'l load = "'l \<times> Kernel \<Rightarrow> string option \<times> 'l \<times> Kernel"

definition NewLoader :: Loader where
  "NewLoader = \<lparr>ld_objs = None, ld_links = [], ld_reader = None\<rparr>"

fun closeLinks :: "Loader \<times> Kernel \<Rightarrow> Loader \<times> Kernel" where
  "closeLinks (l, k) = (l\<lparr>ld_links := []\<rparr>, fold release (ld_links l) k)"

fun closeObjs :: "Loader \<times> Kernel \<Rightarrow> Loader \<times> Kernel" where
  "closeObjs (l, k) = (l, case ld_objs l of None \<Rightarrow> k | Some h \<Rightarrow> release h k)"

fun closeReader :: "Loader \<times> Kernel \<Rightarrow> Loader \<times> Kernel" where
  "closeReader (l, k) = (l, case ld_reader l of None \<Rightarrow> k | Some h \<Rightarrow> release h k)"

definition Close :: "Loader \<times> Kernel \<Rightarrow> Loader \<times> Kernel" where
  "Close s = closeObjs (closeLinks (closeReader s))"

text \<open>The other packages close the same way, except that the loader of the classifier has no reader.\<close>

definition TLSLoader_Close :: "Loader \<times> Kernel \<Rightarrow> Loader \<times> Kernel" where
  "TLSLoader_Close s = closeObjs (closeLinks (closeReader s))"

definition TCLoader_Close :: "Loader \<times> Kernel \<Rightarrow> Loader \<times> Kernel" where
  "TCLoader_Close s = closeObjs (closeLinks s)"

definition certebpf_Close :: "Loader \<times> Kernel \<Rightarrow> Loader \<times> Kernel" where
  "certebpf_Close s = closeObjs (closeLinks (closeReader s))"

lemma same_close: "TLSLoader_Close = Close" "certebpf_Close = Close"
  by (simp_all add: fun_eq_iff TLSLoader_Close_def certebpf_Close_def Close_def)

definition addLink :: "nat \<Rightarrow> Loader \<Rightarrow> Loader" where "addLink h l = l\<lparr>ld_links := ld_links l @ [h]\<rparr>"
definition setObjs :: "nat \<Rightarrow> Loader \<Rightarrow> Loader" where "setObjs h l = l\<lparr>ld_objs := Some h\<rparr>"
definition setReader :: "nat \<Rightarrow> Loader \<Rightarrow> Loader" where "setReader h l = l\<lparr>ld_reader := Some h\<rparr>"

text \<open>
  One step of loading: an operation that yields a handle, or only a check; on an error
  the cleanup runs and the error is returned with its message.
\<close>

definition attempt ::
  "kernel_env \<Rightarrow> string \<Rightarrow> string \<Rightarrow> ('l \<times> Kernel \<Rightarrow> 'l \<times> Kernel) \<Rightarrow> (nat \<Rightarrow> 'l \<Rightarrow> 'l) \<Rightarrow> 'l load" where
  "attempt env op msg cleanup store = (\<lambda>(l, k).
     case env op of
       Some err \<Rightarrow> (Some (msg @ '': '' @ err), cleanup (l, k))
     | None \<Rightarrow> (let (h, k1) = acquire k in (None, store h l, k1)))"

definition check :: "kernel_env \<Rightarrow> string \<Rightarrow> string \<Rightarrow> ('l \<times> Kernel \<Rightarrow> 'l \<times> Kernel) \<Rightarrow> 'l load" where
  "check env op msg cleanup = (\<lambda>(l, k).
     case env op of
       Some err \<Rightarrow> (Some (msg @ '': '' @ err), cleanup (l, k))
     | None \<Rightarrow> (None, l, k))"

fun steps :: "'l load list \<Rightarrow> 'l load" where
  "steps [] s = (None, s)"
| "steps (f # fs) s = (case f s of (Some err, s1) \<Rightarrow> (Some err, s1) | (None, s1) \<Rightarrow> steps fs s1)"

text \<open>The goroutine that closes the reader when the context ends.\<close>

definition watch :: "'l load" where
  "watch = (\<lambda>(l, k). (None, l, k\<lparr>kn_waiters := Suc (kn_waiters k)\<rparr>))"

definition Loader_Load :: "kernel_env \<Rightarrow> Loader load" where
  "Loader_Load env = steps
     [attempt env ''objects'' ''loading eBPF objects'' (\<lambda>s. s) setObjs,
      attempt env ''kprobe/tcp_connect'' ''attaching kprobe/tcp_connect'' closeObjs addLink,
      attempt env ''kretprobe/inet_csk_accept'' ''attaching kretprobe/inet_csk_accept''
        (\<lambda>s. closeObjs (closeLinks s)) addLink,
      attempt env ''reader'' ''opening ring buffer reader'' (\<lambda>s. closeObjs (closeLinks s)) setReader,
      watch]"

text \<open>\<^verbatim>\<open>ensureExecutable\<close>: the error, if any, and the kernel with the new mode of the file (73 is octal 111).\<close>

definition ensureExecutable :: "kernel_env \<Rightarrow> string \<Rightarrow> Kernel \<Rightarrow> string option \<times> Kernel" where
  "ensureExecutable env path k =
     (case kn_mode k path of
        None \<Rightarrow> (Some (''stat '' @ path @ '': no such file or directory''), k)
      | Some mode \<Rightarrow>
          if and mode 73 \<noteq> 0 then (None, k)
          else (case env (''chmod '' @ path) of
                  Some err \<Rightarrow> (Some err, k)
                | None \<Rightarrow> (None, k\<lparr>kn_mode := (kn_mode k)(path \<mapsto> or mode 73)\<rparr>)))"

definition make_executable ::
  "kernel_env \<Rightarrow> string \<Rightarrow> ('l \<times> Kernel \<Rightarrow> 'l \<times> Kernel) \<Rightarrow> 'l load" where
  "make_executable env path cleanup = (\<lambda>(l, k).
     case ensureExecutable env path k of
       (Some err, k1) \<Rightarrow> (Some (''chmod +x '' @ path @ '': '' @ err), cleanup (l, k1))
     | (None, k1) \<Rightarrow> (None, l, k1))"

definition TLSLoader_Load :: "kernel_env \<Rightarrow> string \<Rightarrow> Loader load" where
  "TLSLoader_Load env libSSLPath =
     (let closeAll = (\<lambda>s. closeObjs (closeLinks s)) in steps
     [attempt env ''objects'' ''loading tls_hook eBPF objects'' (\<lambda>s. s) setObjs,
      make_executable env libSSLPath closeObjs,
      check env (''open '' @ libSSLPath) (''opening executable '' @ libSSLPath) closeObjs,
      attempt env ''uprobe/SSL_write'' ''attaching uprobe/SSL_write'' closeObjs addLink,
      attempt env ''uretprobe/SSL_write'' ''attaching uretprobe/SSL_write'' closeAll addLink,
      attempt env ''uprobe/SSL_read'' ''attaching uprobe/SSL_read'' closeAll addLink,
      attempt env ''uretprobe/SSL_read'' ''attaching uretprobe/SSL_read'' closeAll addLink,
      attempt env ''reader'' ''opening tls_events ring buffer reader'' closeAll setReader,
      watch])"

definition TCLoader_Load :: "kernel_env \<Rightarrow> string \<Rightarrow> Loader load" where
  "TCLoader_Load env iface = steps
     [attempt env ''objects'' ''loading tc_drop eBPF objects'' (\<lambda>s. s) setObjs,
      check env (''interface '' @ iface) (''interface \"'' @ iface @ ''\" not found'') closeObjs,
      attempt env ''ingress'' (''attaching TC ingress to '' @ iface) closeObjs addLink,
      attempt env ''egress'' (''attaching TC egress to '' @ iface) (\<lambda>s. closeObjs (closeLinks s)) addLink]"

definition certebpf_Load :: "kernel_env \<Rightarrow> string \<Rightarrow> Loader load" where
  "certebpf_Load env libsslPath = steps
     [attempt env ''objects'' ''loading cert_hook eBPF objects'' (\<lambda>s. s) setObjs,
      check env (''open '' @ libsslPath) (''opening '' @ libsslPath) closeObjs,
      attempt env ''uprobe'' ''attaching uprobe d2i_X509'' closeObjs addLink,
      attempt env ''uretprobe'' ''attaching uretprobe d2i_X509'' (\<lambda>s. closeObjs (closeLinks s)) addLink,
      attempt env ''reader'' ''opening cert_events ring buffer'' (\<lambda>s. closeObjs (closeLinks s)) setReader]"

section \<open>The certificate loader\<close>

record CertLoader =
  cl_objs :: "nat option"
  cl_reader :: "nat option"
  cl_attachedInodes :: "(u64 \<times> nat list) list"

definition NewCertLoader :: CertLoader where
  "NewCertLoader = \<lparr>cl_objs = None, cl_reader = None, cl_attachedInodes = []\<rparr>"

text \<open>\<^verbatim>\<open>AttachToExecutable\<close>: the two probes of a library, unless its inode is hooked already.\<close>

definition attach_probes :: "kernel_env \<Rightarrow> string \<Rightarrow> u64 \<Rightarrow> CertLoader load" where
  "attach_probes env path inode = (\<lambda>(l, k).
     case ensureExecutable env path k of
       (Some err, k1) \<Rightarrow> (Some (''chmod +x '' @ path @ '': '' @ err), l, k1)
     | (None, k1) \<Rightarrow>
       (case env (''open '' @ path) of
          Some err \<Rightarrow> (Some (''opening executable '' @ path @ '': '' @ err), l, k1)
        | None \<Rightarrow>
          (case env (''uprobe '' @ path) of
             Some err \<Rightarrow> (Some (''attaching uprobe/d2i_X509 to '' @ path @ '': '' @ err), l, k1)
           | None \<Rightarrow>
             (let (up, k2) = acquire k1 in
              case env (''uretprobe '' @ path) of
                Some err \<Rightarrow> (Some (''attaching uretprobe/d2i_X509 to '' @ path @ '': '' @ err), l, release up k2)
              | None \<Rightarrow>
                (let (urp, k3) = acquire k2 in
                 (None, l\<lparr>cl_attachedInodes := cl_attachedInodes l @ [(inode, [up, urp])]\<rparr>, k3))))))"

definition AttachToExecutable :: "(string \<Rightarrow> u64 option) \<Rightarrow> kernel_env \<Rightarrow> string \<Rightarrow> CertLoader load" where
  "AttachToExecutable statIno env path = (\<lambda>(l, k).
     case statIno path of
       None \<Rightarrow> (Some (''stat '' @ path), l, k)
     | Some inode \<Rightarrow>
         if inode \<in> set (map fst (cl_attachedInodes l)) then (None, l, k)
         else attach_probes env path inode (l, k))"

definition AttachedCount :: "CertLoader \<Rightarrow> nat" where
  "AttachedCount l = length (cl_attachedInodes l)"

fun cert_closeLinks :: "CertLoader \<times> Kernel \<Rightarrow> CertLoader \<times> Kernel" where
  "cert_closeLinks (l, k) =
     (l\<lparr>cl_attachedInodes := []\<rparr>, fold release (concat (map snd (cl_attachedInodes l))) k)"

fun cert_closeObjs :: "CertLoader \<times> Kernel \<Rightarrow> CertLoader \<times> Kernel" where
  "cert_closeObjs (l, k) = (l, case cl_objs l of None \<Rightarrow> k | Some h \<Rightarrow> release h k)"

definition CertLoader_Close :: "CertLoader \<times> Kernel \<Rightarrow> CertLoader \<times> Kernel" where
  "CertLoader_Close s = cert_closeObjs (cert_closeLinks
     (case s of (l, k) \<Rightarrow> (l, case cl_reader l of None \<Rightarrow> k | Some h \<Rightarrow> release h k)))"

definition CertLoader_Load :: "(string \<Rightarrow> u64 option) \<Rightarrow> kernel_env \<Rightarrow> string \<Rightarrow> CertLoader load" where
  "CertLoader_Load statIno env libCryptoPath = steps
     [attempt env ''objects'' ''loading cert_hook eBPF objects'' (\<lambda>s. s) (\<lambda>h l. l\<lparr>cl_objs := Some h\<rparr>),
      (\<lambda>s. case AttachToExecutable statIno env libCryptoPath s of
             (Some err, s1) \<Rightarrow> (Some err, cert_closeObjs s1)
           | (None, s1) \<Rightarrow> (None, s1)),
      attempt env ''reader'' ''opening cert_events ring buffer'' (\<lambda>s. cert_closeObjs (cert_closeLinks s))
        (\<lambda>h l. l\<lparr>cl_reader := Some h\<rparr>),
      watch]"

text \<open>One scan of \<^verbatim>\<open>runLibCryptoScanner\<close>: errors are logged and the next library is tried.\<close>

definition libcrypto_scan ::
  "(string \<Rightarrow> u64 option) \<Rightarrow> kernel_env \<Rightarrow> string option list \<Rightarrow> CertLoader \<times> Kernel \<Rightarrow> CertLoader \<times> Kernel" where
  "libcrypto_scan statIno env files s =
     foldl (\<lambda>s inst. snd (AttachToExecutable statIno env (lc_Path inst) s)) s (ScanProcForLibCrypto statIno files)"

section \<open>Reading\<close>

datatype ring = Sample bytes | ErrClosed | ReadErr string

text \<open>
  \<^verbatim>\<open>Read\<close> of the loaders, for what the ring buffer returns and whether the context has
  ended: the data (nil is \<open>[]\<close>) and the error.
\<close>

definition Read :: "string \<Rightarrow> ring \<Rightarrow> bool \<Rightarrow> bytes \<times> string option" where
  "Read name r cancelled =
     (case r of
        Sample b \<Rightarrow> (b, None)
      | ErrClosed \<Rightarrow> ([], if cancelled then Some ''context canceled'' else None)
      | ReadErr err \<Rightarrow> ([], Some (''reading '' @ name @ '': '' @ err)))"

definition TLSLoader_Read :: "ring \<Rightarrow> bool \<Rightarrow> bytes \<times> string option" where
  "TLSLoader_Read r cancelled = Read ''tls_events ring buffer'' r cancelled"

definition CertLoader_Read :: "ring \<Rightarrow> bool \<Rightarrow> bytes \<times> string option" where
  "CertLoader_Read r cancelled = Read ''cert_events ring buffer'' r cancelled"

text \<open>The reader of the separate package starts its waiting goroutine in every call.\<close>

definition certebpf_Read :: "ring \<Rightarrow> bool \<Rightarrow> Kernel \<Rightarrow> (bytes \<times> string option) \<times> Kernel" where
  "certebpf_Read r cancelled k =
     (Read ''cert_events ring buffer'' r cancelled, k\<lparr>kn_waiters := Suc (kn_waiters k)\<rparr>)"

text \<open>
  The loops of the agent around \<^verbatim>\<open>Read\<close>: the body runs for every sample, an error ends the
  loop if the context has ended and is skipped otherwise. The result tells whether the
  loop has ended.
\<close>

fun read_loop :: "string \<Rightarrow> ('s \<Rightarrow> bytes \<Rightarrow> 's) \<Rightarrow> 's \<Rightarrow> (ring \<times> bool) list \<Rightarrow> 's \<times> bool" where
  "read_loop name body s [] = (s, False)"
| "read_loop name body s ((r, cancelled) # rest) =
     (case Read name r cancelled of
        (b, Some err) \<Rightarrow> if cancelled then (s, True) else read_loop name body s rest
      | (b, None) \<Rightarrow> read_loop name body (body s b) rest)"

section \<open>Nothing is leaked\<close>

text \<open>
  The contract of a loader: a failed load leaves no handle, and closing after a load
  neither, in whatever kernel state with the same open handles it is closed.
\<close>

definition kernel_ok :: "Kernel \<Rightarrow> bool" where
  "kernel_ok k \<longleftrightarrow> (\<forall>h \<in> set (kn_open k). h < kn_next k)"

definition opt_load :: "'l load \<Rightarrow> 'l \<Rightarrow> Kernel \<Rightarrow> 'l option \<times> Kernel" where
  "opt_load load new k = (case load (new, k) of (Some err, l, k1) \<Rightarrow> (None, k1) | (None, l, k1) \<Rightarrow> (Some l, k1))"

definition opt_close :: "('l \<times> Kernel \<Rightarrow> 'l \<times> Kernel) \<Rightarrow> 'l option \<Rightarrow> Kernel \<Rightarrow> Kernel" where
  "opt_close close ol k = (case ol of None \<Rightarrow> k | Some l \<Rightarrow> snd (close (l, k)))"

locale life_cycle =
  fixes load :: "'l load" and close :: "'l \<times> Kernel \<Rightarrow> 'l \<times> Kernel" and new :: 'l
  assumes failed: "kernel_ok k \<Longrightarrow> load (new, k) = (Some err, l, k1) \<Longrightarrow> kn_open k1 = kn_open k \<and> kernel_ok k1"
    and loaded: "kernel_ok k \<Longrightarrow> load (new, k) = (None, l, k1) \<Longrightarrow> kernel_ok k1"
    and closed: "kernel_ok k \<Longrightarrow> load (new, k) = (None, l, k1) \<Longrightarrow> kn_open k2 = kn_open k1 \<Longrightarrow>
      kn_open (snd (close (l, k2))) = kn_open k"
begin

text \<open>A program that goes on without the loader when loading fails.\<close>

lemma optional:
  assumes "kernel_ok k" "opt_load load new k = (ol, k1)"
  shows "kernel_ok k1" "kn_open k2 = kn_open k1 \<Longrightarrow> kn_open (opt_close close ol k2) = kn_open k"
proof -
  obtain r l k3 where f: "load (new, k) = (r, l, k3)" by (cases "load (new, k)")
  have "kernel_ok k1 \<and> (kn_open k2 = kn_open k1 \<longrightarrow> kn_open (opt_close close ol k2) = kn_open k)"
  proof (cases r)
    case None
    with assms(2) f have "ol = Some l" "k1 = k3" by (auto simp: opt_load_def)
    then show ?thesis
      using loaded [OF assms(1)] closed [OF assms(1), of l k3 k2] f None by (simp add: opt_close_def)
  next
    case (Some err)
    with assms(2) f have "ol = None" "k1 = k3" by (auto simp: opt_load_def)
    then show ?thesis using failed [OF assms(1)] f Some by (simp add: opt_close_def)
  qed
  then show "kernel_ok k1" "kn_open k2 = kn_open k1 \<Longrightarrow> kn_open (opt_close close ol k2) = kn_open k" by blast+
qed

end

text \<open>The handles a loader owns, and the state in which it owns all that were opened since.\<close>

definition owned :: "Loader \<Rightarrow> nat set" where
  "owned l = set_option (ld_objs l) \<union> set (ld_links l) \<union> set_option (ld_reader l)"

definition cert_owned :: "CertLoader \<Rightarrow> nat set" where
  "cert_owned l = set_option (cl_objs l) \<union> (\<Union>p \<in> set (cl_attachedInodes l). set (snd p)) \<union> set_option (cl_reader l)"

definition tracks :: "nat list \<Rightarrow> nat set \<Rightarrow> Kernel \<Rightarrow> bool" where
  "tracks base own k \<longleftrightarrow> kernel_ok k \<and> filter (\<lambda>h. h \<notin> own) (kn_open k) = base
     \<and> (\<forall>h \<in> own. h < kn_next k)"

lemma releases: "fold release hs k = k\<lparr>kn_open := filter (\<lambda>h. h \<notin> set hs) (kn_open k)\<rparr>"
proof (induction hs arbitrary: k)
  case (Cons h hs)
  have "filter (\<lambda>x. x \<notin> set hs) (removeAll h xs) = filter (\<lambda>x. x \<noteq> h \<and> x \<notin> set hs) xs" for xs
    by (induction xs) auto
  with Cons show ?case by (simp add: release_def)
qed simp

lemma release_filter: "kn_open (release h k) = filter (\<lambda>x. x \<noteq> h) (kn_open k)"
  by (simp add: release_def removeAll_filter_not_eq) (metis (full_types))

lemma tracks_start: "kernel_ok k \<Longrightarrow> tracks (kn_open k) {} k"
  by (simp add: tracks_def)

lemma tracks_acquire:
  assumes "tracks base own k" "acquire k = (h, k1)"
  shows "tracks base (insert h own) k1"
proof -
  have h: "h = kn_next k" "k1 = k\<lparr>kn_next := Suc (kn_next k), kn_open := kn_next k # kn_open k\<rparr>"
    using assms(2) by (auto simp: acquire_def)
  have "\<forall>x \<in> set (kn_open k). x \<noteq> h" using assms(1) by (auto simp: tracks_def kernel_ok_def h)
  then have "filter (\<lambda>x. x \<notin> insert h own) (kn_open k) = filter (\<lambda>x. x \<notin> own) (kn_open k)"
    by (intro filter_cong) auto
  with assms(1) show ?thesis by (auto simp: tracks_def kernel_ok_def h)
qed

text \<open>A cleanup that closes all that is owned.\<close>

definition clears :: "('l \<times> Kernel \<Rightarrow> 'l \<times> Kernel) \<Rightarrow> 'l \<Rightarrow> nat set \<Rightarrow> bool" where
  "clears cleanup l own \<longleftrightarrow> (\<forall>k. kn_open (snd (cleanup (l, k))) = filter (\<lambda>h. h \<notin> own) (kn_open k)
     \<and> kn_next (snd (cleanup (l, k))) = kn_next k)"

lemma clears_tracks: "clears cleanup l own \<Longrightarrow> tracks base own k \<Longrightarrow> cleanup (l, k) = (l1, k1) \<Longrightarrow>
   kn_open k1 = base \<and> kernel_ok k1"
  by (auto simp: clears_def tracks_def kernel_ok_def dest: spec [of _ k])

lemma clears_loader:
  "owned l = {} \<Longrightarrow> clears (\<lambda>s. s) l (owned l)"
  "ld_links l = [] \<Longrightarrow> ld_reader l = None \<Longrightarrow> clears closeObjs l (owned l)"
  "ld_reader l = None \<Longrightarrow> clears (\<lambda>s. closeObjs (closeLinks s)) l (owned l)"
  "clears Close l (owned l)"
  by (auto simp: clears_def owned_def releases Close_def release_filter release_def removeAll_filter_not_eq
      conj_commute intro!: filter_cong split: option.split)

lemma clears_cert:
  "cert_owned l = {} \<Longrightarrow> clears (\<lambda>s. s) l (cert_owned l)"
  "cl_attachedInodes l = [] \<Longrightarrow> cl_reader l = None \<Longrightarrow> clears cert_closeObjs l (cert_owned l)"
  "cl_reader l = None \<Longrightarrow> clears (\<lambda>s. cert_closeObjs (cert_closeLinks s)) l (cert_owned l)"
  "clears CertLoader_Close l (cert_owned l)"
  by (auto simp: clears_def cert_owned_def releases CertLoader_Close_def release_filter release_def
      removeAll_filter_not_eq conj_commute intro!: filter_cong split: option.split)

text \<open>Partial correctness of the steps of a load: from a shape of the loader to another.\<close>

definition leaves :: "('l \<Rightarrow> nat set) \<Rightarrow> ('l \<Rightarrow> bool) \<Rightarrow> 'l load \<Rightarrow> ('l \<Rightarrow> bool) \<Rightarrow> bool" where
  "leaves own P f Q \<longleftrightarrow> (\<forall>base l k r l1 k1. P l \<longrightarrow> tracks base (own l) k \<longrightarrow> f (l, k) = (r, l1, k1) \<longrightarrow>
     (case r of Some err \<Rightarrow> kn_open k1 = base \<and> kernel_ok k1 | None \<Rightarrow> Q l1 \<and> tracks base (own l1) k1))"

lemma leavesD:
  assumes "leaves own P f Q" "P l" "tracks base (own l) k" "f (l, k) = (r, l1, k1)"
  shows "r \<noteq> None \<Longrightarrow> kn_open k1 = base \<and> kernel_ok k1" "r = None \<Longrightarrow> Q l1 \<and> tracks base (own l1) k1"
proof -
  have "case r of Some err \<Rightarrow> kn_open k1 = base \<and> kernel_ok k1 | None \<Rightarrow> Q l1 \<and> tracks base (own l1) k1"
    using assms unfolding leaves_def by blast
  then show "r \<noteq> None \<Longrightarrow> kn_open k1 = base \<and> kernel_ok k1" "r = None \<Longrightarrow> Q l1 \<and> tracks base (own l1) k1"
    by auto
qed

lemma leaves_attempt:
  assumes "\<And>l. P l \<Longrightarrow> clears cleanup l (own l)" "\<And>l h. P l \<Longrightarrow> Q (store h l) \<and> own (store h l) = insert h (own l)"
  shows "leaves own P (attempt env op msg cleanup store) Q"
  unfolding leaves_def
proof (intro allI impI)
  fix base l k r l1 k1
  assume P: "P l" and T: "tracks base (own l) k" and f: "attempt env op msg cleanup store (l, k) = (r, l1, k1)"
  obtain h k2 where a: "acquire k = (h, k2)" by (cases "acquire k")
  show "case r of Some err \<Rightarrow> kn_open k1 = base \<and> kernel_ok k1 | None \<Rightarrow> Q l1 \<and> tracks base (own l1) k1"
  proof (cases "env op")
    case None
    with f a have "r = None" "l1 = store h l" "k1 = k2" by (auto simp: attempt_def)
    with assms(2) [OF P] tracks_acquire [OF T a] show ?thesis by simp
  next
    case (Some err)
    with f have "r \<noteq> None" "cleanup (l, k) = (l1, k1)" by (auto simp: attempt_def)
    with clears_tracks [OF assms(1) [OF P] T] show ?thesis by auto
  qed
qed

lemma leaves_check:
  assumes "\<And>l. P l \<Longrightarrow> clears cleanup l (own l)"
  shows "leaves own P (check env op msg cleanup) P"
  unfolding leaves_def
  using clears_tracks [OF assms] by (fastforce simp: check_def split: option.splits)

lemma ensureExecutable_open:
  "ensureExecutable env path k = (r, k1) \<Longrightarrow> kn_open k1 = kn_open k \<and> kn_next k1 = kn_next k \<and> kn_waiters k1 = kn_waiters k"
  by (auto simp: ensureExecutable_def split: option.splits if_splits)

lemma tracks_frame: "kn_open k1 = kn_open k \<Longrightarrow> kn_next k1 = kn_next k \<Longrightarrow> tracks base own k1 = tracks base own k"
  by (simp add: tracks_def kernel_ok_def)

lemma tracks_executable: "tracks base own k \<Longrightarrow> ensureExecutable env path k = (r, k1) \<Longrightarrow> tracks base own k1"
  using tracks_frame ensureExecutable_open by metis

lemma leaves_make_executable:
  assumes "\<And>l. P l \<Longrightarrow> clears cleanup l (own l)"
  shows "leaves own P (make_executable env path cleanup) P"
  unfolding leaves_def
proof (intro allI impI)
  fix base l k r l1 k1
  assume P: "P l" and T: "tracks base (own l) k" and f: "make_executable env path cleanup (l, k) = (r, l1, k1)"
  obtain e k2 where e: "ensureExecutable env path k = (e, k2)" by (cases "ensureExecutable env path k")
  note T2 = tracks_executable [OF T e]
  show "case r of Some err \<Rightarrow> kn_open k1 = base \<and> kernel_ok k1 | None \<Rightarrow> P l1 \<and> tracks base (own l1) k1"
    using f e P T2 clears_tracks [OF assms [OF P] T2] by (auto simp: make_executable_def split: option.splits)
qed

lemma leaves_watch: "leaves own P watch P"
  by (auto simp: leaves_def watch_def tracks_def kernel_ok_def)

lemma leaves_Nil: "leaves own P (steps []) P"
  by (simp add: leaves_def)

lemma leaves_Cons:
  assumes "leaves own P f Q" "leaves own Q (steps fs) R"
  shows "leaves own P (steps (f # fs)) R"
  unfolding leaves_def
proof (intro allI impI)
  fix base l k r l1 k1
  assume P: "P l" and T: "tracks base (own l) k" and s: "steps (f # fs) (l, k) = (r, l1, k1)"
  obtain r2 l2 k2 where f: "f (l, k) = (r2, l2, k2)" by (cases "f (l, k)")
  show "case r of Some err \<Rightarrow> kn_open k1 = base \<and> kernel_ok k1 | None \<Rightarrow> R l1 \<and> tracks base (own l1) k1"
  proof (cases r2)
    case None
    with leavesD(2) [OF assms(1) P T f] have "Q l2" "tracks base (own l2) k2" by simp_all
    with leavesD [OF assms(2) this, of r l1 k1] s f None show ?thesis by (auto split: option.split)
  next
    case (Some err)
    with leavesD(1) [OF assms(1) P T f] s f show ?thesis by auto
  qed
qed

lemma life_cycleI:
  assumes "leaves own (\<lambda>l. l = new) load Q" "own new = {}" "\<And>l. Q l \<Longrightarrow> clears close l (own l)"
  shows "life_cycle load close new"
proof
  fix k l k1 k2 err
  assume k: "kernel_ok k"
  have T: "tracks (kn_open k) (own new) k" using tracks_start [OF k] assms(2) by simp
  show "load (new, k) = (Some err, l, k1) \<Longrightarrow> kn_open k1 = kn_open k \<and> kernel_ok k1"
    using leavesD(1) [OF assms(1) refl T] by blast
  assume "load (new, k) = (None, l, k1)"
  with leavesD(2) [OF assms(1) refl T] have T1: "tracks (kn_open k) (own l) k1" and Q: "Q l" by blast+
  then show "kernel_ok k1" by (simp add: tracks_def)
  show "kn_open k2 = kn_open k1 \<Longrightarrow> kn_open (snd (close (l, k2))) = kn_open k"
    using T1 assms(3) [OF Q] by (auto simp: clears_def tracks_def)
qed

definition bare :: "Loader \<Rightarrow> bool" where "bare l \<longleftrightarrow> ld_links l = [] \<and> ld_reader l = None"
definition unread :: "Loader \<Rightarrow> bool" where "unread l \<longleftrightarrow> ld_reader l = None"

lemmas load_rules = leaves_Cons leaves_Nil leaves_watch leaves_check leaves_make_executable leaves_attempt

lemma owned_store [simp]:
  "ld_objs l = None \<Longrightarrow> owned (setObjs h l) = insert h (owned l)" "owned (addLink h l) = insert h (owned l)"
  "ld_reader l = None \<Longrightarrow> owned (setReader h l) = insert h (owned l)"
  by (auto simp: owned_def setObjs_def addLink_def setReader_def)

lemma new_owned: "owned NewLoader = {}"
  by (simp add: owned_def NewLoader_def)

lemma first_step: "leaves owned (\<lambda>l. l = NewLoader) (attempt env op msg (\<lambda>s. s) setObjs) bare"
proof (rule leaves_attempt)
  show "l = NewLoader \<Longrightarrow> clears (\<lambda>s. s) l (owned l)" for l using clears_loader(1) new_owned by simp
qed (simp add: NewLoader_def bare_def setObjs_def owned_def)

lemma bare_check: "leaves owned bare (check env op msg closeObjs) bare"
  and bare_executable: "leaves owned bare (make_executable env path closeObjs) bare"
  by (rule leaves_check leaves_make_executable; simp add: bare_def clears_loader(2))+

lemma first_link: "leaves owned bare (attempt env op msg closeObjs addLink) unread"
  by (rule leaves_attempt) (simp_all add: bare_def unread_def clears_loader(2), simp add: addLink_def)

lemma next_link: "leaves owned unread (attempt env op msg (\<lambda>s. closeObjs (closeLinks s)) addLink) unread"
  by (rule leaves_attempt) (simp_all add: unread_def clears_loader(3), simp add: addLink_def)

lemma open_reader: "leaves owned unread (attempt env op msg (\<lambda>s. closeObjs (closeLinks s)) setReader) (\<lambda>l. True)"
  by (rule leaves_attempt) (simp_all add: unread_def clears_loader(3))

lemmas loader_steps = leaves_Cons leaves_Nil leaves_watch first_step bare_check bare_executable first_link next_link open_reader

lemma clears_tc: "unread l \<Longrightarrow> clears TCLoader_Close l (owned l)"
  using clears_loader(3) by (simp add: unread_def TCLoader_Close_def [abs_def])

interpretation connection_loader: life_cycle "Loader_Load env" Close NewLoader
  unfolding Loader_Load_def by (rule life_cycleI [OF _ new_owned clears_loader(4)]) (rule loader_steps)+

interpretation tls_loader: life_cycle "TLSLoader_Load env path" TLSLoader_Close NewLoader
  unfolding TLSLoader_Load_def Let_def same_close by (rule life_cycleI [OF _ new_owned clears_loader(4)]) (rule loader_steps)+

interpretation tc_loader: life_cycle "TCLoader_Load env iface" TCLoader_Close NewLoader
  unfolding TCLoader_Load_def
  by (rule life_cycleI [OF _ new_owned clears_tc]) (rule loader_steps)+

interpretation certebpf_loader: life_cycle "certebpf_Load env path" certebpf_Close NewLoader
  unfolding certebpf_Load_def same_close by (rule life_cycleI [OF _ new_owned clears_loader(4)]) (rule loader_steps)+

section \<open>Hooked libraries\<close>

lemma tracks_release:
  assumes "tracks base own k" "acquire k = (h, k1)"
  shows "tracks base own (release h k1)"
proof -
  have h: "h = kn_next k" "k1 = k\<lparr>kn_next := Suc (kn_next k), kn_open := kn_next k # kn_open k\<rparr>"
    using assms(2) by (auto simp: acquire_def)
  have "h \<notin> set (kn_open k)" using assms(1) by (auto simp: tracks_def kernel_ok_def h)
  then have "kn_open (release h k1) = kn_open k" by (simp add: release_def h)
  then show ?thesis using assms(1) by (auto simp: tracks_def kernel_ok_def release_def h)
qed

lemma attach_probes_tracks:
  assumes "tracks base (cert_owned l) k" "attach_probes env path ino (l, k) = (r, l1, k1)"
  shows "tracks base (cert_owned l1) k1 \<and> cl_objs l1 = cl_objs l \<and> cl_reader l1 = cl_reader l
     \<and> (r \<noteq> None \<longrightarrow> l1 = l)"
proof -
  obtain e k2 where e: "ensureExecutable env path k = (e, k2)" by (cases "ensureExecutable env path k")
  obtain up k3 where a: "acquire k2 = (up, k3)" by (cases "acquire k2")
  obtain urp k4 where b: "acquire k3 = (urp, k4)" by (cases "acquire k3")
  have T2: "tracks base (cert_owned l) k2" by (rule tracks_executable [OF assms(1) e])
  have T4: "tracks base (insert urp (insert up (cert_owned l))) k4"
    by (rule tracks_acquire [OF tracks_acquire [OF T2 a] b])
  have "cert_owned (l\<lparr>cl_attachedInodes := cl_attachedInodes l @ [(ino, [up, urp])]\<rparr>) = insert urp (insert up (cert_owned l))"
    by (auto simp: cert_owned_def)
  with assms(2) T2 T4 tracks_release [OF T2 a] show ?thesis
    by (auto simp: attach_probes_def e a b split: option.splits)
qed

lemma attach_tracks:
  assumes "tracks base (cert_owned l) k" "AttachToExecutable statIno env path (l, k) = (r, l1, k1)"
  shows "tracks base (cert_owned l1) k1 \<and> cl_objs l1 = cl_objs l \<and> cl_reader l1 = cl_reader l
     \<and> (r \<noteq> None \<longrightarrow> l1 = l)"
  using assms attach_probes_tracks [OF assms(1)] by (auto simp: AttachToExecutable_def split: option.splits if_splits)

definition cert_bare :: "CertLoader \<Rightarrow> bool" where
  "cert_bare l \<longleftrightarrow> cl_attachedInodes l = [] \<and> cl_reader l = None"

lemma cert_first: "leaves cert_owned (\<lambda>l. l = NewCertLoader)
   (attempt env op msg (\<lambda>s. s) (\<lambda>h l. l\<lparr>cl_objs := Some h\<rparr>)) cert_bare"
proof (rule leaves_attempt)
  show "l = NewCertLoader \<Longrightarrow> clears (\<lambda>s. s) l (cert_owned l)" for l
    by (rule clears_cert(1)) (simp add: NewCertLoader_def cert_owned_def)
qed (simp add: NewCertLoader_def cert_owned_def cert_bare_def)

lemma cert_hook: "leaves cert_owned cert_bare
   (\<lambda>s. case AttachToExecutable statIno env path s of
      (Some err, s1) \<Rightarrow> (Some err, cert_closeObjs s1) | (None, s1) \<Rightarrow> (None, s1)) (\<lambda>l. cl_reader l = None)"
  unfolding leaves_def
proof (intro allI impI)
  fix base l k r l1 k1
  assume P: "cert_bare l" and T: "tracks base (cert_owned l) k"
    and f: "(case AttachToExecutable statIno env path (l, k) of
      (Some err, s1) \<Rightarrow> (Some err, cert_closeObjs s1) | (None, s1) \<Rightarrow> (None, s1)) = (r, l1, k1)"
  obtain r2 l2 k2 where a: "AttachToExecutable statIno env path (l, k) = (r2, l2, k2)"
    by (cases "AttachToExecutable statIno env path (l, k)")
  note t = attach_tracks [OF T a]
  show "case r of Some err \<Rightarrow> kn_open k1 = base \<and> kernel_ok k1 | None \<Rightarrow> cl_reader l1 = None \<and> tracks base (cert_owned l1) k1"
  proof (cases r2)
    case None
    with f a t P show ?thesis by (auto simp: cert_bare_def)
  next
    case (Some err)
    with t have "l2 = l" "tracks base (cert_owned l) k2" by auto
    with f a Some clears_tracks [OF clears_cert(2), of l base k2] P show ?thesis
      by (auto simp: cert_bare_def)
  qed
qed

lemma cert_reader: "leaves cert_owned (\<lambda>l. cl_reader l = None)
   (attempt env op msg (\<lambda>s. cert_closeObjs (cert_closeLinks s)) (\<lambda>h l. l\<lparr>cl_reader := Some h\<rparr>)) (\<lambda>l. True)"
  by (rule leaves_attempt) (rule clears_cert(3), assumption, auto simp: cert_owned_def)

lemma cert_leaves: "leaves cert_owned (\<lambda>l. l = NewCertLoader) (CertLoader_Load statIno env path) (\<lambda>l. True)"
  unfolding CertLoader_Load_def by (rule leaves_Cons cert_first cert_hook cert_reader leaves_watch leaves_Nil)+

lemma new_cert_owned: "cert_owned NewCertLoader = {}"
  by (simp add: cert_owned_def NewCertLoader_def)

interpretation cert_loader: life_cycle "CertLoader_Load statIno env path" CertLoader_Close NewCertLoader
  by (rule life_cycleI [OF cert_leaves new_cert_owned clears_cert(4)])

lemma scan_tracks:
  "tracks base (cert_owned l) k \<Longrightarrow> libcrypto_scan statIno env files (l, k) = (l1, k1) \<Longrightarrow> tracks base (cert_owned l1) k1"
proof -
  have "tracks base (cert_owned (fst s)) (snd s) \<Longrightarrow>
     tracks base (cert_owned (fst (foldl (\<lambda>s inst. snd (AttachToExecutable statIno env (lc_Path inst) s)) s insts)))
       (snd (foldl (\<lambda>s inst. snd (AttachToExecutable statIno env (lc_Path inst) s)) s insts))" for insts :: "LibCryptoInstance list" and s
  proof (induction insts arbitrary: s)
    case (Cons inst insts)
    obtain l k where s: "s = (l, k)" by (cases s)
    obtain r l2 k2 where a: "AttachToExecutable statIno env (lc_Path inst) (l, k) = (r, l2, k2)"
      by (cases "AttachToExecutable statIno env (lc_Path inst) (l, k)")
    have "tracks base (cert_owned l2) k2" using attach_tracks [OF _ a] Cons.prems s by auto
    with Cons.IH [of "(l2, k2)"] show ?case by (simp add: s a)
  qed simp
  from this [of "(l, k)" "ScanProcForLibCrypto statIno files"]
  show "tracks base (cert_owned l) k \<Longrightarrow> libcrypto_scan statIno env files (l, k) = (l1, k1) \<Longrightarrow>
    tracks base (cert_owned l1) k1" by (simp add: libcrypto_scan_def)
qed

text \<open>The certificate loader with the scans that run while it is loaded.\<close>

definition cert_service ::
  "(string \<Rightarrow> u64 option) \<Rightarrow> kernel_env \<Rightarrow> string \<Rightarrow> string option list list \<Rightarrow> CertLoader load" where
  "cert_service statIno env path scans s =
     (case CertLoader_Load statIno env path s of
        (Some err, s1) \<Rightarrow> (Some err, s1)
      | (None, s1) \<Rightarrow> (None, foldl (\<lambda>s files. libcrypto_scan statIno env files s) s1 scans))"

lemma scans_tracks:
  "tracks base (cert_owned l) k \<Longrightarrow> foldl (\<lambda>s files. libcrypto_scan statIno env files s) (l, k) scans = (l1, k1) \<Longrightarrow>
   tracks base (cert_owned l1) k1"
proof (induction scans arbitrary: l k)
  case (Cons files scans)
  obtain l2 k2 where s: "libcrypto_scan statIno env files (l, k) = (l2, k2)"
    by (cases "libcrypto_scan statIno env files (l, k)")
  from Cons.IH [OF scan_tracks [OF Cons.prems(1) s]] Cons.prems(2) show ?case by (simp add: s)
qed simp

lemma service_leaves: "leaves cert_owned (\<lambda>l. l = NewCertLoader) (cert_service statIno env path scans) (\<lambda>l. True)"
  unfolding leaves_def
proof (intro allI impI)
  fix base l k r l1 k1
  assume P: "l = NewCertLoader" and T: "tracks base (cert_owned l) k"
    and f: "cert_service statIno env path scans (l, k) = (r, l1, k1)"
  obtain r2 l2 k2 where a: "CertLoader_Load statIno env path (l, k) = (r2, l2, k2)"
    by (cases "CertLoader_Load statIno env path (l, k)")
  show "case r of Some err \<Rightarrow> kn_open k1 = base \<and> kernel_ok k1 | None \<Rightarrow> True \<and> tracks base (cert_owned l1) k1"
    using leavesD [OF cert_leaves P T a] f a scans_tracks [of base l2 k2]
    by (cases r2) (auto simp: cert_service_def)
qed

interpretation cert_service: life_cycle "cert_service statIno env path scans" CertLoader_Close NewCertLoader
  by (rule life_cycleI [OF service_leaves new_cert_owned clears_cert(4)])

section \<open>The main program of the agent\<close>

text \<open>
  \<^verbatim>\<open>main\<close>, as far as the kernel goes: the loaders in their order, each with its own
  environment; which of them run; and the deferred calls in reverse order. Leaving with
  \<^verbatim>\<open>os.Exit\<close> runs no deferred call.
\<close>

datatype main_end = MetricsOnly | PolicyExit | Stopped

record Flags =
  fl_libssl :: string
  fl_libcrypto :: string
  fl_iface :: string

definition agent_main ::
  "Flags \<Rightarrow> (string \<Rightarrow> u64 option) \<Rightarrow> string option \<Rightarrow> string option \<Rightarrow> string option list list
   \<Rightarrow> kernel_env \<Rightarrow> kernel_env \<Rightarrow> kernel_env \<Rightarrow> kernel_env \<Rightarrow> Kernel \<Rightarrow> main_end \<times> Kernel" where
  "agent_main flags statIno route policyErr scans envSock envTLS envTC envCert k =
     (case Loader_Load envSock (NewLoader, k) of
        (Some err, l, k1) \<Rightarrow> (MetricsOnly, k1)
      | (None, l, k1) \<Rightarrow>
        (let (tls, k2) = opt_load (TLSLoader_Load envTLS (fl_libssl flags)) NewLoader k1;
             iface = (if fl_iface flags = [] then DefaultIface route else fl_iface flags);
             (tc, k3) = (if iface \<noteq> ''none'' then opt_load (TCLoader_Load envTC iface) NewLoader k2 else (None, k2))
         in if policyErr \<noteq> None then (PolicyExit, k3)
            else let (cert, k4) = opt_load (cert_service statIno envCert (fl_libcrypto flags) scans) NewCertLoader k3
                 in (Stopped, snd (Close (l, opt_close TLSLoader_Close tls (opt_close TCLoader_Close tc
                      (opt_close CertLoader_Close cert k4)))))))"



section \<open>Each library is hooked once\<close>

definition hooked :: "CertLoader \<Rightarrow> u64 list" where
  "hooked l = map fst (cl_attachedInodes l)"

text \<open>The kernel lets the probes of a library be attached.\<close>

definition attachable :: "kernel_env \<Rightarrow> Kernel \<Rightarrow> string \<Rightarrow> bool" where
  "attachable env k path \<longleftrightarrow>
     (case kn_mode k path of None \<Rightarrow> False | Some m \<Rightarrow> and m 73 \<noteq> 0 \<or> env (''chmod '' @ path) = None)
   \<and> env (''open '' @ path) = None \<and> env (''uprobe '' @ path) = None \<and> env (''uretprobe '' @ path) = None"

lemma or_mode: "and (or m 73) 73 \<noteq> (0 :: u32)"
proof -
  have "and (or m 73) 73 = (73 :: u32)" by (rule bit_word_eqI) (auto simp: bit_and_iff bit_or_iff)
  then show ?thesis by simp
qed

lemma attach_mode:
  "AttachToExecutable statIno env path (l, k) = (r, l1, k1) \<Longrightarrow> attachable env k p \<Longrightarrow> attachable env k1 p"
  using or_mode
  by (auto simp: AttachToExecutable_def attach_probes_def ensureExecutable_def attachable_def acquire_def release_def
      Let_def split: option.splits if_splits)

lemma attach_hooked:
  assumes "AttachToExecutable statIno env path (l, k) = (r, l1, k1)"
  shows "distinct (hooked l) \<Longrightarrow> distinct (hooked l1)" "set (hooked l) \<subseteq> set (hooked l1)"
    "statIno path = Some ino \<Longrightarrow> attachable env k path \<Longrightarrow> ino \<in> set (hooked l1)"
  using assms
  by (auto simp: AttachToExecutable_def attach_probes_def ensureExecutable_def attachable_def hooked_def Let_def
      split: option.splits if_splits prod.splits)

lemma attach_all:
  assumes "distinct (hooked l)"
    "foldl (\<lambda>s inst. snd (AttachToExecutable statIno env (lc_Path inst) s)) (l, k) insts = (l1, k1)"
  shows "distinct (hooked l1) \<and> set (hooked l) \<subseteq> set (hooked l1)
     \<and> (\<forall>inst \<in> set insts. \<forall>ino. statIno (lc_Path inst) = Some ino \<and> attachable env k (lc_Path inst)
          \<longrightarrow> ino \<in> set (hooked l1))"
  using assms
proof (induction insts arbitrary: l k)
  case (Cons inst insts)
  obtain r l2 k2 where a: "AttachToExecutable statIno env (lc_Path inst) (l, k) = (r, l2, k2)"
    by (cases "AttachToExecutable statIno env (lc_Path inst) (l, k)")
  note h = attach_hooked [OF a]
  have IH: "distinct (hooked l1) \<and> set (hooked l2) \<subseteq> set (hooked l1)
     \<and> (\<forall>inst \<in> set insts. \<forall>ino. statIno (lc_Path inst) = Some ino \<and> attachable env k2 (lc_Path inst)
          \<longrightarrow> ino \<in> set (hooked l1))"
    using Cons.IH [OF h(1) [OF Cons.prems(1)]] Cons.prems(2) a by simp
  with h(2,3) attach_mode [OF a] show ?case by (auto; blast)
qed simp

text \<open>
  Repeated scans hook each library once. A scan finds each inode once,
  never hooks an inode twice and never forgets one, and every library that it found
  and that the kernel lets be attached is hooked afterwards.
\<close>

lemma libcrypto_hooked_once:
  assumes "distinct (hooked l)" and "libcrypto_scan statIno env files (l, k) = (l1, k1)"
  shows "distinct (hooked l1) \<and> set (hooked l) \<subseteq> set (hooked l1)
     \<and> distinct (map lc_Inode (ScanProcForLibCrypto statIno files))
     \<and> (\<forall>inst \<in> set (ScanProcForLibCrypto statIno files). attachable env k (lc_Path inst)
          \<longrightarrow> lc_Inode inst \<in> set (hooked l1))"
  using attach_all [OF assms(1) assms(2) [unfolded libcrypto_scan_def]] ScanProc_ok [of statIno files]
  by (auto simp: insts_ok_def)

definition maps_example :: string where
  "maps_example = ''7f r-xp 0 08:01 9 /usr/lib/libcrypto.so.3'' @ [CHR 0x0A] @ ''7f r-xp 0 08:01 9 /usr/lib/libc.so.6''"

section \<open>Reading ends\<close>

text \<open>The samples that a loop handles: those before the first failed read after the context has ended.\<close>

fun handled :: "(ring \<times> bool) list \<Rightarrow> bytes list" where
  "handled [] = []"
| "handled ((Sample b, c) # rest) = b # handled rest"
| "handled ((ErrClosed, c) # rest) = (if c then [] else [] # handled rest)"
| "handled ((ReadErr err, c) # rest) = (if c then [] else handled rest)"

definition ends :: "ring \<times> bool \<Rightarrow> bool" where
  "ends x \<longleftrightarrow> snd x \<and> (case fst x of Sample b \<Rightarrow> False | _ \<Rightarrow> True)"

text \<open>
  The loops around the ring buffers handle every sample in order and
  end. A loop has ended exactly if a read failed after the context had ended, and its
  body has then run for each sample before that read, in order; other read errors are
  skipped. A buffer that is closed while the context has not ended would hand the body
  an empty record.
\<close>

lemma read_loop_exact:
  "read_loop name body s reads = (foldl body s (handled reads), \<exists>x \<in> set reads. ends x)"
proof (induction reads arbitrary: s)
  case (Cons x reads)
  obtain r c where x: "x = (r, c)" by (cases x)
  show ?case using Cons by (cases r) (auto simp: x Read_def ends_def)
qed simp

text \<open>
  The reader of the separate package leaks. Every call of its Read leaves
  one more goroutine waiting for the context to end, while a loaded program of the
  agent has one, however much is read.
\<close>

lemma certebpf_read_leaks:
  "kn_waiters (foldl (\<lambda>k (r, c). snd (certebpf_Read r c k)) k reads) = kn_waiters k + length reads
   \<and> (\<forall>l k1. Loader_Load env (l0, k) = (None, l, k1) \<longrightarrow> kn_waiters k1 = Suc (kn_waiters k))"
proof
  show "kn_waiters (foldl (\<lambda>k (r, c). snd (certebpf_Read r c k)) k reads) = kn_waiters k + length reads"
    by (induction reads arbitrary: k) (auto simp: certebpf_Read_def)
  show "\<forall>l k1. Loader_Load env (l0, k) = (None, l, k1) \<longrightarrow> kn_waiters k1 = Suc (kn_waiters k)"
    by (auto simp: Loader_Load_def attempt_def watch_def acquire_def split: option.splits)
qed

end
