(* ===== verification/Extract_Http.thy ===== *)
theory Extract_Http
  imports Ring_Events
begin

text \<open>
  What the reflector reads out of captured HTTP plaintext: the bearer token of an
  Authorization header (\<^verbatim>\<open>findBearerToken\<close> of \<^verbatim>\<open>internal/extract/jwt.go\<close>), Boundary tokens
  (\<^verbatim>\<open>internal/extract/boundary.go\<close>), the body of a request (\<^verbatim>\<open>internal/extract/mcp.go\<close>), OTLP
  exports (\<^verbatim>\<open>internal/extract/otlp.go\<close>), and the forwarder for them
  (\<^verbatim>\<open>internal/forward/otlp.go\<close>). A slice expression out of range panics; an outcome is a
  value, a panic, or fuel that has run out. The package protowire is a parameter with
  its documented laws \<open>wire_laws\<close>, as is the Unicode table beyond ASCII.
\<close>

section \<open>Outcomes\<close>

datatype 'a outcome = Value 'a | Panic | NoFuel

text \<open>\<^verbatim>\<open>s[i:]\<close>.\<close>

definition slice_from :: "'a list \<Rightarrow> nat \<Rightarrow> 'a list outcome" where
  "slice_from s i = (if i \<le> length s then Value (drop i s) else Panic)"

definition outcome_bind :: "'a outcome \<Rightarrow> ('a \<Rightarrow> 'b outcome) \<Rightarrow> 'b outcome" where
  "outcome_bind x f = (case x of Value a \<Rightarrow> f a | Panic \<Rightarrow> Panic | NoFuel \<Rightarrow> NoFuel)"

lemma outcome_bind_simps [simp]:
  "outcome_bind (Value a) f = f a" "outcome_bind Panic f = Panic" "outcome_bind NoFuel f = NoFuel"
  by (simp_all add: outcome_bind_def)

lemma outcome_bind_Value:
  "outcome_bind x f = Value b \<longleftrightarrow> (\<exists>a. x = Value a \<and> f a = Value b)"
  by (cases x) simp_all

definition returns :: "'a outcome \<Rightarrow> bool" where
  "returns x \<longleftrightarrow> (\<exists>a. x = Value a)"

lemma returns_Value [simp]: "returns (Value a)"
  by (simp add: returns_def)

lemma returns_bind: "returns x \<Longrightarrow> (\<And>a. x = Value a \<Longrightarrow> returns (f a)) \<Longrightarrow> returns (outcome_bind x f)"
  by (auto simp: returns_def)

section \<open>Bearer tokens\<close>

definition authorization :: string where "authorization = ''authorization:''"
definition bearer :: string where "bearer = ''bearer ''"

fun bearer_lines :: "(nat \<Rightarrow> nat) \<Rightarrow> string list \<Rightarrow> string outcome" where
  "bearer_lines utab [] = Value []"
| "bearer_lines utab (l # ls) =
     (let line = TrimRightByte (CHR 0x0D) l in
      if HasPrefix (ToLower utab line) authorization then
        outcome_bind (slice_from line (length authorization)) (\<lambda>r.
          let val = TrimSpace r in
          if HasPrefix (ToLower utab val) bearer
          then outcome_bind (slice_from val (length bearer)) (\<lambda>t. Value (TrimSpace t))
          else bearer_lines utab ls)
      else bearer_lines utab ls)"

definition findBearerToken :: "(nat \<Rightarrow> nat) \<Rightarrow> bytes \<Rightarrow> string outcome" where
  "findBearerToken utab b = bearer_lines utab (Split (CHR 0x0A) b)"

text \<open>
  The two prefixes are ASCII, and an ASCII prefix of a lower-cased string comes from
  at least as many bytes of the string itself.
\<close>

lemma length_runes: "length (runes s) \<le> length s"
proof (induction s rule: runes.induct)
  case (1 s)
  show ?case
  proof (cases "s = []")
    case False
    then have "length (runes (drop (snd (DecodeRune s)) s)) \<le> length s - snd (DecodeRune s)"
      using 1 by simp
    with DecodeRune_width [OF False] have "Suc (length (runes (drop (snd (DecodeRune s)) s))) \<le> length s"
      by linarith
    with False show ?thesis by (simp add: runes.simps [of s])
  qed (simp add: runes.simps)
qed

lemma EncodeRune_head:
  "\<exists>c cs. EncodeRune r = c # cs \<and> ((of_char c :: nat) < 128 \<longrightarrow> cs = [])"
proof -
  have "r < 2048 \<Longrightarrow> (192 + r div 64) mod 256 = 192 + r div 64" by simp
  moreover have "r < 65536 \<Longrightarrow> (224 + r div 4096) mod 256 = 224 + r div 4096" by simp
  moreover have "r \<le> 1114111 \<Longrightarrow> (240 + r div 262144) mod 256 = 240 + r div 262144" by simp
  ultimately show ?thesis by (auto simp: EncodeRune_def Let_def)
qed

lemma ascii_prefix_runes:
  "HasPrefix (concat (map EncodeRune rs)) p \<Longrightarrow> is_ascii p \<Longrightarrow> length p \<le> length rs"
proof (induction rs arbitrary: p)
  case (Cons r rs)
  show ?case
  proof (cases p)
    case (Cons c p')
    obtain d ds where E: "EncodeRune r = d # ds" "(of_char d :: nat) < 128 \<longrightarrow> ds = []"
      using EncodeRune_head by blast
    with Cons.prems Cons have "c = d" "(of_char d :: nat) < 128" by (auto simp: HasPrefix_def is_ascii_def)
    with E have "ds = []" by simp
    with Cons.prems E Cons have "HasPrefix (concat (map EncodeRune rs)) p'" "is_ascii p'"
      by (auto simp: HasPrefix_def is_ascii_def)
    then show ?thesis using Cons.IH Cons by simp
  qed simp
qed (simp add: HasPrefix_def)

lemma ascii_prefix_ToLower:
  assumes "HasPrefix (ToLower utab s) p" "is_ascii p"
  shows "length p \<le> length s"
proof -
  have "HasPrefix (concat (map EncodeRune (map (lower_rune utab) (runes s)))) p"
    using assms(1) by (simp add: ToLower_def comp_def)
  from ascii_prefix_runes [OF this assms(2)] length_runes [of s] show ?thesis by simp
qed

lemma ascii_words: "is_ascii authorization" "is_ascii bearer"
  by (simp_all add: authorization_def bearer_def is_ascii_def)

lemma bearer_lines_total: "\<exists>t. bearer_lines utab ls = Value t"
proof (induction ls)
  case (Cons l ls)
  define line where "line = TrimRightByte (CHR 0x0D) l"
  have 1: "HasPrefix (ToLower utab line) authorization \<Longrightarrow> length authorization \<le> length line"
    by (rule ascii_prefix_ToLower [OF _ ascii_words(1)])
  have 2: "HasPrefix (ToLower utab v) bearer \<Longrightarrow> length bearer \<le> length v" for v
    by (rule ascii_prefix_ToLower [OF _ ascii_words(2)])
  show ?case
    using Cons.IH 1 2 by (auto simp: line_def [symmetric] Let_def slice_from_def)
qed simp

section \<open>Boundary tokens\<close>

datatype BoundaryTokenType = BoundaryTokenAuth | BoundaryTokenSession | BoundaryTokenOpaque

fun token_type_string :: "BoundaryTokenType \<Rightarrow> string" where
  "token_type_string BoundaryTokenAuth = ''auth''"
| "token_type_string BoundaryTokenSession = ''session''"
| "token_type_string BoundaryTokenOpaque = ''opaque''"

record BoundaryToken =
  bt_Raw :: string
  bt_TokenType :: BoundaryTokenType

definition isOpaqueToken :: "string \<Rightarrow> bool" where
  "isOpaqueToken s = list_all (\<lambda>c.
     (48 \<le> c \<and> c \<le> 57) \<or> (97 \<le> c \<and> c \<le> 102) \<or> (65 \<le> c \<and> c \<le> 70) \<or> c = 45 \<or> c = 95) (runes s)"

definition classifyBoundaryToken :: "string \<Rightarrow> BoundaryToken option" where
  "classifyBoundaryToken token =
     (if token = [] then None
      else if HasPrefix token ''at_'' then Some \<lparr>bt_Raw = token, bt_TokenType = BoundaryTokenAuth\<rparr>
      else if HasPrefix token ''s_'' then Some \<lparr>bt_Raw = token, bt_TokenType = BoundaryTokenSession\<rparr>
      else if length token \<ge> 20 \<and> isOpaqueToken token
      then Some \<lparr>bt_Raw = token, bt_TokenType = BoundaryTokenOpaque\<rparr>
      else None)"

definition ExtractBoundaryTokenFromHTTP :: "(nat \<Rightarrow> nat) \<Rightarrow> bytes \<Rightarrow> BoundaryToken option outcome" where
  "ExtractBoundaryTokenFromHTTP utab plaintext =
     outcome_bind (findBearerToken utab plaintext) (\<lambda>token.
       Value (if token = [] then None
              else if count_list token (CHR ''.'') \<ge> 2 then None
              else classifyBoundaryToken token))"

text \<open>The test by which a bearer token is taken for a JWT: \<^verbatim>\<open>SplitN(token, ".", 3)\<close> has three parts.\<close>

definition jwt_parts :: "string \<Rightarrow> string list" where
  "jwt_parts token = SplitN 3 (CHR ''.'') token"

text \<open>
  Reading the bearer token never panics, whatever the captured bytes
  and whatever the Unicode case table, and a token is never taken for both a JWT and
  a Boundary token: what the Boundary extractor returns is the bearer token itself,
  and that token does not have the three parts of a JWT.
\<close>

lemma bearer_token_safe:
  "\<exists>token. findBearerToken utab b = Value token
     \<and> (\<exists>r. ExtractBoundaryTokenFromHTTP utab b = Value r
          \<and> (case r of None \<Rightarrow> True
             | Some bt \<Rightarrow> bt_Raw bt = token \<and> token \<noteq> [] \<and> length (jwt_parts token) \<noteq> 3))"
proof -
  obtain token where T: "findBearerToken utab b = Value token"
    using bearer_lines_total unfolding findBearerToken_def by blast
  have "length (jwt_parts token) = Suc (min 2 (count_list token (CHR ''.'')))"
    using length_SplitN [of 2] by (simp add: jwt_parts_def numeral_3_eq_3 numeral_2_eq_2)
  then show ?thesis
    using T by (auto simp: ExtractBoundaryTokenFromHTTP_def classifyBoundaryToken_def)
qed

section \<open>The body of a request\<close>

definition crlf2 :: bytes where "crlf2 = [CHR 0x0D, CHR 0x0A, CHR 0x0D, CHR 0x0A]"
definition lf2 :: bytes where "lf2 = [CHR 0x0A, CHR 0x0A]"

text \<open>The loops of \<^verbatim>\<open>findHTTPBody\<close>: scan byte by byte for the terminator.\<close>

fun scan_for :: "bytes \<Rightarrow> bytes \<Rightarrow> bytes option" where
  "scan_for sep [] = None"
| "scan_for sep (c # cs) =
     (if length sep \<le> length (c # cs) \<and> take (length sep) (c # cs) = sep
      then Some (drop (length sep) (c # cs)) else scan_for sep cs)"

definition findHTTPBody :: "bytes \<Rightarrow> bytes option" where
  "findHTTPBody b = (case scan_for crlf2 b of Some r \<Rightarrow> Some r | None \<Rightarrow> scan_for lf2 b)"

definition findHeaderEnd :: "bytes \<Rightarrow> nat option" where
  "findHeaderEnd b = (case Index b crlf2 of Some i \<Rightarrow> Some (i + 4)
     | None \<Rightarrow> (case Index b lf2 of Some i \<Rightarrow> Some (i + 2) | None \<Rightarrow> None))"

lemma sep_lengths: "length crlf2 = 4" "length lf2 = 2" "crlf2 \<noteq> []" "lf2 \<noteq> []"
  by (simp_all add: crlf2_def lf2_def)

lemma scan_for_Index:
  "sep \<noteq> [] \<Longrightarrow> scan_for sep b = map_option (\<lambda>i. drop (i + length sep) b) (Index b sep)"
proof (induction b)
  case (Cons c cs)
  have P: "length sep \<le> length (c # cs) \<and> take (length sep) (c # cs) = sep \<longleftrightarrow> HasPrefix (c # cs) sep"
    using HasPrefix_length [of "c # cs" sep] by (auto simp: HasPrefix_def)
  show ?case
    using Cons unfolding scan_for.simps P by (cases "Index cs sep") auto
qed simp

text \<open>
  The two functions that locate the body of a request agree: the byte
  scan returns exactly what follows the offset that the search returns.
\<close>

lemma findHTTPBody_agrees: "findHTTPBody b = map_option (\<lambda>i. drop i b) (findHeaderEnd b)"
  by (auto simp: findHTTPBody_def findHeaderEnd_def scan_for_Index sep_lengths split: option.splits)

section \<open>OTLP exports\<close>

record OTLPSignal =
  os_SignalType :: string
  os_ServiceName :: string
  os_BatchCount :: nat
  os_RawBody :: bytes
  os_IsTruncated :: bool

definition otlpPaths :: "(string \<times> string) list" where
  "otlpPaths = [(''/v1/traces'', ''traces''), (''/v1/metrics'', ''metrics''), (''/v1/logs'', ''logs'')]"

definition otlpGRPCPaths :: "(string \<times> string) list" where
  "otlpGRPCPaths =
     [(''/opentelemetry.proto.collector.trace.v1.TraceService/Export'', ''traces''),
      (''/opentelemetry.proto.collector.metrics.v1.MetricsService/Export'', ''metrics''),
      (''/opentelemetry.proto.collector.logs.v1.LogsService/Export'', ''logs'')]"

text \<open>
  The functions of protowire that the code calls: the field number, wire type and
  length of a tag (negative on error), the bytes of a length-delimited field and the
  length consumed, and the length of a field's value.
\<close>

record protowire =
  ConsumeTag :: "bytes \<Rightarrow> int \<times> int \<times> int"
  ConsumeBytes :: "bytes \<Rightarrow> bytes \<times> int"
  ConsumeFieldValue :: "int \<Rightarrow> int \<Rightarrow> bytes \<Rightarrow> int"

definition BytesType :: int where "BytesType = 2"

definition wire_laws :: "protowire \<Rightarrow> bool" where
  "wire_laws pw \<longleftrightarrow>
     (\<forall>b num typ n. ConsumeTag pw b = (num, typ, n) \<longrightarrow> n < 0 \<or> (0 < n \<and> n \<le> int (length b)))
     \<and> (\<forall>b. snd (ConsumeBytes pw b) \<le> int (length b))
     \<and> (\<forall>num typ b. ConsumeFieldValue pw num typ b \<le> int (length b))"

text \<open>The loop shared by \<^verbatim>\<open>protoFirstMessage\<close> and \<^verbatim>\<open>protoFirstString\<close>.\<close>

fun first_field :: "protowire \<Rightarrow> nat \<Rightarrow> int \<Rightarrow> bytes \<Rightarrow> bytes option outcome" where
  "first_field pw 0 fieldNum b = NoFuel"
| "first_field pw (Suc fuel) fieldNum b =
     (if b = [] then Value None
      else case ConsumeTag pw b of (num, typ, n) \<Rightarrow>
        if n < 0 then Value None
        else if n > int (length b) then Panic
        else let b1 = drop (nat n) b in
          if typ = BytesType \<and> num = fieldNum then
            (if snd (ConsumeBytes pw b1) < 0 then Value None else Value (Some (fst (ConsumeBytes pw b1))))
          else let n2 = ConsumeFieldValue pw num typ b1 in
            if n2 < 0 then Value None
            else if n2 > int (length b1) then Panic
            else first_field pw fuel fieldNum (drop (nat n2) b1))"

definition protoFirstMessage :: "protowire \<Rightarrow> bytes \<Rightarrow> int \<Rightarrow> bytes option outcome" where
  "protoFirstMessage pw b fieldNum = first_field pw (Suc (length b)) fieldNum b"

definition protoFirstString :: "protowire \<Rightarrow> bytes \<Rightarrow> int \<Rightarrow> string outcome" where
  "protoFirstString pw b fieldNum =
     outcome_bind (first_field pw (Suc (length b)) fieldNum b)
       (\<lambda>r. Value (case r of Some s \<Rightarrow> s | None \<Rightarrow> []))"

fun count_loop :: "protowire \<Rightarrow> nat \<Rightarrow> nat \<Rightarrow> bytes \<Rightarrow> nat outcome" where
  "count_loop pw 0 count b = NoFuel"
| "count_loop pw (Suc fuel) count b =
     (if b = [] then Value count
      else case ConsumeTag pw b of (num, typ, n) \<Rightarrow>
        if n < 0 then Value count
        else if n > int (length b) then Panic
        else let b1 = drop (nat n) b;
                 count1 = (if typ = BytesType \<and> num = 1 then Suc count else count);
                 n2 = ConsumeFieldValue pw num typ b1 in
          if n2 < 0 then Value count1
          else if n2 > int (length b1) then Panic
          else count_loop pw fuel count1 (drop (nat n2) b1))"

definition countTopLevelEntries :: "protowire \<Rightarrow> bytes \<Rightarrow> nat outcome" where
  "countTopLevelEntries pw b = count_loop pw (Suc (length b)) 0 b"

text \<open>The value of a key-value pair, if the key is the service name and it has a value.\<close>

definition service_value :: "protowire \<Rightarrow> bytes \<Rightarrow> string option outcome" where
  "service_value pw kv =
     outcome_bind (protoFirstString pw kv 1) (\<lambda>key.
       if key = ''service.name'' then
         outcome_bind (protoFirstMessage pw kv 2) (\<lambda>r. case r of
           Some anyBytes \<Rightarrow> outcome_bind (protoFirstString pw anyBytes 1) (\<lambda>s. Value (Some s))
         | None \<Rightarrow> Value None)
       else Value None)"

fun attribute_loop :: "protowire \<Rightarrow> nat \<Rightarrow> bytes \<Rightarrow> string outcome" where
  "attribute_loop pw 0 b = NoFuel"
| "attribute_loop pw (Suc fuel) b =
     (if b = [] then Value []
      else case ConsumeTag pw b of (num, typ, n) \<Rightarrow>
        if n < 0 then Value []
        else if n > int (length b) then Panic
        else let b1 = drop (nat n) b in
          if typ = BytesType \<and> num = 1 then
            let n2 = snd (ConsumeBytes pw b1) in
            if n2 < 0 then Value []
            else if n2 > int (length b1) then Panic
            else outcome_bind (service_value pw (fst (ConsumeBytes pw b1))) (\<lambda>r. case r of
                   Some s \<Rightarrow> Value s
                 | None \<Rightarrow> attribute_loop pw fuel (drop (nat n2) b1))
          else let n2 = ConsumeFieldValue pw num typ b1 in
            if n2 > 0 then
              (if n2 > int (length b1) then Panic else attribute_loop pw fuel (drop (nat n2) b1))
            else Value [])"

definition extractServiceName :: "protowire \<Rightarrow> bytes \<Rightarrow> string outcome" where
  "extractServiceName pw protoBody =
     outcome_bind (protoFirstMessage pw protoBody 1) (\<lambda>r. case r of
       None \<Rightarrow> Value []
     | Some rs \<Rightarrow> outcome_bind (protoFirstMessage pw rs 1) (\<lambda>r2. case r2 of
         None \<Rightarrow> Value []
       | Some resource \<Rightarrow> attribute_loop pw (Suc (length resource)) resource))"

definition content_length :: string where "content_length = ''content-length:''"

definition extractContentLength :: "(nat \<Rightarrow> nat) \<Rightarrow> bytes \<Rightarrow> int outcome" where
  "extractContentLength utab headers =
     (let lower = ToLower utab headers in
      case Index lower content_length of
        None \<Rightarrow> Value 0
      | Some idx \<Rightarrow>
        outcome_bind (slice_from headers (idx + 15)) (\<lambda>rest.
          let r = dropWhile (\<lambda>c. c = CHR '' '' \<or> c = CHR 0x09) rest; digits = takeWhile is_digit r in
          Value (if digits = [] then 0 else case Atoi digits of None \<Rightarrow> 0 | Some n \<Rightarrow> n)))"

text \<open>The signal type of a path and whether it is a gRPC path.\<close>

definition signal_of_path :: "string \<Rightarrow> string \<times> bool" where
  "signal_of_path path =
     (case map_of otlpPaths path of Some st \<Rightarrow> (st, False)
      | None \<Rightarrow> (case map_of otlpGRPCPaths path of Some st \<Rightarrow> (st, True) | None \<Rightarrow> ([], False)))"

text \<open>The protobuf body: \<open>None\<close> for a gRPC frame that is not complete.\<close>

definition proto_body :: "bool \<Rightarrow> bytes \<Rightarrow> bytes option" where
  "proto_body isGRPC body =
     (if isGRPC \<and> length body \<ge> 5 then
        let msgLen = be_val (slice body 1 5) in
        if msgLen > 0 \<and> length body \<ge> 5 + msgLen then Some (slice body 5 (5 + msgLen)) else None
      else Some body)"

text \<open>The part of \<^verbatim>\<open>ExtractOTLPFromTLS\<close> after the headers; \<open>sig\<close> is the signal marked as truncated.\<close>

definition otlp_body ::
  "protowire \<Rightarrow> OTLPSignal \<Rightarrow> bool \<Rightarrow> int \<Rightarrow> bytes \<Rightarrow> OTLPSignal outcome" where
  "otlp_body pw sig isGRPC contentLength body =
     (let isTruncated = (contentLength > 0 \<and> int (length body) < contentLength) in
      if length body = 0 then Value sig
      else (case proto_body isGRPC body of
              None \<Rightarrow> Value sig
            | Some protoBody \<Rightarrow>
                outcome_bind (extractServiceName pw protoBody) (\<lambda>name.
                outcome_bind (countTopLevelEntries pw protoBody) (\<lambda>count.
                  Value (sig\<lparr>os_IsTruncated := isTruncated,
                      os_RawBody := (if \<not> isTruncated then protoBody else []),
                      os_ServiceName := name, os_BatchCount := count\<rparr>)))))"

definition ExtractOTLPFromTLS ::
  "(nat \<Rightarrow> nat) \<Rightarrow> protowire \<Rightarrow> bytes \<Rightarrow> OTLPSignal option outcome" where
  "ExtractOTLPFromTLS utab pw plaintext =
     (if \<not> HasPrefix plaintext ''POST '' then Value None
      else (case Index (drop 5 plaintext) '' '' of
        None \<Rightarrow> Value None
      | Some pathEnd \<Rightarrow>
        (let (signalType, isGRPC) = signal_of_path (take pathEnd (drop 5 plaintext));
             sig = \<lparr>os_SignalType = signalType, os_ServiceName = [], os_BatchCount = 0, os_RawBody = [],
                    os_IsTruncated = True\<rparr> in
         if signalType = [] then Value None
         else (case findHeaderEnd plaintext of
           None \<Rightarrow> Value (Some sig)
         | Some headerEnd \<Rightarrow>
             outcome_bind (extractContentLength utab (take headerEnd plaintext)) (\<lambda>contentLength.
             outcome_bind (otlp_body pw sig isGRPC contentLength (drop headerEnd plaintext)) (\<lambda>r.
               Value (Some r)))))))"

section \<open>Forwarding\<close>

text \<open>
  \<^verbatim>\<open>Forward\<close>: the request that is posted (if any) and the error (if any). The HTTP
  client is a parameter: an error text or the status of the response.
\<close>

definition Forward ::
  "string \<Rightarrow> (string \<Rightarrow> bytes \<Rightarrow> string + nat) \<Rightarrow> OTLPSignal \<Rightarrow> (string \<times> bytes) option \<times> string option" where
  "Forward endpoint post sig =
     (if os_IsTruncated sig
      then (None, Some (''skipping truncated '' @ os_SignalType sig @ '' payload (body incomplete)''))
      else if length (os_RawBody sig) = 0
      then (None, Some (''skipping '' @ os_SignalType sig @ '': no raw body to forward''))
      else let url = endpoint @ ''/v1/'' @ os_SignalType sig in
        (Some (url, os_RawBody sig),
         case post url (os_RawBody sig) of
           Inl err \<Rightarrow> Some (''OTLP forward POST '' @ url @ '': '' @ err)
         | Inr code \<Rightarrow> if code < 200 \<or> code \<ge> 300
                       then Some (''OTLP forward POST '' @ url @ '': HTTP '' @ utoa code) else None))"

section \<open>The OTLP extractor returns\<close>

lemma wire_tag: "wire_laws pw \<Longrightarrow> ConsumeTag pw b = (num, typ, n) \<Longrightarrow> n < 0 \<or> (0 < n \<and> n \<le> int (length b))"
  and wire_bytes: "wire_laws pw \<Longrightarrow> snd (ConsumeBytes pw b) \<le> int (length b)"
  and wire_value: "wire_laws pw \<Longrightarrow> ConsumeFieldValue pw num typ b \<le> int (length b)"
  unfolding wire_laws_def by blast+

text \<open>After a tag and a value the rest is shorter, so the initial fuel suffices.\<close>

lemma rest_shorter:
  "0 < n \<Longrightarrow> n \<le> int (length b) \<Longrightarrow> length b < Suc fuel \<Longrightarrow>
   length (drop (nat n2) (drop (nat n) b)) < fuel"
  by simp

lemmas loop_simps = first_field.simps count_loop.simps attribute_loop.simps

declare loop_simps [simp del]

lemma first_field_returns: "wire_laws pw \<Longrightarrow> length b < fuel \<Longrightarrow> returns (first_field pw fuel k b)"
proof (induction fuel arbitrary: b)
  case (Suc fuel)
  obtain num ty n where T: "ConsumeTag pw b = (num, ty, n)" by (cases "ConsumeTag pw b")
  show ?case
    using wire_tag [OF Suc.prems(1) T] wire_value [OF Suc.prems(1), of num ty "drop (nat n) b"]
      Suc.IH [OF Suc.prems(1)] rest_shorter [OF _ _ Suc.prems(2), of n]
    by (auto simp: T Let_def loop_simps)
qed (simp add: loop_simps)

lemma count_loop_returns: "wire_laws pw \<Longrightarrow> length b < fuel \<Longrightarrow> returns (count_loop pw fuel c b)"
proof (induction fuel arbitrary: b c)
  case (Suc fuel)
  obtain num ty n where T: "ConsumeTag pw b = (num, ty, n)" by (cases "ConsumeTag pw b")
  show ?case
    using wire_tag [OF Suc.prems(1) T] wire_value [OF Suc.prems(1), of num ty "drop (nat n) b"]
      Suc.IH [OF Suc.prems(1)] rest_shorter [OF _ _ Suc.prems(2), of n]
    by (auto simp: T Let_def loop_simps)
qed (simp add: loop_simps)

lemma field_returns:
  assumes "wire_laws pw"
  shows "returns (protoFirstMessage pw b k)" "returns (protoFirstString pw b k)"
    "returns (countTopLevelEntries pw b)" "returns (service_value pw b)"
  using first_field_returns [OF assms] count_loop_returns [OF assms]
  by (auto simp: protoFirstMessage_def protoFirstString_def countTopLevelEntries_def service_value_def
      intro!: returns_bind split: option.split)

lemma attribute_loop_returns: "wire_laws pw \<Longrightarrow> length b < fuel \<Longrightarrow> returns (attribute_loop pw fuel b)"
proof (induction fuel arbitrary: b)
  case (Suc fuel)
  obtain num ty n where T: "ConsumeTag pw b = (num, ty, n)" by (cases "ConsumeTag pw b")
  show ?case
    using wire_tag [OF Suc.prems(1) T] wire_value [OF Suc.prems(1), of num ty "drop (nat n) b"]
      wire_bytes [OF Suc.prems(1), of "drop (nat n) b"]
      Suc.IH [OF Suc.prems(1)] rest_shorter [OF _ _ Suc.prems(2), of n] field_returns(4) [OF Suc.prems(1)]
    by (auto simp: T Let_def loop_simps intro!: returns_bind split: option.split)
qed (simp add: loop_simps)

lemma otlp_body_returns: "wire_laws pw \<Longrightarrow> returns (otlp_body pw sig g c body)"
  using field_returns [of pw] attribute_loop_returns [of pw]
  by (auto simp: otlp_body_def extractServiceName_def Let_def intro!: returns_bind split: option.split)

lemma content_length_returns:
  "length (ToLower utab h) \<le> length h \<Longrightarrow> returns (extractContentLength utab h)"
  using Index_SomeD [of "ToLower utab h" content_length]
  by (auto simp: extractContentLength_def slice_from_def content_length_def Let_def
      intro!: returns_bind split: option.split)

lemma otlp_returns:
  assumes "wire_laws pw" and "\<forall>n. findHeaderEnd b = Some n \<longrightarrow> is_ascii (take n b)"
  shows "returns (ExtractOTLPFromTLS utab pw b)"
proof -
  have "returns (extractContentLength utab (take n b))" if "findHeaderEnd b = Some n" for n
    using that assms(2) by (intro content_length_returns) (simp add: length_ToLower_ascii)
  then show ?thesis
    using otlp_body_returns [OF assms(1)]
    by (auto simp: ExtractOTLPFromTLS_def Let_def intro!: returns_bind split: option.split prod.split)
qed

text \<open>
  On requests whose header part is ASCII the OTLP extractor always
  returns: it never slices out of range and its loops over the protobuf body end,
  whatever the body holds, for every protobuf decoder that obeys the documented laws.
\<close>

lemma otlp_total:
  assumes "wire_laws pw" and "\<forall>n. findHeaderEnd b = Some n \<longrightarrow> is_ascii (take n b)"
  shows "\<exists>r. ExtractOTLPFromTLS utab pw b = Value r"
  using otlp_returns [OF assms] by (simp add: returns_def)

text \<open>A decoder for messages whose fields all have one-byte tags and one-byte lengths.\<close>

definition wire_example :: protowire where
  "wire_example =
     \<lparr>ConsumeTag = (\<lambda>b. case b of [] \<Rightarrow> (0, 0, - 1) | c # r \<Rightarrow>
        if (of_char c :: int) < 128 then (of_char c div 8, of_char c mod 8, 1) else (0, 0, - 1)),
      ConsumeBytes = (\<lambda>b. case b of [] \<Rightarrow> ([], - 1) | c # r \<Rightarrow>
        if of_char c \<le> length r then (take (of_char c) r, 1 + of_char c) else ([], - 1)),
      ConsumeFieldValue = (\<lambda>num typ b. case b of [] \<Rightarrow> - 1 | c # r \<Rightarrow>
        if of_char c \<le> length r then 1 + of_char c else - 1)\<rparr>"

lemma wire_example_laws: "wire_laws wire_example"
  by (auto simp: wire_laws_def wire_example_def split: list.splits if_splits)
     (metis of_nat_le_iff of_nat_of_char)+

definition otlp_example :: bytes where
  "otlp_example = ''POST /v1/traces HTTP/1.1'' @ crlf2 @ [CHR 0x0A, CHR 0x00]"

section \<open>What is forwarded\<close>

lemma otlp_body_raw:
  "otlp_body pw sig g c body = Value r \<Longrightarrow> os_RawBody sig = [] \<Longrightarrow> os_RawBody r \<noteq> [] \<Longrightarrow>
   \<not> os_IsTruncated r \<and> (c > 0 \<longrightarrow> c \<le> int (length body)) \<and> proto_body g body = Some (os_RawBody r)"
  by (auto simp: otlp_body_def outcome_bind_Value Let_def split: if_splits option.splits)

text \<open>
  Only complete bodies are forwarded. When the extractor finds an
  export and the forwarder posts a request for it, the posted bytes are the body that
  follows the header end (for gRPC: the complete frame in it), and the body is at
  least as long as the content length announced in the headers.
\<close>

lemma forward_complete_only:
  assumes "ExtractOTLPFromTLS utab pw b = Value (Some sig)"
    and "fst (Forward endpoint post sig) = Some (url, payload)"
  shows "url = endpoint @ ''/v1/'' @ os_SignalType sig
     \<and> (\<exists>n g c. findHeaderEnd b = Some n \<and> proto_body g (drop n b) = Some payload
          \<and> extractContentLength utab (take n b) = Value c
          \<and> (c > 0 \<longrightarrow> c \<le> int (length (drop n b))))"
proof -
  have F: "os_RawBody sig \<noteq> []" "payload = os_RawBody sig" "url = endpoint @ ''/v1/'' @ os_SignalType sig"
    using assms(2) by (auto simp: Forward_def Let_def split: if_splits)
  from assms(1) F(1) show ?thesis
    by (auto simp: ExtractOTLPFromTLS_def outcome_bind_Value F(2,3) Let_def
        dest!: otlp_body_raw split: if_splits option.splits prod.splits)
qed

definition sig_example :: OTLPSignal where
  "sig_example = \<lparr>os_SignalType = ''traces'', os_ServiceName = [], os_BatchCount = 1,
     os_RawBody = [CHR 0x0A, CHR 0x00], os_IsTruncated = False\<rparr>"

lemma otlp_example_result: "ExtractOTLPFromTLS (\<lambda>r. r) wire_example otlp_example = Value (Some sig_example)"
  by code_simp

section \<open>A header that is not UTF-8\<close>

lemma runes_append_ascii: "is_ascii a \<Longrightarrow> runes (a @ s) = map of_char a @ runes s"
proof (induction a)
  case (Cons c a)
  then have "DecodeRune (c # a @ s) = (of_char c, 1)" by (simp add: is_ascii_def DecodeRune_def)
  with Cons show ?case by (simp add: runes.simps [of "c # a @ s"] is_ascii_def)
qed simp

lemma runes_invalid: "runes (replicate k (CHR 0xE9) @ CHR 0x0D # s) = replicate k RuneError @ runes (CHR 0x0D # s)"
proof (induction k)
  case (Suc k)
  have "DecodeRune (CHR 0xE9 # r) = (RuneError, 1)" if "r = [] \<or> \<not> cont_byte (hd r)" for r
    using that by (cases r) (auto simp: DecodeRune_def byte_in_def cont_byte_def split: list.splits)
  then have "DecodeRune (CHR 0xE9 # replicate k (CHR 0xE9) @ CHR 0x0D # s) = (RuneError, 1)"
    by (cases k) (simp_all add: cont_byte_def)
  with Suc show ?case by (simp add: runes.simps [of "CHR 0xE9 # _"])
qed simp

definition ascii_lower :: "bytes \<Rightarrow> bytes" where
  "ascii_lower a = map (\<lambda>c. char_of (if 65 \<le> (of_char c :: nat) \<and> (of_char c :: nat) \<le> 90
     then of_char c + 32 else (of_char c :: nat))) a"

lemma encode_ascii:
  "is_ascii a \<Longrightarrow> concat (map (\<lambda>r. EncodeRune (lower_rune utab r)) (map of_char a)) = ascii_lower a"
  by (induction a) (auto simp: is_ascii_def ascii_lower_def lower_rune_def EncodeRune_def)

definition latin1_request :: bytes where
  "latin1_request = ''POST /v1/logs HTTP/1.1'' @ [CHR 0x0D, CHR 0x0A] @ ''X-User: '' @ replicate 4 (CHR 0xE9)
     @ [CHR 0x0D, CHR 0x0A] @ ''Content-Length: 1'' @ crlf2 @ ''x''"

lemma latin1_headerEnd: "findHeaderEnd latin1_request = Some 59"
  by (simp add: findHeaderEnd_def latin1_request_def crlf2_def HasPrefix_def numeral_eq_Suc)

lemma lower_invalid:
  assumes "utab RuneError = RuneError" "is_ascii pre" "is_ascii (CHR 0x0D # post)"
  shows "ToLower utab (pre @ replicate k (CHR 0xE9) @ CHR 0x0D # post)
     = ascii_lower pre @ concat (replicate k [CHR 0xEF, CHR 0xBF, CHR 0xBD]) @ ascii_lower (CHR 0x0D # post)"
proof -
  have E: "EncodeRune (lower_rune utab RuneError) = [CHR 0xEF, CHR 0xBF, CHR 0xBD]"
    using assms(1) by (simp add: lower_rune_def RuneError_def EncodeRune_def char_of_def bit_iff_odd)
  have "runes (pre @ replicate k (CHR 0xE9) @ CHR 0x0D # post)
      = map of_char pre @ replicate k RuneError @ map of_char (CHR 0x0D # post)"
    using runes_append_ascii [OF assms(2)] runes_invalid [of k post] runes_ascii [OF assms(3)] by (simp only:)
  then show ?thesis
    unfolding ToLower_def
    by (simp only: map_append concat_append encode_ascii [OF assms(2)] encode_ascii [OF assms(3)]
        map_replicate E)
qed

lemma latin1_lower:
  assumes "utab RuneError = RuneError"
  shows "ToLower utab (take 59 latin1_request) = ''post /v1/logs http/1.1'' @ [CHR 0x0D, CHR 0x0A] @ ''x-user: ''
     @ concat (replicate 4 [CHR 0xEF, CHR 0xBF, CHR 0xBD]) @ [CHR 0x0D, CHR 0x0A] @ ''content-length: 1'' @ crlf2"
proof -
  let ?pre = "''POST /v1/logs HTTP/1.1'' @ [CHR 0x0D, CHR 0x0A] @ ''X-User: ''"
  let ?post = "CHR 0x0A # ''Content-Length: 1'' @ crlf2"
  have "take 59 latin1_request = ?pre @ replicate 4 (CHR 0xE9) @ CHR 0x0D # ?post"
    by (simp add: latin1_request_def crlf2_def numeral_eq_Suc)
  moreover have "is_ascii ?pre" "is_ascii (CHR 0x0D # ?post)"
    by (simp_all add: is_ascii_def crlf2_def)
  moreover have "ascii_lower ?pre = ''post /v1/logs http/1.1'' @ [CHR 0x0D, CHR 0x0A] @ ''x-user: ''" by code_simp
  moreover have "ascii_lower (CHR 0x0D # ?post) = [CHR 0x0D, CHR 0x0A] @ ''content-length: 1'' @ crlf2" by code_simp
  ultimately show ?thesis using lower_invalid [of utab ?pre ?post 4, OF assms] by (simp only: append_assoc)
qed

text \<open>
  A header that is not valid UTF-8: the position of the content length is found in the
  lower-cased header, in which each invalid byte has become three, and is then used to
  slice the original one. Four Latin-1 letters in another header are enough for the
  slice to be out of range, whatever the protobuf decoder.
\<close>

lemma latin1_panics:
  assumes "utab RuneError = RuneError"
  shows "ExtractOTLPFromTLS utab pw latin1_request = Panic"
proof -
  have "Index (ToLower utab (take 59 latin1_request)) content_length = Some 46"
    unfolding latin1_lower [of utab, OF assms]
    by (simp add: content_length_def HasPrefix_def crlf2_def numeral_eq_Suc)
  moreover have "length (take 59 latin1_request) = 59"
    by (simp add: latin1_request_def crlf2_def)
  ultimately have P: "extractContentLength utab (take 59 latin1_request) = Panic"
    by (simp add: extractContentLength_def slice_from_def)
  have "HasPrefix latin1_request ''POST ''" "Index (drop 5 latin1_request) '' '' = Some 8"
    "take 8 (drop 5 latin1_request) = ''/v1/logs''"
    by (simp_all add: latin1_request_def HasPrefix_def numeral_eq_Suc)
  moreover have "signal_of_path ''/v1/logs'' = (''logs'', False)"
    by (simp add: signal_of_path_def otlpPaths_def)
  ultimately show ?thesis
    by (simp add: ExtractOTLPFromTLS_def latin1_headerEnd P)
qed

end
