(* ===== verification/Go_Json.thy ===== *)
theory Go_Json
  imports Go_Time
begin

text \<open>
  The parts of \<^verbatim>\<open>encoding/json\<close> and \<^verbatim>\<open>encoding/base64\<close> that the extractors and the test
  workload use. A JSON text is read by recursive descent over its bytes, as strictly as
  the scanner of the package: strings are unquoted with invalid encodings replaced, the
  nesting depth is limited, nothing but white space may follow the value. Object members
  stay in order with duplicates; what a duplicate means is up to the decoding target.
\<close>

section \<open>Values\<close>

datatype json = JNull | JBool bool | JNumber string | JString string | JArray "json list"
  | JObject "(string \<times> json) list"

definition is_ws :: "char \<Rightarrow> bool" where
  "is_ws c \<longleftrightarrow> c = CHR '' '' \<or> c = CHR 0x09 \<or> c = CHR 0x0D \<or> c = CHR 0x0A"

definition skip_ws :: "bytes \<Rightarrow> bytes" where
  "skip_ws s = dropWhile is_ws s"

definition maxNestingDepth :: nat where "maxNestingDepth = 10000"

section \<open>Strings\<close>

text \<open>\<^verbatim>\<open>getu4\<close> after the backslash and the u: four hexadecimal digits.\<close>

fun hex4 :: "bytes \<Rightarrow> (nat \<times> bytes) option" where
  "hex4 (a # b # c # d # r) =
     (case (hex_value a, hex_value b, hex_value c, hex_value d) of
        (Some a, Some b, Some c, Some d) \<Rightarrow> Some (((a * 16 + b) * 16 + c) * 16 + d, r) | _ \<Rightarrow> None)"
| "hex4 _ = None"

definition utf16_decode :: "nat \<Rightarrow> nat \<Rightarrow> nat option" where
  "utf16_decode r1 r2 =
     (if 55296 \<le> r1 \<and> r1 < 56320 \<and> 56320 \<le> r2 \<and> r2 < 57344
      then Some ((r1 - 55296) * 1024 + (r2 - 56320) + 65536) else None)"

text \<open>An escape, after its backslash. A lone surrogate is replaced.\<close>

definition parse_escape :: "bytes \<Rightarrow> (bytes \<times> bytes) option" where
  "parse_escape s =
     (case s of
        [] \<Rightarrow> None
      | c # r \<Rightarrow>
        if c = CHR 0x22 \<or> c = CHR 0x5C \<or> c = CHR ''/'' then Some ([c], r)
        else if c = CHR ''b'' then Some ([CHR 0x08], r)
        else if c = CHR ''f'' then Some ([CHR 0x0C], r)
        else if c = CHR ''n'' then Some ([CHR 0x0A], r)
        else if c = CHR ''r'' then Some ([CHR 0x0D], r)
        else if c = CHR ''t'' then Some ([CHR 0x09], r)
        else if c = CHR ''u'' then
          (case hex4 r of
             None \<Rightarrow> None
           | Some (r1, t) \<Rightarrow>
             if 55296 \<le> r1 \<and> r1 < 57344 then
               (case t of
                  b # u # t' \<Rightarrow>
                    (if b = CHR 0x5C \<and> u = CHR ''u'' then
                       (case hex4 t' of
                          Some (r2, t'') \<Rightarrow>
                            (case utf16_decode r1 r2 of
                               Some x \<Rightarrow> Some (EncodeRune x, t'')
                             | None \<Rightarrow> Some (EncodeRune RuneError, t))
                        | None \<Rightarrow> Some (EncodeRune RuneError, t))
                     else Some (EncodeRune RuneError, t))
                | _ \<Rightarrow> Some (EncodeRune RuneError, t))
             else Some (EncodeRune r1, t))
        else None)"

lemma hex4_shorter: "hex4 s = Some (v, r) \<Longrightarrow> length r < length s"
  by (induction s rule: hex4.induct) (auto split: option.splits)

lemma parse_escape_shorter: "parse_escape s = Some (v, r) \<Longrightarrow> length r < length s"
  by (fastforce simp: parse_escape_def split: list.splits if_splits option.splits dest: hex4_shorter)

text \<open>The characters of a string up to the closing quote.\<close>

function parse_chars :: "bytes \<Rightarrow> (bytes \<times> bytes) option" where
  "parse_chars s =
     (case s of
        [] \<Rightarrow> None
      | c # r \<Rightarrow>
        if c = CHR 0x22 then Some ([], r)
        else if c = CHR 0x5C then
          (case parse_escape r of
             None \<Rightarrow> None
           | Some (x, t) \<Rightarrow> map_option (apfst (append x)) (parse_chars t))
        else if (of_char c :: nat) < 32 then None
        else map_option (apfst (append (EncodeRune (fst (DecodeRune s)))))
               (parse_chars (drop (snd (DecodeRune s)) s)))"
  by pat_completeness auto
termination
proof (relation "measure length")
  fix s :: bytes and c r
  assume "s = c # r"
  then show "(drop (snd (DecodeRune s)) s, s) \<in> measure length"
    using DecodeRune_width [of s] by auto
qed (auto dest: parse_escape_shorter)

declare parse_chars.simps [simp del]

lemma parse_chars_shorter: "parse_chars s = Some (v, r) \<Longrightarrow> length r < length s"
proof (induction s arbitrary: v r rule: parse_chars.induct)
  case (1 s)
  show ?case
  proof (cases s)
    case Nil
    with "1.prems" show ?thesis by (simp add: parse_chars.simps)
  next
    case (Cons c u)
    have w: "length (drop (snd (DecodeRune s)) s) < length s"
      using DecodeRune_width [of s] Cons by auto
    show ?thesis
      using "1.prems" "1.IH" [OF Cons] w
      by (subst (asm) parse_chars.simps)
         (auto simp: Cons split: if_splits option.splits dest!: parse_escape_shorter, fastforce+)
  qed
qed

section \<open>Numbers\<close>

definition take_digits :: "bytes \<Rightarrow> bytes \<times> bytes" where
  "take_digits s = (takeWhile is_digit s, dropWhile is_digit s)"

definition number_int :: "bytes \<Rightarrow> (bytes \<times> bytes) option" where
  "number_int s =
     (case s of
        [] \<Rightarrow> None
      | c # r \<Rightarrow> if c = CHR ''0'' then Some ([c], r)
                 else if is_digit c then Some (take_digits s) else None)"

definition number_frac :: "bytes \<Rightarrow> (bytes \<times> bytes) option" where
  "number_frac s =
     (if HasPrefix s ''.'' then
        (let (ds, t) = take_digits (tl s) in if ds = [] then None else Some (CHR ''.'' # ds, t))
      else Some ([], s))"

definition number_exp :: "bytes \<Rightarrow> (bytes \<times> bytes) option" where
  "number_exp s =
     (case s of
        e # r \<Rightarrow>
          if e = CHR ''e'' \<or> e = CHR ''E'' then
            (let (sg, r1) = (case r of c # r' \<Rightarrow> if c = CHR ''+'' \<or> c = CHR ''-'' then ([c], r') else ([], r)
                             | [] \<Rightarrow> ([], r));
                 (ds, t) = take_digits r1
             in if ds = [] then None else Some (e # sg @ ds, t))
          else Some ([], s)
      | [] \<Rightarrow> Some ([], s))"

definition parse_number :: "bytes \<Rightarrow> (bytes \<times> bytes) option" where
  "parse_number s =
     (let (sg, s0) = (if HasPrefix s ''-'' then (''-'', tl s) else ([], s)) in
      case number_int s0 of
        None \<Rightarrow> None
      | Some (i, s1) \<Rightarrow>
        (case number_frac s1 of
           None \<Rightarrow> None
         | Some (f, s2) \<Rightarrow>
           (case number_exp s2 of None \<Rightarrow> None | Some (e, s3) \<Rightarrow> Some (sg @ i @ f @ e, s3))))"

lemma number_parts_shorter:
  "number_int s = Some (v, r) \<Longrightarrow> length r < length s"
  "number_frac s = Some (v, r) \<Longrightarrow> length r \<le> length s"
  "number_exp s = Some (v, r) \<Longrightarrow> length r \<le> length s"
proof -
  have d: "length (dropWhile is_digit s) \<le> length s" for s
    by (rule length_dropWhile_le)
  show "number_int s = Some (v, r) \<Longrightarrow> length r < length s"
    using d by (auto simp: number_int_def take_digits_def less_Suc_eq_le split: list.splits if_splits)
  show "number_frac s = Some (v, r) \<Longrightarrow> length r \<le> length s"
    using d [of "tl s"] by (auto simp: number_frac_def take_digits_def split: if_splits)
  show "number_exp s = Some (v, r) \<Longrightarrow> length r \<le> length s"
    using d by (auto simp: number_exp_def take_digits_def Let_def split: list.splits if_splits)
       (meson d le_SucI)+
qed

lemma parse_number_shorter: "parse_number s = Some (v, r) \<Longrightarrow> length r < length s"
  by (auto simp: parse_number_def split: if_splits option.splits
      dest!: number_parts_shorter elim!: HasPrefixE)

section \<open>Values\<close>

lemma skip_ws_le: "length (skip_ws s) \<le> length s"
  by (simp add: skip_ws_def length_dropWhile_le)

lemma skip_tl_less: "HasPrefix (skip_ws s) [c] \<Longrightarrow> length (skip_ws (tl (skip_ws s))) < length s"
  using skip_ws_le [of s] skip_ws_le [of "tl (skip_ws s)"] by (cases "skip_ws s") (auto simp: HasPrefix_def)

lemma tl_less: "HasPrefix s [c] \<Longrightarrow> length (skip_ws (tl s)) < length s"
  using skip_ws_le [of "tl s"] by (cases s) (auto simp: HasPrefix_def)

text \<open>
  The recursion is on a rest of the input that the call before has shortened; the test
  for this is always true (\<open>parse_shorter\<close>) and is gone from the equations derived below.
\<close>

function parse_value :: "nat \<Rightarrow> bytes \<Rightarrow> (json \<times> bytes) option"
  and parse_elements :: "nat \<Rightarrow> bytes \<Rightarrow> (json list \<times> bytes) option"
  and parse_members :: "nat \<Rightarrow> bytes \<Rightarrow> ((string \<times> json) list \<times> bytes) option" where
  "parse_value d s =
     (if HasPrefix s [CHR 0x22] then map_option (apfst JString) (parse_chars (tl s))
      else if HasPrefix s ''{'' then
        (let r = skip_ws (tl s) in
         if maxNestingDepth \<le> d then None
         else if HasPrefix r ''}'' then Some (JObject [], tl r)
         else map_option (apfst JObject) (parse_members (Suc d) r))
      else if HasPrefix s ''['' then
        (let r = skip_ws (tl s) in
         if maxNestingDepth \<le> d then None
         else if HasPrefix r '']'' then Some (JArray [], tl r)
         else map_option (apfst JArray) (parse_elements (Suc d) r))
      else if HasPrefix s ''true'' then Some (JBool True, drop 4 s)
      else if HasPrefix s ''false'' then Some (JBool False, drop 5 s)
      else if HasPrefix s ''null'' then Some (JNull, drop 4 s)
      else map_option (apfst JNumber) (parse_number s))"
| "parse_elements d s =
     (case parse_value d s of
        None \<Rightarrow> None
      | Some (v, t) \<Rightarrow>
        (let r = skip_ws t in
         if HasPrefix r '']'' then Some ([v], tl r)
         else if HasPrefix r '','' \<and> length t < length s
         then map_option (apfst (Cons v)) (parse_elements d (skip_ws (tl r)))
         else None))"
| "parse_members d s =
     (if HasPrefix s [CHR 0x22] then
        (case parse_chars (tl s) of
           None \<Rightarrow> None
         | Some (k, t) \<Rightarrow>
           (let r = skip_ws t in
            if HasPrefix r '':'' then
              (case parse_value d (skip_ws (tl r)) of
                 None \<Rightarrow> None
               | Some (v, u) \<Rightarrow>
                 (let q = skip_ws u in
                  if HasPrefix q ''}'' then Some ([(k, v)], tl q)
                  else if HasPrefix q '','' \<and> length u < length s
                  then map_option (apfst (Cons (k, v))) (parse_members d (skip_ws (tl q)))
                  else None))
            else None))
      else None)"
  by pat_completeness auto

termination
proof (relation "measure (case_sum (\<lambda>(d, s). 2 * length s)
    (case_sum (\<lambda>(d, s). 2 * length s + 1) (\<lambda>(d, s). 2 * length s + 1)))", goal_cases)
  case (6 d s x2 x y xa)
  have "length (tl s) \<le> length s" by simp
  moreover have "length y < length (tl s)" using 6 parse_chars_shorter by blast
  ultimately show ?case using 6 skip_tl_less [of y "CHR '':''"] by simp
qed (use tl_less skip_tl_less in \<open>fastforce+\<close>)

declare parse_value.simps [simp del] parse_elements.simps [simp del] parse_members.simps [simp del]

lemma HasPrefix_drop: "HasPrefix s p \<Longrightarrow> p \<noteq> [] \<Longrightarrow> length (drop (length p) s) < length s"
  by (auto elim!: HasPrefixE)

lemma parse_shorter:
  "parse_value d s = Some (v, r) \<Longrightarrow> length r < length s"
  "parse_elements d s = Some (vs, r) \<Longrightarrow> length r < length s"
  "parse_members d s = Some (kvs, r) \<Longrightarrow> length r < length s"
proof (induction d s and d s and d s arbitrary: v r and vs r and kvs r
    rule: parse_value_parse_elements_parse_members.induct)
  case (1 d s)
  have t: "HasPrefix s [c] \<Longrightarrow> length (tl s) < length s" for c
    by (cases s) (auto simp: HasPrefix_def)
  have t2: "length (tl (skip_ws (tl s))) \<le> length (tl s)"
    using skip_ws_le [of "tl s"] by simp
  show ?case
    using "1.prems" "1.IH" tl_less t t2 HasPrefix_drop [of s "''true''"] HasPrefix_drop [of s "''false''"]
      HasPrefix_drop [of s "''null''"]
    by (subst (asm) parse_value.simps)
       (auto simp: Let_def split: if_splits dest!: parse_chars_shorter parse_number_shorter, fastforce+)
next
  case (2 d s)
  from "2.prems" obtain v t where v: "parse_value d s = Some (v, t)"
    by (subst (asm) parse_elements.simps) (auto split: option.splits)
  then have t: "length t < length s" by (rule "2.IH"(1))
  have "length (tl (skip_ws t)) \<le> length t" using skip_ws_le [of t] by simp
  then show ?case
    using "2.prems" "2.IH"(2) [OF v refl refl] v t skip_tl_less [of t "CHR '',''"]
    by (subst (asm) parse_elements.simps) (fastforce simp: Let_def split: if_splits)
next
  case (3 d s)
  from "3.prems" obtain k t where q: "HasPrefix s [CHR 0x22]" and k: "parse_chars (tl s) = Some (k, t)"
    and c: "HasPrefix (skip_ws t) '':''"
    by (subst (asm) parse_members.simps) (auto simp: Let_def split: option.splits if_splits)
  from "3.prems" q k c obtain v u where v: "parse_value d (skip_ws (tl (skip_ws t))) = Some (v, u)"
    by (subst (asm) parse_members.simps) (auto simp: Let_def split: option.splits if_splits)
  have "length u < length (skip_ws (tl (skip_ws t)))" by (rule "3.IH"(1) [OF q k refl refl c v])
  moreover have "length (skip_ws (tl (skip_ws t))) < length t" by (rule skip_tl_less [OF c])
  moreover have "length t < length (tl s)" by (rule parse_chars_shorter [OF k])
  ultimately have u: "length u < length s" by simp
  have "length (tl (skip_ws u)) \<le> length u" using skip_ws_le [of u] by simp
  then show ?case
    using "3.prems" "3.IH"(2) [OF q k refl refl c v refl refl] q k c v u skip_tl_less [of u "CHR '',''"]
    by (subst (asm) parse_members.simps) (fastforce simp: Let_def split: if_splits)
qed

text \<open>The equations without the test.\<close>

lemma parse_elements_eq:
  "parse_elements d s =
     (case parse_value d s of
        None \<Rightarrow> None
      | Some (v, t) \<Rightarrow>
        (let r = skip_ws t in
         if HasPrefix r '']'' then Some ([v], tl r)
         else if HasPrefix r '','' then map_option (apfst (Cons v)) (parse_elements d (skip_ws (tl r)))
         else None))"
  by (subst parse_elements.simps) (auto simp: Let_def split: option.splits dest: parse_shorter)

lemma parse_members_eq:
  "parse_members d s =
     (if HasPrefix s [CHR 0x22] then
        (case parse_chars (tl s) of
           None \<Rightarrow> None
         | Some (k, t) \<Rightarrow>
           (let r = skip_ws t in
            if HasPrefix r '':'' then
              (case parse_value d (skip_ws (tl r)) of
                 None \<Rightarrow> None
               | Some (v, u) \<Rightarrow>
                 (let q = skip_ws u in
                  if HasPrefix q ''}'' then Some ([(k, v)], tl q)
                  else if HasPrefix q '','' then map_option (apfst (Cons (k, v))) (parse_members d (skip_ws (tl q)))
                  else None))
            else None))
      else None)"
proof -
  have "length u < length s"
    if "parse_chars (tl s) = Some (k, t)" "HasPrefix (skip_ws t) '':''"
      "parse_value d (skip_ws (tl (skip_ws t))) = Some (v, u)" for k t v u
    using parse_chars_shorter [OF that(1)] skip_tl_less [OF that(2)] parse_shorter(1) [OF that(3)] by simp
  then show ?thesis
    by (subst parse_members.simps) (auto simp: Let_def split: option.splits)
qed

text \<open>The text as a whole, as \<^verbatim>\<open>json.Unmarshal\<close> checks it first.\<close>

definition json_parse :: "bytes \<Rightarrow> json option" where
  "json_parse b =
     (case parse_value 0 (skip_ws b) of
        Some (v, r) \<Rightarrow> if skip_ws r = [] then Some v else None
      | None \<Rightarrow> None)"

section \<open>Decoding into an interface value\<close>

text \<open>
  \<^verbatim>\<open>strconv.ParseFloat\<close> fails only out of range: the decimal value is at least the least
  number that rounds to infinity. The exponent is read with a cap, as the package does.
\<close>

definition exp_val :: "bytes \<Rightarrow> int" where
  "exp_val e =
     (let ds = filter is_digit e;
          n = foldl (\<lambda>v c. if v < 10000 then v * 10 + (of_char c - 48) else v) (0 :: nat) ds
      in if CHR ''-'' \<in> set e then - int n else int n)"

definition float_overflow :: nat where "float_overflow = 2 ^ 1024 - 2 ^ 970"

definition number_ok :: "string \<Rightarrow> bool" where
  "number_ok s =
     (let s0 = (if HasPrefix s ''-'' then tl s else s);
          m = takeWhile (\<lambda>c. c \<noteq> CHR ''e'' \<and> c \<noteq> CHR ''E'') s0;
          e = drop (length m) s0;
          mant = digits_val (filter is_digit m);
          k = exp_val e - int (length (tl (dropWhile (\<lambda>c. c \<noteq> CHR ''.'') m)))
      in if k \<ge> 0 then mant * 10 ^ nat k < float_overflow else mant < float_overflow * 10 ^ nat (- k))"

fun numbers_ok :: "json \<Rightarrow> bool" where
  "numbers_ok (JNumber n) = number_ok n"
| "numbers_ok (JArray vs) = list_all numbers_ok vs"
| "numbers_ok (JObject kvs) = list_all (\<lambda>p. numbers_ok (snd p)) kvs"
| "numbers_ok _ = True"

text \<open>A Go map holds the last of several members with one key.\<close>

definition last_wins :: "(string \<times> 'a) list \<Rightarrow> (string \<times> 'a) list" where
  "last_wins kvs = foldl (\<lambda>m (k, v). AList.update k v m) [] kvs"

fun any_of :: "json \<Rightarrow> json" where
  "any_of (JArray vs) = JArray (map any_of vs)"
| "any_of (JObject kvs) = JObject (last_wins (map (\<lambda>p. (fst p, any_of (snd p))) kvs))"
| "any_of v = v"

lemma map_of_last_wins: "map_of (last_wins kvs) = map_of (rev kvs)"
proof (induction kvs rule: rev_induct)
  case (snoc p kvs)
  then show ?case by (cases p) (simp add: last_wins_def update_conv')
qed (simp add: last_wins_def)

section \<open>Encoding\<close>

text \<open>The string encoder of \<^verbatim>\<open>json.Marshal\<close>, with the escaping of HTML characters.\<close>

definition hex4_of :: "nat \<Rightarrow> bytes" where
  "hex4_of r = [hex_lower (r div 4096 mod 16), hex_lower (r div 256 mod 16), hex_lower (r div 16 mod 16),
     hex_lower (r mod 16)]"

definition quote_rune :: "nat \<Rightarrow> bytes" where
  "quote_rune r =
     (if r = 34 \<or> r = 92 then [CHR 0x5C, char_of r]
      else if r = 8 then [CHR 0x5C, CHR ''b'']
      else if r = 12 then [CHR 0x5C, CHR ''f'']
      else if r = 10 then [CHR 0x5C, CHR ''n'']
      else if r = 13 then [CHR 0x5C, CHR ''r'']
      else if r = 9 then [CHR 0x5C, CHR ''t'']
      else if r < 32 \<or> r = 60 \<or> r = 62 \<or> r = 38 \<or> r = 8232 \<or> r = 8233 then [CHR 0x5C, CHR ''u''] @ hex4_of r
      else EncodeRune r)"

function quote_chars :: "bytes \<Rightarrow> bytes" where
  "quote_chars s =
     (if s = [] then []
      else (let (r, w) = DecodeRune s in
            (if r = RuneError \<and> w = 1 then [CHR 0x5C, CHR ''u''] @ ''fffd'' else quote_rune r)
            @ quote_chars (drop w s)))"
  by pat_completeness auto
termination
proof (relation "measure length")
  fix s :: bytes and p r w
  assume "s \<noteq> []" "p = DecodeRune s" "(r, w) = p"
  then show "(drop w s, s) \<in> measure length"
    using DecodeRune_width [of s] by (metis (no_types, lifting) One_nat_def diff_less in_measure length_drop
      length_greater_0_conv less_eq_Suc_le snd_conv)
qed simp

declare quote_chars.simps [simp del]

definition quote :: "string \<Rightarrow> bytes" where
  "quote s = [CHR 0x22] @ quote_chars s @ [CHR 0x22]"

fun intersperse :: "bytes \<Rightarrow> bytes list \<Rightarrow> bytes" where
  "intersperse sep [] = []"
| "intersperse sep [x] = x"
| "intersperse sep (x # y # zs) = x @ sep @ intersperse sep (y # zs)"

text \<open>The compact encoding of a value; the members of an object in the order given.\<close>

fun json_print :: "json \<Rightarrow> bytes" where
  "json_print JNull = ''null''"
| "json_print (JBool b) = (if b then ''true'' else ''false'')"
| "json_print (JNumber n) = n"
| "json_print (JString s) = quote s"
| "json_print (JArray vs) = ''['' @ intersperse '','' (map json_print vs) @ '']''"
| "json_print (JObject kvs) =
     ''{'' @ intersperse '','' (map (\<lambda>p. quote (fst p) @ '':'' @ json_print (snd p)) kvs) @ ''}''"

end
