(* ===== verification/Go_Json_Laws.thy ===== *)
theory Go_Json_Laws
  imports Go_Json
begin

text \<open>
  The decoder of \<open>Go_Json\<close> reads back what its encoder writes: strings of any Unicode
  scalar values through escaping, numbers, arrays and objects of any shape within the
  nesting limit.
\<close>

section \<open>Reading what was written\<close>

definition utf8 :: "nat list \<Rightarrow> bytes" where
  "utf8 rs = concat (map EncodeRune rs)"

definition utf8_string :: "string \<Rightarrow> bool" where
  "utf8_string s \<longleftrightarrow> (\<exists>rs. list_all scalar rs \<and> s = utf8 rs)"

lemma hex4_of: "r < 65536 \<Longrightarrow> hex4 (hex4_of r @ t) = Some (r, t)"
proof -
  assume r: "r < 65536"
  define a b c d where "a = r div 4096 mod 16" and "b = r div 256 mod 16" and "c = r div 16 mod 16" and "d = r mod 16"
  have l: "a < 16" "b < 16" "c < 16" "d < 16" by (simp_all add: a_def b_def c_def d_def)
  have "r div 4096 < 16" using r by simp
  then have "((a * 16 + b) * 16 + c) * 16 + d = r"
    unfolding a_def b_def c_def d_def
    using div_mult_mod_eq [of r 16] div_mult_mod_eq [of "r div 16" 16] div_mult_mod_eq [of "r div 256" 16]
      div_mult2_eq [of r 16 16] div_mult2_eq [of r 256 16] by simp
  then show ?thesis by (simp add: hex4_of_def a_def [symmetric] b_def [symmetric] c_def [symmetric] d_def [symmetric] hex_value_lower l)
qed

lemma parse_escape_u: "r < 55296 \<Longrightarrow> parse_escape (CHR ''u'' # hex4_of r @ t) = Some (EncodeRune r, t)"
  using hex4_of [of r t] by (simp add: parse_escape_def)

lemma EncodeRune_first:
  assumes "scalar r"
  shows "(of_char (hd (EncodeRune r)) :: nat) = (if r < 128 then r else if r < 2048 then 192 + r div 64
     else if r < 65536 then 224 + r div 4096 else 240 + r div 262144)"
proof -
  have "r < 2048 \<Longrightarrow> r div 64 < 32" "r < 65536 \<Longrightarrow> r div 4096 < 16" "r div 262144 < 16"
    using assms by (auto simp: scalar_def)
  then show ?thesis using assms by (auto simp: EncodeRune_def Let_def scalar_def)
qed

lemma parse_chars_plain:
  assumes "scalar r" "32 \<le> r" "r \<noteq> 34" "r \<noteq> 92"
  shows "parse_chars (EncodeRune r @ t) = map_option (apfst (append (EncodeRune r))) (parse_chars t)"
proof -
  obtain c u where cu: "EncodeRune r = c # u" by (cases "EncodeRune r") auto
  then have "(of_char c :: nat) = (if r < 128 then r else if r < 2048 then 192 + r div 64
     else if r < 65536 then 224 + r div 4096 else 240 + r div 262144)"
    using EncodeRune_first [OF assms(1)] by simp
  with assms have "(of_char c :: nat) \<noteq> 34" "(of_char c :: nat) \<noteq> 92" "\<not> (of_char c :: nat) < 32"
    by (auto split: if_splits)
  then have "c \<noteq> CHR 0x22" "c \<noteq> CHR 0x5C" "\<not> (of_char c :: nat) < 32" by auto
  then show ?thesis
    using Decode_Encode [OF assms(1), of t] cu by (subst parse_chars.simps) simp
qed

lemma parse_chars_rune:
  assumes "scalar r"
  shows "parse_chars (quote_rune r @ t) = map_option (apfst (append (EncodeRune r))) (parse_chars t)"
proof -
  have esc: "parse_chars (CHR 0x5C # x) = (case parse_escape x of None \<Rightarrow> None
      | Some (y, u) \<Rightarrow> map_option (apfst (append y)) (parse_chars u))" for x
    by (subst parse_chars.simps) simp
  have ch: "char_of (34 :: nat) = CHR 0x22" "char_of (92 :: nat) = CHR 0x5C" "char_of (8 :: nat) = CHR 0x08"
    "char_of (12 :: nat) = CHR 0x0C" "char_of (10 :: nat) = CHR 0x0A" "char_of (13 :: nat) = CHR 0x0D"
    "char_of (9 :: nat) = CHR 0x09" by code_simp+
  consider "r = 34" | "r = 92" | "r = 8" | "r = 12" | "r = 10" | "r = 13" | "r = 9"
    | "r \<notin> {34, 92, 8, 12, 10, 13, 9}" "r < 32 \<or> r = 60 \<or> r = 62 \<or> r = 38 \<or> r = 8232 \<or> r = 8233"
    | "32 \<le> r" "r \<noteq> 34" "r \<noteq> 92" "r \<notin> {60, 62, 38, 8232, 8233}"
    by force
  then show ?thesis
  proof cases
    case 8
    then have "quote_rune r = CHR 0x5C # CHR ''u'' # hex4_of r" "r < 55296" by (auto simp: quote_rune_def)
    then show ?thesis by (simp add: esc parse_escape_u)
  next
    case 9
    then have "quote_rune r = EncodeRune r" by (simp add: quote_rune_def)
    then show ?thesis using parse_chars_plain [OF assms] 9 by simp
  qed (simp_all add: quote_rune_def esc parse_escape_def EncodeRune_def ch)
qed

lemma quote_chars_rune: "scalar r \<Longrightarrow> quote_chars (EncodeRune r @ s) = quote_rune r @ quote_chars s"
  using Decode_Encode [of r s]
  by (subst quote_chars.simps) (auto simp: Let_def EncodeRune_def RuneError_def)

lemma parse_quote_chars:
  assumes "list_all scalar rs"
  shows "parse_chars (quote_chars (utf8 rs) @ CHR 0x22 # t) = Some (utf8 rs, t)"
  using assms
proof (induction rs)
  case Nil
  show ?case by (simp add: utf8_def quote_chars.simps parse_chars.simps)
next
  case (Cons r rs)
  then show ?case by (simp add: utf8_def quote_chars_rune parse_chars_rune)
qed

lemma parse_quote: "utf8_string s \<Longrightarrow> parse_chars (quote_chars s @ CHR 0x22 # t) = Some (s, t)"
  by (auto simp: utf8_string_def parse_quote_chars)

subsection \<open>Numbers\<close>

definition number_stop :: "bytes \<Rightarrow> bool" where
  "number_stop t \<longleftrightarrow> (case t of [] \<Rightarrow> True
     | c # r \<Rightarrow> \<not> is_digit c \<and> c \<noteq> CHR ''.'' \<and> c \<noteq> CHR ''e'' \<and> c \<noteq> CHR ''E'')"

definition number_lit :: "string \<Rightarrow> bool" where
  "number_lit n \<longleftrightarrow> parse_number n = Some (n, [])"

lemma take_digits_append:
  assumes "take_digits s = (ds, r)" "r \<noteq> [] \<or> number_stop t"
  shows "take_digits (s @ t) = (ds, r @ t)"
proof (cases "\<forall>c \<in> set s. is_digit c")
  case True
  then have "takeWhile is_digit s = s" "dropWhile is_digit s = []" by simp_all
  with assms have "s = ds" "r = []" "number_stop t" by (auto simp: take_digits_def)
  with True show ?thesis by (cases t) (auto simp: take_digits_def number_stop_def takeWhile_append dropWhile_append)
next
  case False
  then have "takeWhile is_digit (s @ t) = takeWhile is_digit s" "dropWhile is_digit (s @ t) = dropWhile is_digit s @ t"
    by (auto simp: takeWhile_append dropWhile_append)
  with assms(1) show ?thesis by (simp add: take_digits_def)
qed

lemma number_int_append:
  "number_int s = Some (v, r) \<Longrightarrow> r \<noteq> [] \<or> number_stop t \<Longrightarrow> number_int (s @ t) = Some (v, r @ t)"
  using take_digits_append [of s v r t] by (auto simp: number_int_def split: list.splits if_splits)

lemma number_frac_append:
  assumes "number_frac s = Some (v, r)" "r \<noteq> [] \<or> number_stop t"
  shows "number_frac (s @ t) = Some (v, r @ t)"
proof (cases s)
  case Nil
  then show ?thesis using assms by (cases t) (auto simp: number_frac_def number_stop_def HasPrefix_def)
next
  case (Cons c u)
  then show ?thesis
    using assms take_digits_append [of u "tl v" r t]
    by (auto simp: number_frac_def HasPrefix_def split: if_splits prod.splits)
qed

lemma number_exp_append:
  assumes "number_exp s = Some (v, r)" "r \<noteq> [] \<or> number_stop t"
  shows "number_exp (s @ t) = Some (v, r @ t)"
proof (cases s)
  case Nil
  then show ?thesis using assms by (cases t) (auto simp: number_exp_def number_stop_def)
next
  case (Cons c u)
  show ?thesis
  proof (cases u)
    case Nil
    then show ?thesis using assms Cons by (auto simp: number_exp_def take_digits_def split: if_splits)
  next
    case (Cons d w)
    then show ?thesis
      using assms \<open>s = c # u\<close> take_digits_append [of w "drop 2 v" r t] take_digits_append [of u "drop 1 v" r t]
      by (auto simp: number_exp_def Let_def split: if_splits prod.splits)
  qed
qed

lemma parse_number_append:
  assumes "parse_number s = Some (v, r)" "r \<noteq> [] \<or> number_stop t"
  shows "parse_number (s @ t) = Some (v, r @ t)"
proof -
  define sg s0 where "sg = (if HasPrefix s ''-'' then ''-'' else [])" and "s0 = (if HasPrefix s ''-'' then tl s else s)"
  obtain i s1 f s2 e where p: "number_int s0 = Some (i, s1)" "number_frac s1 = Some (f, s2)"
    "number_exp s2 = Some (e, r)" and v: "v = sg @ i @ f @ e"
    using assms(1) by (auto simp: parse_number_def sg_def s0_def split: if_splits option.splits)
  have e: "number_exp (s2 @ t) = Some (e, r @ t)" by (rule number_exp_append [OF p(3) assms(2)])
  have "s2 \<noteq> [] \<or> number_stop t" using p(3) assms(2) by (cases s2) (auto simp: number_exp_def)
  then have f: "number_frac (s1 @ t) = Some (f, s2 @ t)" by (rule number_frac_append [OF p(2)])
  have "s1 \<noteq> [] \<or> number_stop t" using p(2) \<open>s2 \<noteq> [] \<or> number_stop t\<close>
    by (cases s1) (auto simp: number_frac_def HasPrefix_def)
  then have i: "number_int (s0 @ t) = Some (i, s1 @ t)" by (rule number_int_append [OF p(1)])
  have ne: "s \<noteq> []" using assms(1) by (auto simp: parse_number_def HasPrefix_def number_int_def)
  then have "HasPrefix (s @ t) ''-'' = HasPrefix s ''-''" by (cases s) (auto simp: HasPrefix_def)
  moreover have "tl (s @ t) = tl s @ t" using ne by simp
  ultimately show ?thesis using e f i v by (simp add: parse_number_def sg_def s0_def split: if_splits)
qed

lemma number_lit_append: "number_lit n \<Longrightarrow> number_stop t \<Longrightarrow> parse_number (n @ t) = Some (n, t)"
  using parse_number_append [of n n "[]" t] by (simp add: number_lit_def)

lemma number_lit_head:
  assumes "number_lit n"
  obtains c r where "n = c # r" "c = CHR ''-'' \<or> is_digit c"
  using assms by (cases n)
    (auto simp: number_lit_def parse_number_def number_int_def HasPrefix_def is_digit_def split: if_splits list.splits)

subsection \<open>Values\<close>

text \<open>A value at nesting depth \<open>d\<close> that the encoder writes and the decoder accepts.\<close>

fun json_wf :: "nat \<Rightarrow> json \<Rightarrow> bool" where
  "json_wf d (JNumber n) = number_lit n"
| "json_wf d (JString s) = utf8_string s"
| "json_wf d (JArray vs) = (d < maxNestingDepth \<and> list_all (json_wf (Suc d)) vs)"
| "json_wf d (JObject kvs) = (d < maxNestingDepth \<and> list_all (\<lambda>p. utf8_string (fst p) \<and> json_wf (Suc d) (snd p)) kvs)"
| "json_wf d _ = True"

lemma skip_ws_Cons: "\<not> is_ws c \<Longrightarrow> skip_ws (c # s) = c # s"
  by (simp add: skip_ws_def)

lemma digit_ne: "is_digit c \<Longrightarrow> c \<notin> {CHR 0x22, CHR ''{'', CHR ''['', CHR ''t'', CHR ''f'', CHR ''n'', CHR '' '',
    CHR 0x09, CHR 0x0D, CHR 0x0A, CHR '']'', CHR ''}''}"
  by (auto simp: is_digit_def)

lemma json_print_head:
  assumes "json_wf d v"
  obtains c r where "json_print v = c # r" "\<not> is_ws c" "c \<noteq> CHR '']''" "c \<noteq> CHR ''}''"
proof (cases v)
  case (JNumber n)
  with assms have "number_lit n" by simp
  then obtain c r where n: "n = c # r" "c = CHR ''-'' \<or> is_digit c" by (rule number_lit_head)
  then have "\<not> is_ws c \<and> c \<noteq> CHR '']'' \<and> c \<noteq> CHR ''}''"
    using digit_ne [of c] by (elim disjE) (simp_all add: is_ws_def)
  then show thesis using that [of c r] JNumber n by simp
next
  case (JBool b)
  then show thesis using that by (cases b) (simp_all add: is_ws_def)
qed (use that in \<open>auto simp: is_ws_def quote_def\<close>)

definition reads :: "nat \<Rightarrow> json \<Rightarrow> bool" where
  "reads d v \<longleftrightarrow> (\<forall>t. number_stop t \<longrightarrow> parse_value d (json_print v @ t) = Some (v, t))
     \<and> (\<forall>t. skip_ws (json_print v @ t) = json_print v @ t \<and> \<not> HasPrefix (json_print v @ t) '']'')"

lemma stop_punct [simp]: "number_stop (CHR '','' # t)" "number_stop (CHR '']'' # t)" "number_stop (CHR ''}'' # t)"
  "number_stop []"
  by (simp_all add: number_stop_def is_digit_def)

lemma ws_punct [simp]: "skip_ws (CHR '','' # t) = CHR '','' # t" "skip_ws (CHR '']'' # t) = CHR '']'' # t"
  "skip_ws (CHR ''}'' # t) = CHR ''}'' # t" "skip_ws (CHR '':'' # t) = CHR '':'' # t"
  "skip_ws (CHR 0x22 # t) = CHR 0x22 # t" "skip_ws [] = []"
  by (simp_all add: skip_ws_def is_ws_def)

lemma elements_read:
  assumes "vs \<noteq> []" "\<forall>v \<in> set vs. reads d v"
  shows "parse_elements d (intersperse '','' (map json_print vs) @ CHR '']'' # t) = Some (vs, t)"
  using assms
proof (induction vs rule: induct_list012)
  case (2 v)
  then show ?case by (subst parse_elements_eq) (simp add: reads_def HasPrefix_def)
next
  case (3 v w vs)
  let ?r = "intersperse '','' (map json_print (w # vs)) @ CHR '']'' # t"
  have "skip_ws ?r = ?r" using 3(4) by (cases vs) (auto simp: reads_def)
  moreover have "parse_value d (json_print v @ CHR '','' # ?r) = Some (v, CHR '','' # ?r)"
    using 3(4) by (simp add: reads_def)
  ultimately show ?case
    using 3 by (subst parse_elements_eq) (simp add: HasPrefix_def)
qed simp

lemma members_read:
  assumes "kvs \<noteq> []" "\<forall>p \<in> set kvs. utf8_string (fst p) \<and> reads d (snd p)"
  shows "parse_members d (intersperse '','' (map (\<lambda>p. quote (fst p) @ '':'' @ json_print (snd p)) kvs) @ CHR ''}'' # t)
     = Some (kvs, t)"
  using assms
proof (induction kvs rule: induct_list012)
  case (2 p)
  then show ?case
    by (subst parse_members_eq) (simp add: reads_def HasPrefix_def quote_def parse_quote)
next
  case (3 p q kvs)
  let ?r = "intersperse '','' (map (\<lambda>p. quote (fst p) @ '':'' @ json_print (snd p)) (q # kvs)) @ CHR ''}'' # t"
  have ws: "skip_ws ?r = ?r" by (cases kvs) (simp_all add: quote_def)
  have p: "parse_value d (json_print (snd p) @ CHR '','' # ?r) = Some (snd p, CHR '','' # ?r)"
    "skip_ws (json_print (snd p) @ CHR '','' # ?r) = json_print (snd p) @ CHR '','' # ?r" "utf8_string (fst p)"
    using 3(4) by (simp_all add: reads_def)
  have "parse_members d ?r = Some (q # kvs, t)" using 3 by simp
  then show ?case
    using ws p by (subst parse_members_eq) (simp add: HasPrefix_def quote_def parse_quote)
qed simp

lemma readsI:
  assumes "json_wf d v" "\<And>t. number_stop t \<Longrightarrow> parse_value d (json_print v @ t) = Some (v, t)"
  shows "reads d v"
proof -
  obtain c r where "json_print v = c # r" "\<not> is_ws c" "c \<noteq> CHR '']''" by (rule json_print_head [OF assms(1)])
  with assms(2) show ?thesis by (simp add: reads_def skip_ws_Cons HasPrefix_def)
qed

lemma json_reads: "json_wf d v \<Longrightarrow> reads d v"
proof (induction d v rule: json_wf.induct)
  case (1 d n)
  then obtain c r where n: "n = c # r" "c = CHR ''-'' \<or> is_digit c" by (auto elim: number_lit_head)
  then have "c \<notin> {CHR 0x22, CHR ''{'', CHR ''['', CHR ''t'', CHR ''f'', CHR ''n''}"
    using digit_ne [of c] by (elim disjE) simp_all
  then show ?case
    using 1 n(1) number_lit_append [of n] by (intro readsI) (auto simp: parse_value.simps HasPrefix_def)
next
  case (2 d s)
  then show ?case by (intro readsI) (simp_all add: parse_value.simps quote_def HasPrefix_def parse_quote)
next
  case (3 d vs)
  then have d: "\<not> maxNestingDepth \<le> d" and all: "\<forall>v \<in> set vs. reads (Suc d) v" by (simp_all add: list_all_iff)
  show ?case
  proof (rule readsI [OF 3(2)])
    fix t
    show "parse_value d (json_print (JArray vs) @ t) = Some (JArray vs, t)"
    proof (cases "vs = []")
      case False
      let ?r = "intersperse '','' (map json_print vs) @ CHR '']'' # t"
      obtain w ws where "vs = w # ws" using False by (cases vs) auto
      with all have "skip_ws ?r = ?r" "\<not> HasPrefix ?r '']''" by (cases ws; simp add: reads_def)+
      then show ?thesis
        using d elements_read [OF False all, of t] by (simp add: parse_value.simps HasPrefix_def)
    qed (use d in \<open>simp add: parse_value.simps HasPrefix_def\<close>)
  qed
next
  case (4 d kvs)
  then have d: "\<not> maxNestingDepth \<le> d" and all: "\<forall>p \<in> set kvs. utf8_string (fst p) \<and> reads (Suc d) (snd p)"
    by (simp_all add: list_all_iff)
  show ?case
  proof (rule readsI [OF 4(2)])
    fix t
    show "parse_value d (json_print (JObject kvs) @ t) = Some (JObject kvs, t)"
    proof (cases "kvs = []")
      case False
      let ?r = "intersperse '','' (map (\<lambda>p. quote (fst p) @ '':'' @ json_print (snd p)) kvs) @ CHR ''}'' # t"
      obtain q qs where "kvs = q # qs" using False by (cases kvs) auto
      then have "skip_ws ?r = ?r" "\<not> HasPrefix ?r ''}''" by (cases qs; simp add: quote_def HasPrefix_def)+
      then show ?thesis
        using d members_read [OF False all, of t] by (simp add: parse_value.simps HasPrefix_def)
    qed (use d in \<open>simp add: parse_value.simps HasPrefix_def\<close>)
  qed
qed (rule readsI; simp add: parse_value.simps HasPrefix_def)+

lemma json_parse_print:
  assumes "json_wf 0 v"
  shows "json_parse (json_print v) = Some v"
proof -
  from json_reads [OF assms] have r: "number_stop t \<Longrightarrow> parse_value 0 (json_print v @ t) = Some (v, t)"
    "skip_ws (json_print v @ t) = json_print v @ t" for t
    by (simp_all add: reads_def)
  from r(1) [of "[]"] r(2) [of "[]"] show ?thesis by (simp add: json_parse_def)
qed

section \<open>Decoded values\<close>

text \<open>
  Every string the decoder returns is valid UTF-8, whatever the bytes: what is not is
  replaced. A decoded interface value is a Go value: keys of a map are distinct, numbers
  are in range.
\<close>

lemma utf8_append: "utf8_string s \<Longrightarrow> utf8_string t \<Longrightarrow> utf8_string (s @ t)"
  unfolding utf8_string_def utf8_def by (metis concat_append list_all_append map_append)

lemma utf8_rune: "scalar r \<Longrightarrow> utf8_string (EncodeRune r)"
  unfolding utf8_string_def utf8_def by (intro exI [of _ "[r]"]) simp

lemma utf8_Nil [simp]: "utf8_string []"
  unfolding utf8_string_def utf8_def by (intro exI [of _ "[]"]) simp

lemma utf8_ascii: "is_ascii s \<Longrightarrow> utf8_string s"
proof (induction s)
  case (Cons c s)
  then have "scalar (of_char c)" "EncodeRune (of_char c) = [c]"
    by (auto simp: is_ascii_def scalar_def EncodeRune_def)
  then have "utf8_string [c]" using utf8_rune [of "of_char c"] by simp
  moreover have "utf8_string s" using Cons by (simp add: is_ascii_def)
  ultimately show ?case using utf8_append [of "[c]" s] by simp
qed simp

lemma utf16_scalar: "utf16_decode r1 r2 = Some x \<Longrightarrow> scalar x"
  by (auto simp: utf16_decode_def scalar_def split: if_splits)

lemma hex4_bound: "hex4 s = Some (v, r) \<Longrightarrow> v < 65536"
proof (induction s rule: hex4.induct)
  case (1 a b c d r')
  have h: "hex_value x = Some n \<Longrightarrow> n < 16" for x n
    by (auto simp: hex_value_def Let_def split: if_splits)
  show ?case using 1 by (auto split: option.splits dest!: h)
qed simp_all

lemma parse_escape_utf8: "parse_escape s = Some (v, r) \<Longrightarrow> utf8_string v"
proof -
  have e: "scalar RuneError" by (simp add: scalar_def RuneError_def)
  have h: "hex4 t = Some (v, r) \<Longrightarrow> \<not> 55296 \<le> v \<Longrightarrow> scalar v" "hex4 t = Some (v, r) \<Longrightarrow> \<not> v < 57344 \<Longrightarrow> scalar v"
    for t v r by (auto simp: scalar_def dest: hex4_bound)
  have a: "utf8_string [c]" if "(of_char c :: nat) < 128" for c using utf8_ascii [of "[c]"] that by (simp add: is_ascii_def)
  show "parse_escape s = Some (v, r) \<Longrightarrow> utf8_string v"
    unfolding parse_escape_def
    by (auto split: list.splits if_splits option.splits intro!: utf8_rune e a)
       (erule (1) h | erule utf16_scalar)+
qed

lemma parse_chars_utf8: "parse_chars s = Some (v, r) \<Longrightarrow> utf8_string v"
proof (induction s arbitrary: v r rule: parse_chars.induct)
  case (1 s)
  show ?case
  proof (cases s)
    case Nil
    with "1.prems" show ?thesis by (simp add: parse_chars.simps)
  next
    case (Cons c u)
    show ?thesis
      using "1.prems" "1.IH" [OF Cons] utf8_rune [OF DecodeRune_scalar, of s]
      by (subst (asm) parse_chars.simps)
         (auto simp: Cons split: if_splits option.splits intro!: utf8_append dest!: parse_escape_utf8)
  qed
qed

fun strings_ok :: "json \<Rightarrow> bool" where
  "strings_ok (JString s) = utf8_string s"
| "strings_ok (JArray vs) = list_all strings_ok vs"
| "strings_ok (JObject kvs) = list_all (\<lambda>p. utf8_string (fst p) \<and> strings_ok (snd p)) kvs"
| "strings_ok _ = True"

lemma parse_strings_ok:
  "parse_value d s = Some (v, r) \<Longrightarrow> strings_ok v"
  "parse_elements d s = Some (vs, r) \<Longrightarrow> list_all strings_ok vs"
  "parse_members d s = Some (kvs, r) \<Longrightarrow> list_all (\<lambda>p. utf8_string (fst p) \<and> strings_ok (snd p)) kvs"
proof (induction d s and d s and d s arbitrary: v r and vs r and kvs r
    rule: parse_value_parse_elements_parse_members.induct)
  case (1 d s)
  from "1.prems" show ?case
    by (subst (asm) parse_value.simps)
       (auto simp: Let_def split: if_splits dest: parse_chars_utf8 "1.IH")
next
  case (2 d s)
  from "2.prems" obtain v t where v: "parse_value d s = Some (v, t)"
    by (subst (asm) parse_elements.simps) (auto split: option.splits)
  then show ?case
    using "2.prems" "2.IH"(1) [OF v] "2.IH"(2) [OF v refl refl]
    by (subst (asm) parse_elements.simps) (fastforce simp: Let_def split: if_splits)
next
  case (3 d s)
  from "3.prems" obtain k t where q: "HasPrefix s [CHR 0x22]" and k: "parse_chars (tl s) = Some (k, t)"
    and c: "HasPrefix (skip_ws t) '':''"
    by (subst (asm) parse_members.simps) (auto simp: Let_def split: option.splits if_splits)
  from "3.prems" q k c obtain v u where v: "parse_value d (skip_ws (tl (skip_ws t))) = Some (v, u)"
    by (subst (asm) parse_members.simps) (auto simp: Let_def split: option.splits if_splits)
  show ?case
    using "3.prems" "3.IH"(1) [OF q k refl refl c v] "3.IH"(2) [OF q k refl refl c v refl refl] q k c v
      parse_chars_utf8 [OF k]
    by (subst (asm) parse_members.simps) (fastforce simp: Let_def split: if_splits)
qed

fun go_value :: "json \<Rightarrow> bool" where
  "go_value (JString s) = utf8_string s"
| "go_value (JNumber n) = number_ok n"
| "go_value (JArray vs) = list_all go_value vs"
| "go_value (JObject kvs) = (distinct (map fst kvs) \<and> list_all (\<lambda>p. utf8_string (fst p) \<and> go_value (snd p)) kvs)"
| "go_value _ = True"

lemma distinct_last_wins: "distinct (map fst (last_wins kvs))"
proof (induction kvs rule: rev_induct)
  case (snoc p kvs)
  then show ?case by (cases p) (simp add: last_wins_def distinct_update)
qed (simp add: last_wins_def)

lemma set_last_wins: "set (last_wins kvs) \<subseteq> set kvs"
proof (induction kvs rule: rev_induct)
  case (snoc p kvs)
  obtain k v where p: "p = (k, v)" by (cases p)
  have "set (AList.update k v (last_wins kvs)) \<subseteq> insert (k, v) (set (last_wins kvs))"
    using distinct_last_wins [of kvs] by (auto simp: set_update_distinct)
  then show ?case using snoc by (auto simp: last_wins_def p)
qed (simp add: last_wins_def)

lemma go_value_any: "strings_ok v \<Longrightarrow> numbers_ok v \<Longrightarrow> go_value (any_of v)"
proof (induction v rule: any_of.induct)
  case (2 kvs)
  let ?kvs = "map (\<lambda>p. (fst p, any_of (snd p))) kvs"
  have "list_all (\<lambda>p. utf8_string (fst p) \<and> go_value (snd p)) ?kvs"
    using 2 by (auto simp: list_all_iff)
  then have "list_all (\<lambda>p. utf8_string (fst p) \<and> go_value (snd p)) (last_wins ?kvs)"
    using set_last_wins [of ?kvs] unfolding list_all_iff by blast
  then show ?case by (simp add: distinct_last_wins)
qed (auto simp: list_all_iff)

lemma json_parse_strings: "json_parse b = Some v \<Longrightarrow> strings_ok v"
  by (auto simp: json_parse_def split: option.splits if_splits dest: parse_strings_ok)

text \<open>Integers of ordinary size are literals in range.\<close>

lemma number_ok_digits:
  assumes "list_all is_digit s" "digits_val s < 2 ^ 64"
  shows "number_ok s"
proof -
  have d: "\<forall>c \<in> set s. is_digit c" using assms(1) by (simp add: list_all_iff)
  have ne: "c \<noteq> CHR ''e'' \<and> c \<noteq> CHR ''E'' \<and> c \<noteq> CHR ''.'' \<and> c \<noteq> CHR ''-''" if "is_digit c" for c
    using that by (auto simp: is_digit_def)
  have 1: "HasPrefix s ''-'' = False" using d ne by (cases s) (auto simp: HasPrefix_def)
  have 2: "takeWhile (\<lambda>c. c \<noteq> CHR ''e'' \<and> c \<noteq> CHR ''E'') s = s" using d ne by simp
  have 3: "dropWhile (\<lambda>c. c \<noteq> CHR ''.'') s = []" using d ne by simp
  have 4: "filter is_digit s = s" using d by simp
  have "(2 :: nat) ^ 64 \<le> float_overflow" by (simp add: float_overflow_def)
  then have "digits_val s < float_overflow" using assms(2) by linarith
  then show ?thesis by (simp only: number_ok_def exp_val_def Let_def 1 2 3 4 if_False) simp
qed

lemma number_lit_digits:
  assumes "list_all is_digit (c # s)" "c \<noteq> CHR ''0''"
  shows "number_lit (c # s)"
proof -
  have d: "is_digit c" "\<forall>c \<in> set s. is_digit c" using assms(1) by (simp_all add: list_all_iff)
  have "c \<noteq> CHR ''-''" using d(1) by (auto simp: is_digit_def)
  moreover have "number_int (c # s) = Some (c # s, [])"
    using d assms(2) by (simp add: number_int_def take_digits_def)
  ultimately show ?thesis
    by (simp add: number_lit_def parse_number_def HasPrefix_def number_frac_def number_exp_def)
qed

end
