(* ===== verification/Go_Base64.thy ===== *)
theory Go_Base64
  imports Prelude
begin

text \<open>
  \<^verbatim>\<open>base64.RawURLEncoding\<close>: the alphabet for URLs, no padding. The decoder skips line
  breaks, refuses every other character outside the alphabet and a last group of one
  character, and does not look at the unused bits of the last character.
\<close>

definition b64_char :: "nat \<Rightarrow> char" where
  "b64_char n = (if n < 26 then char_of (65 + n) else if n < 52 then char_of (71 + n)
     else if n < 62 then char_of (n - 4) else if n = 62 then CHR ''-'' else CHR ''_'')"

definition b64_value :: "char \<Rightarrow> nat option" where
  "b64_value c = (let n = (of_char c :: nat) in
     if 65 \<le> n \<and> n \<le> 90 then Some (n - 65)
     else if 97 \<le> n \<and> n \<le> 122 then Some (n - 71)
     else if 48 \<le> n \<and> n \<le> 57 then Some (n + 4)
     else if c = CHR ''-'' then Some 62 else if c = CHR ''_'' then Some 63 else None)"

fun b64_encode :: "bytes \<Rightarrow> string" where
  "b64_encode [] = []"
| "b64_encode [a] =
     (let n = of_char a * 16 in [b64_char (n div 64), b64_char (n mod 64)])"
| "b64_encode [a, b] =
     (let n = (of_char a * 256 + of_char b) * 4 in
      [b64_char (n div 4096), b64_char (n div 64 mod 64), b64_char (n mod 64)])"
| "b64_encode (a # b # c # r) =
     (let n = (of_char a * 256 + of_char b) * 256 + of_char c in
      [b64_char (n div 262144), b64_char (n div 4096 mod 64), b64_char (n div 64 mod 64), b64_char (n mod 64)]
      @ b64_encode r)"

text \<open>The groups of six-bit values; the rest of a last group is shifted out.\<close>

fun b64_groups :: "nat list \<Rightarrow> bytes option" where
  "b64_groups [] = Some []"
| "b64_groups [a] = None"
| "b64_groups [a, b] = Some [char_of ((a * 64 + b) div 16)]"
| "b64_groups [a, b, c] = (let n = ((a * 64 + b) * 64 + c) div 4 in Some [char_of (n div 256), char_of (n mod 256)])"
| "b64_groups (a # b # c # d # r) =
     (let n = ((a * 64 + b) * 64 + c) * 64 + d in
      map_option (append [char_of (n div 65536), char_of (n div 256 mod 256), char_of (n mod 256)]) (b64_groups r))"

definition b64_decode :: "string \<Rightarrow> bytes option" where
  "b64_decode s =
     (let vs = map b64_value (filter (\<lambda>c. c \<noteq> CHR 0x0D \<and> c \<noteq> CHR 0x0A) s) in
      if None \<in> set vs then None else b64_groups (map the vs))"

lemma b64_value_char:
  assumes "n < 64"
  shows "b64_value (b64_char n) = Some n"
proof -
  consider "n < 26" | "26 \<le> n" "n < 52" | "52 \<le> n" "n < 62" | "n = 62" | "n = 63" using assms by linarith
  then show ?thesis by cases (auto simp: b64_char_def b64_value_def Let_def)
qed

definition b64_alphabet :: "char \<Rightarrow> bool" where
  "b64_alphabet c \<longleftrightarrow> b64_value c \<noteq> None"

lemma b64_char_alphabet: "n < 64 \<Longrightarrow> b64_alphabet (b64_char n)"
  by (simp add: b64_alphabet_def b64_value_char)

lemma b64_alphabet_ne: "b64_alphabet c \<Longrightarrow> c \<notin> {CHR 0x0D, CHR 0x0A, CHR ''.'', CHR '' ''}"
  by (auto simp: b64_alphabet_def b64_value_def)

lemma of_char_lt: "(of_char (c :: char) :: nat) < 256"
  by simp

lemma digits64:
  "n div 64 * 64 + n mod 64 = (n :: nat)"
  "(n div 4096 * 64 + n div 64 mod 64) * 64 + n mod 64 = n"
  "((n div 262144 * 64 + n div 4096 mod 64) * 64 + n div 64 mod 64) * 64 + n mod 64 = n"
proof -
  have q: "n div 4096 * 64 + n div 64 mod 64 = n div 64" "n div 262144 * 64 + n div 4096 mod 64 = n div 4096"
    using div_mult_mod_eq [of "n div 64" 64] div_mult2_eq [of n 64 64]
      div_mult_mod_eq [of "n div 4096" 64] div_mult2_eq [of n 4096 64] by simp_all
  show "n div 64 * 64 + n mod 64 = n" by simp
  show "(n div 4096 * 64 + n div 64 mod 64) * 64 + n mod 64 = n" by (simp add: q(1))
  show "((n div 262144 * 64 + n div 4096 mod 64) * 64 + n div 64 mod 64) * 64 + n mod 64 = n"
    by (simp add: q)
qed

lemma char_of_low: "char_of (x * 256 + y) = (char_of y :: char)" for x y :: nat
  by (metis char_of_mod_256 mod_mult_self3)

lemma b64_encode_values:
  "\<exists>vs. list_all (\<lambda>v. v < 64) vs \<and> b64_encode b = map b64_char vs \<and> b64_groups vs = Some b"
proof (induction b rule: b64_encode.induct)
  case (2 a)
  define x :: nat where "x = of_char a"
  define n where "n = x * 16"
  have "b64_groups [n div 64, n mod 64] = Some [a]"
    unfolding b64_groups.simps digits64 by (simp add: n_def x_def)
  moreover have "b64_encode [a] = map b64_char [n div 64, n mod 64]"
    by (simp only: b64_encode.simps Let_def x_def [symmetric] n_def list.map)
  moreover have "list_all (\<lambda>v. v < 64) [n div 64, n mod 64]" using of_char_lt [of a, folded x_def] by (simp add: n_def)
  ultimately show ?case by blast
next
  case (3 a b)
  define x y :: nat where "x = of_char a" and "y = of_char b"
  define n where "n = (x * 256 + y) * 4"
  have "n div 4 = x * 256 + y" "y < 256" by (simp_all add: n_def y_def)
  then have "b64_groups [n div 4096, n div 64 mod 64, n mod 64] = Some [a, b]"
    unfolding b64_groups.simps digits64 by (simp add: Let_def char_of_low) (simp add: x_def y_def)
  moreover have "b64_encode [a, b] = map b64_char [n div 4096, n div 64 mod 64, n mod 64]"
    by (simp only: b64_encode.simps Let_def x_def [symmetric] y_def [symmetric] n_def list.map)
  moreover have "list_all (\<lambda>v. v < 64) [n div 4096, n div 64 mod 64, n mod 64]"
    using of_char_lt [of a, folded x_def] of_char_lt [of b, folded y_def] by (simp add: n_def)
  ultimately show ?case by blast
next
  case (4 a b c r)
  then obtain vs where vs: "list_all (\<lambda>v. v < 64) vs" "b64_encode r = map b64_char vs" "b64_groups vs = Some r" by blast
  define x y z :: nat where "x = of_char a" and "y = of_char b" and "z = of_char c"
  define n where "n = (x * 256 + y) * 256 + z"
  have "char_of n = (char_of z :: char)" unfolding n_def by (rule char_of_low)
  then have "char_of n = c" by (simp add: z_def)
  moreover have "n div 65536 = x" "n div 256 = x * 256 + y"
    using of_char_lt [of b, folded y_def] of_char_lt [of c, folded z_def] by (simp_all add: n_def)
  ultimately have "b64_groups (n div 262144 # n div 4096 mod 64 # n div 64 mod 64 # n mod 64 # vs) = Some (a # b # c # r)"
    unfolding b64_groups.simps digits64 by (simp add: Let_def char_of_low vs(3)) (simp add: x_def y_def)
  moreover have "b64_encode (a # b # c # r)
      = map b64_char (n div 262144 # n div 4096 mod 64 # n div 64 mod 64 # n mod 64 # vs)"
    by (simp only: b64_encode.simps Let_def x_def [symmetric] y_def [symmetric] z_def [symmetric] n_def list.map
        vs(2) append.simps)
  moreover have "list_all (\<lambda>v. v < 64) (n div 262144 # n div 4096 mod 64 # n div 64 mod 64 # n mod 64 # vs)"
    using vs(1) of_char_lt [of a, folded x_def] of_char_lt [of b, folded y_def] of_char_lt [of c, folded z_def]
    by (simp add: n_def)
  ultimately show ?case by blast
qed simp

lemma b64_encode_alphabet: "c \<in> set (b64_encode b) \<Longrightarrow> b64_alphabet c"
proof -
  obtain vs where "list_all (\<lambda>v. v < 64) vs" "b64_encode b = map b64_char vs" using b64_encode_values by blast
  then show "c \<in> set (b64_encode b) \<Longrightarrow> b64_alphabet c" by (auto simp: list_all_iff b64_char_alphabet)
qed

lemma b64_decode_encode: "b64_decode (b64_encode b) = Some b"
proof -
  obtain vs where vs: "list_all (\<lambda>v. v < 64) vs" "b64_encode b = map b64_char vs" "b64_groups vs = Some b"
    using b64_encode_values by blast
  have "filter (\<lambda>c. c \<noteq> CHR 0x0D \<and> c \<noteq> CHR 0x0A) (b64_encode b) = b64_encode b"
    using b64_alphabet_ne [OF b64_encode_alphabet] by (auto simp: filter_id_conv)
  moreover have "map b64_value (b64_encode b) = map Some vs"
    using vs(1) by (auto simp: vs(2) list_all_iff b64_value_char)
  ultimately show ?thesis by (simp add: b64_decode_def vs(3) comp_def image_iff)
qed

end
