(* ===== verification/Identities.thy ===== *)
theory Identities
  imports Extract_Http Go_Json_Laws Go_Base64
begin

text \<open>
  The identity extractors: JWT claims (\<^verbatim>\<open>internal/extract/jwt.go\<close>), MCP tool calls
  (\<^verbatim>\<open>internal/extract/mcp.go\<close>) and \<^verbatim>\<open>ExtractIdentitiesFromTLS\<close> of \<^verbatim>\<open>tls_event.go\<close>, which runs
  all of them. Of an error text only the leading part is kept.
\<close>

section \<open>JWT\<close>

record JWTIdentity =
  jw_Subject :: string
  jw_Issuer :: string
  jw_Audience :: string
  jw_Claims :: "(string \<times> json) list"

text \<open>\<^verbatim>\<open>json.Unmarshal\<close> into a \<^verbatim>\<open>map[string]any\<close>; null leaves the map nil.\<close>

definition unmarshal_map :: "bytes \<Rightarrow> (string \<times> json) list option" where
  "unmarshal_map b =
     (case json_parse b of
        Some JNull \<Rightarrow> Some []
      | Some (JObject kvs) \<Rightarrow>
          if numbers_ok (JObject kvs) then Some (last_wins (map (\<lambda>p. (fst p, any_of (snd p))) kvs)) else None
      | _ \<Rightarrow> None)"

definition string_claim :: "(string \<times> json) list \<Rightarrow> string \<Rightarrow> string" where
  "string_claim claims k = (case map_of claims k of Some (JString s) \<Rightarrow> s | _ \<Rightarrow> [])"

definition DecodeJWTPayload :: "string \<Rightarrow> string + JWTIdentity" where
  "DecodeJWTPayload token =
     (let parts = jwt_parts token in
      if length parts \<noteq> 3 then Inl (''invalid JWT: expected 3 parts, got '' @ utoa (length parts))
      else (case b64_decode (parts ! 1) of
              None \<Rightarrow> Inl ''decoding JWT payload''
            | Some payload \<Rightarrow>
              (case unmarshal_map payload of
                 None \<Rightarrow> Inl ''parsing JWT claims''
               | Some claims \<Rightarrow>
                   Inr \<lparr>jw_Subject = string_claim claims ''sub'', jw_Issuer = string_claim claims ''iss'',
                        jw_Audience = string_claim claims ''aud'', jw_Claims = claims\<rparr>)))"

definition ExtractJWTFromHTTP :: "(nat \<Rightarrow> nat) \<Rightarrow> bytes \<Rightarrow> (string + JWTIdentity option) outcome" where
  "ExtractJWTFromHTTP utab plaintext =
     outcome_bind (findBearerToken utab plaintext) (\<lambda>token.
       Value (if token = [] then Inr None else map_sum id Some (DecodeJWTPayload token)))"

section \<open>MCP\<close>

record MCPToolCall =
  mc_Method :: string
  mc_ID :: json

text \<open>
  Field names match if they are equal after folding case. Beyond ASCII only the long s
  and the Kelvin sign fold to an ASCII letter; all other runes stay outside ASCII and
  match no field.
\<close>

definition fold_rune :: "nat \<Rightarrow> nat" where
  "fold_rune r = (if 97 \<le> r \<and> r \<le> 122 then r - 32 else if r = 383 then 83 else if r = 8490 then 75 else r)"

definition field_is :: "string \<Rightarrow> string \<Rightarrow> bool" where
  "field_is name key \<longleftrightarrow> map fold_rune (runes key) = map fold_rune (runes name)"

record mcp_msg =
  mm_JSONRPC :: string
  mm_Method :: string
  mm_ID :: json
  mm_Params :: "string option"

text \<open>Decoding a value into a string: null leaves it alone, another type is an error.\<close>

definition set_string :: "string \<Rightarrow> json \<Rightarrow> string option" where
  "set_string s v = (case v of JNull \<Rightarrow> Some s | JString t \<Rightarrow> Some t | _ \<Rightarrow> None)"

definition set_any :: "json \<Rightarrow> json option" where
  "set_any v = (if numbers_ok v then Some (any_of v) else None)"

text \<open>Decoding into the params pointer: null resets it, an object is decoded into the present struct.\<close>

definition set_params :: "string option \<Rightarrow> json \<Rightarrow> string option option" where
  "set_params p v =
     (case v of
        JNull \<Rightarrow> Some None
      | JObject kvs \<Rightarrow>
          map_option Some (foldl (\<lambda>n (k, x). if field_is ''name'' k then Option.bind n (\<lambda>n. set_string n x) else n)
            (Some (case p of None \<Rightarrow> [] | Some n \<Rightarrow> n)) kvs)
      | _ \<Rightarrow> None)"

definition mcp_member :: "mcp_msg option \<Rightarrow> string \<times> json \<Rightarrow> mcp_msg option" where
  "mcp_member acc p =
     (case acc of
        None \<Rightarrow> None
      | Some m \<Rightarrow>
        if field_is ''jsonrpc'' (fst p)
        then map_option (\<lambda>s. m\<lparr>mm_JSONRPC := s\<rparr>) (set_string (mm_JSONRPC m) (snd p))
        else if field_is ''method'' (fst p)
        then map_option (\<lambda>s. m\<lparr>mm_Method := s\<rparr>) (set_string (mm_Method m) (snd p))
        else if field_is ''id'' (fst p) then map_option (\<lambda>v. m\<lparr>mm_ID := v\<rparr>) (set_any (snd p))
        else if field_is ''params'' (fst p)
        then map_option (\<lambda>n. m\<lparr>mm_Params := n\<rparr>) (set_params (mm_Params m) (snd p))
        else Some m)"

definition unmarshal_mcp :: "bytes \<Rightarrow> mcp_msg option" where
  "unmarshal_mcp b =
     (let zero = \<lparr>mm_JSONRPC = [], mm_Method = [], mm_ID = JNull, mm_Params = None\<rparr> in
      case json_parse b of
        Some JNull \<Rightarrow> Some zero
      | Some (JObject kvs) \<Rightarrow> foldl mcp_member (Some zero) kvs
      | _ \<Rightarrow> None)"

definition ParseMCPRequest :: "bytes \<Rightarrow> MCPToolCall option" where
  "ParseMCPRequest body =
     (case unmarshal_mcp body of
        None \<Rightarrow> None
      | Some msg \<Rightarrow>
        if mm_JSONRPC msg \<noteq> ''2.0'' \<or> mm_Method msg = [] then None
        else Some \<lparr>mc_Method = (if mm_Method msg = ''tools/call''
                                then (case mm_Params msg of Some n \<Rightarrow> if n \<noteq> [] then n else mm_Method msg
                                      | None \<Rightarrow> mm_Method msg)
                                else mm_Method msg),
                   mc_ID = mm_ID msg\<rparr>)"

definition ExtractMCPToolFromHTTP :: "bytes \<Rightarrow> MCPToolCall option" where
  "ExtractMCPToolFromHTTP plaintext =
     (case findHTTPBody plaintext of None \<Rightarrow> None | Some body \<Rightarrow> ParseMCPRequest body)"

section \<open>All extractors\<close>

record IdentityResult =
  ir_JWT :: "JWTIdentity option"
  ir_MCP :: "MCPToolCall option"
  ir_OTLP :: "OTLPSignal option"
  ir_Boundary :: "BoundaryToken option"

definition ExtractIdentitiesFromTLS ::
  "(nat \<Rightarrow> nat) \<Rightarrow> protowire \<Rightarrow> bytes \<Rightarrow> IdentityResult outcome" where
  "ExtractIdentitiesFromTLS utab pw data =
     outcome_bind (ExtractOTLPFromTLS utab pw data) (\<lambda>otlp.
       case otlp of
         Some sig \<Rightarrow> Value \<lparr>ir_JWT = None, ir_MCP = None, ir_OTLP = Some sig, ir_Boundary = None\<rparr>
       | None \<Rightarrow>
         outcome_bind (ExtractJWTFromHTTP utab data) (\<lambda>jwt.
         outcome_bind (ExtractBoundaryTokenFromHTTP utab data) (\<lambda>bt.
           Value \<lparr>ir_JWT = (case jwt of Inr j \<Rightarrow> j | Inl err \<Rightarrow> None), ir_MCP = ExtractMCPToolFromHTTP data,
                  ir_OTLP = None, ir_Boundary = bt\<rparr>)))"

section \<open>Properties\<close>

lemma jwt_parts_three:
  assumes "CHR ''.'' \<notin> set h" "CHR ''.'' \<notin> set p"
  shows "jwt_parts (h @ ''.'' @ p @ ''.'' @ s) = [h, p, s]"
  using assms by (simp add: jwt_parts_def numeral_3_eq_3 takeWhile_append dropWhile_append)

lemma unmarshal_print:
  "json_wf 0 (JObject kvs) \<Longrightarrow> numbers_ok (JObject kvs) \<Longrightarrow>
   unmarshal_map (json_print (JObject kvs)) = Some (last_wins (map (\<lambda>p. (fst p, any_of (snd p))) kvs))"
  by (simp only: unmarshal_map_def json_parse_print option.case json.case if_True)

subsection \<open>Finding the token\<close>

lemma Split_first: "d \<notin> set u \<Longrightarrow> Split d (u @ d # v) = u # Split d v"
  by (induction u) auto

lemma ToLower_append: "is_ascii a \<Longrightarrow> ToLower utab (a @ s) = ascii_lower a @ ToLower utab s"
  using encode_ascii [of a utab] by (simp add: ToLower_def runes_append_ascii)

lemma no_wide_space:
  assumes "(of_char c :: nat) < 128"
  shows "snd (DecodeRune [x, c]) \<noteq> 2" "snd (DecodeRune [x, y, c]) \<noteq> 3"
  using assms by (auto simp: DecodeRune_def Let_def cont_byte_def split: if_splits)

lemma trim_right_id:
  assumes "(of_char c :: nat) < 128" "\<not> IsSpace (of_char c)"
  shows "trim_right (u @ [c]) = u @ [c]"
proof -
  let ?s = "u @ [c]"
  have 1: "DecodeRune [c] = (of_char c, 1)" using assms(1) by (simp add: DecodeRune_def)
  have d1: "drop (length ?s - 1) ?s = [c]" by simp
  have d2: "2 \<le> length ?s \<Longrightarrow> \<exists>x. drop (length ?s - 2) ?s = [x, c]"
    by (cases u rule: rev_cases) auto
  have d3: "3 \<le> length ?s \<Longrightarrow> \<exists>x y. drop (length ?s - 3) ?s = [x, y, c]"
  proof (cases u rule: rev_cases)
    case (snoc v y)
    then show "3 \<le> length ?s \<Longrightarrow> \<exists>x y. drop (length ?s - 3) ?s = [x, y, c]"
      by (cases v rule: rev_cases) auto
  qed simp
  have "last_space ?s = None"
    unfolding last_space_def
    using 1 d1 d2 d3 no_wide_space [OF assms(1)] assms(2) by (auto simp: find_None_iff)
  then show ?thesis by (rule trim_right_eval(1))
qed

definition token_char :: "char \<Rightarrow> bool" where
  "token_char c \<longleftrightarrow> b64_alphabet c \<or> c = CHR ''.''"

lemma token_char_plain:
  assumes "token_char c"
  shows "(of_char c :: nat) < 128" "\<not> IsSpace (of_char c)" "c \<noteq> CHR 0x0A" "c \<noteq> CHR 0x0D"
  using assms by (auto simp: token_char_def b64_alphabet_def b64_value_def Let_def IsSpace_def split: if_splits)

definition plain_char :: "char \<Rightarrow> bool" where
  "plain_char c \<longleftrightarrow> (of_char c :: nat) < 128 \<and> \<not> IsSpace (of_char c)"

text \<open>A token that \<^verbatim>\<open>TrimSpace\<close> and the splitting into lines leave alone.\<close>

definition bare_token :: "string \<Rightarrow> bool" where
  "bare_token t \<longleftrightarrow> t \<noteq> [] \<and> plain_char (hd t) \<and> plain_char (last t) \<and> CHR 0x0A \<notin> set t"

lemma bare_token_chars: "t \<noteq> [] \<Longrightarrow> list_all token_char t \<Longrightarrow> bare_token t"
  using token_char_plain by (auto simp: bare_token_def plain_char_def list_all_iff)

lemma plain_not_cr: "plain_char c \<Longrightarrow> c \<noteq> CHR 0x0D"
  by (auto simp: plain_char_def IsSpace_def)

lemma trim_left_plain: "plain_char c \<Longrightarrow> trim_left (c # t) = c # t"
  by (simp add: trim_left.simps DecodeRune_def plain_char_def)

lemma trim_right_plain: "plain_char c \<Longrightarrow> trim_right (u @ [c]) = u @ [c]"
  by (rule trim_right_id) (simp_all add: plain_char_def)

lemma TrimSpace_token: "bare_token t \<Longrightarrow> TrimSpace t = t"
  using trim_left_plain [of "hd t" "tl t"] trim_right_plain [of "last t" "butlast t"]
  by (simp add: TrimSpace_def bare_token_def)

text \<open>An HTTP/1.1 message: start line and header lines, an empty line, the body.\<close>

definition http_text :: "string list \<Rightarrow> bytes \<Rightarrow> bytes" where
  "http_text lines body = concat (map (\<lambda>l. l @ [CHR 0x0D, CHR 0x0A]) lines) @ [CHR 0x0D, CHR 0x0A] @ body"

definition other_line :: "(nat \<Rightarrow> nat) \<Rightarrow> string \<Rightarrow> bool" where
  "other_line utab l \<longleftrightarrow> CHR 0x0A \<notin> set l \<and> \<not> HasPrefix (ToLower utab (TrimRightByte (CHR 0x0D) l)) authorization"

lemma TrimRight_cr: "TrimRightByte (CHR 0x0D) (l @ [CHR 0x0D]) = TrimRightByte (CHR 0x0D) l"
  by (simp add: TrimRightByte_def)

lemma TrimRight_last: "c \<noteq> d \<Longrightarrow> TrimRightByte d (u @ [c]) = u @ [c]"
  by (simp add: TrimRightByte_def)

lemma bearer_skip:
  "list_all (other_line utab) pre \<Longrightarrow>
   findBearerToken utab (concat (map (\<lambda>l. l @ [CHR 0x0D, CHR 0x0A]) pre) @ r) = findBearerToken utab r"
proof (induction pre)
  case (Cons l pre)
  let ?r = "concat (map (\<lambda>l. l @ [CHR 0x0D, CHR 0x0A]) pre) @ r"
  have "Split (CHR 0x0A) ((l @ [CHR 0x0D]) @ CHR 0x0A # ?r) = (l @ [CHR 0x0D]) # Split (CHR 0x0A) ?r"
    by (rule Split_first) (use Cons.prems in \<open>simp add: other_line_def\<close>)
  then show ?case using Cons by (simp add: findBearerToken_def other_line_def TrimRight_cr Let_def)
qed simp

lemma bearer_line:
  assumes "bare_token token"
  shows "findBearerToken utab ((''Authorization: Bearer '' @ token) @ CHR 0x0D # CHR 0x0A # r) = Value token"
proof -
  let ?line = "''Authorization: Bearer '' @ token"
  obtain u d where ud: "token = u @ [d]" using assms by (cases token rule: rev_cases) (auto simp: bare_token_def)
  have nl: "CHR 0x0A \<notin> set token" and d: "plain_char d" using assms by (simp_all add: bare_token_def ud)
  have split: "Split (CHR 0x0A) (?line @ CHR 0x0D # CHR 0x0A # r) = (?line @ [CHR 0x0D]) # Split (CHR 0x0A) r"
    using Split_first [of "CHR 0x0A" "?line @ [CHR 0x0D]" r] nl by simp
  have tr: "TrimRightByte (CHR 0x0D) (?line @ [CHR 0x0D]) = ?line"
    unfolding TrimRight_cr using TrimRight_last [of d "CHR 0x0D" "''Authorization: Bearer '' @ u"] 
      plain_not_cr [OF d] by (simp add: ud)
  have asc: "is_ascii ''Authorization: Bearer ''" "is_ascii ''Bearer ''"
    "ascii_lower ''Authorization: Bearer '' = authorization @ '' bearer ''" "ascii_lower ''Bearer '' = bearer"
    by code_simp+
  then have low: "HasPrefix (ToLower utab ?line) authorization" "HasPrefix (ToLower utab (''Bearer '' @ token)) bearer"
    by (simp_all only: ToLower_append append_assoc HasPrefix_append)
  have "trim_left (CHR '' '' # ''Bearer '' @ token) = ''Bearer '' @ token"
    by (simp add: trim_left.simps DecodeRune_def IsSpace_def)
  moreover have "trim_right (''Bearer '' @ token) = ''Bearer '' @ token"
    using trim_right_plain [OF d, of "''Bearer '' @ u"] by (simp add: ud)
  ultimately have t1: "TrimSpace ('' Bearer '' @ token) = ''Bearer '' @ token" by (simp add: TrimSpace_def)
  have t2: "TrimSpace token = token" by (rule TrimSpace_token [OF assms])
  have "slice_from ?line (length authorization) = Value ('' Bearer '' @ token)"
    "slice_from (''Bearer '' @ token) (length bearer) = Value token"
    by (simp_all add: slice_from_def authorization_def bearer_def)
  then show ?thesis
    unfolding findBearerToken_def split bearer_lines.simps tr Let_def by (simp only: low t1 t2 outcome_bind_simps if_True)
qed

lemma bearer_found:
  assumes "list_all (other_line utab) pre" "bare_token token"
  shows "findBearerToken utab (http_text (pre @ (''Authorization: Bearer '' @ token) # post) body) = Value token"
  using bearer_skip [OF assms(1)] bearer_line [OF assms(2)] by (simp add: http_text_def)

subsection \<open>Claims\<close>

lemma any_of_JString: "any_of v = JString s \<longleftrightarrow> v = JString s"
  by (cases v) auto

lemma string_claim_any:
  "string_claim (last_wins (map (\<lambda>p. (fst p, any_of (snd p))) kvs)) k = string_claim (rev kvs) k"
proof -
  have "map_of (rev (map (\<lambda>p. (fst p, any_of (snd p))) kvs)) k = map_option any_of (map_of (rev kvs) k)"
    using map_of_map_snd [of any_of "rev kvs" k, unfolded case_prod_unfold] by (simp add: rev_map)
  moreover have "(case any_of v of JString s \<Rightarrow> s | _ \<Rightarrow> []) = (case v of JString s \<Rightarrow> s | _ \<Rightarrow> [])" for v
    by (cases v) simp_all
  ultimately show ?thesis by (simp add: string_claim_def map_of_last_wins split: option.split)
qed

lemma DecodeJWT_print:
  assumes "CHR ''.'' \<notin> set hdr" "json_wf 0 (JObject kvs)" "numbers_ok (JObject kvs)"
  shows "DecodeJWTPayload (hdr @ ''.'' @ b64_encode (json_print (JObject kvs)) @ ''.'' @ sig) =
     Inr \<lparr>jw_Subject = string_claim (rev kvs) ''sub'', jw_Issuer = string_claim (rev kvs) ''iss'',
          jw_Audience = string_claim (rev kvs) ''aud'',
          jw_Claims = last_wins (map (\<lambda>p. (fst p, any_of (snd p))) kvs)\<rparr>"
proof -
  have "CHR ''.'' \<notin> set (b64_encode (json_print (JObject kvs)))"
    using b64_alphabet_ne [OF b64_encode_alphabet] by blast
  then have "jwt_parts (hdr @ ''.'' @ b64_encode (json_print (JObject kvs)) @ ''.'' @ sig)
      = [hdr, b64_encode (json_print (JObject kvs)), sig]"
    by (rule jwt_parts_three [OF assms(1)])
  moreover have "unmarshal_map (json_print (JObject kvs)) = Some (last_wins (map (\<lambda>p. (fst p, any_of (snd p))) kvs))"
    by (rule unmarshal_print [OF assms(2,3)])
  ultimately show ?thesis
    unfolding DecodeJWTPayload_def
    by (simp del: json_print.simps add: b64_decode_encode string_claim_any)
qed

lemma jwt_found:
  assumes "list_all (other_line utab) pre" and "list_all b64_alphabet hdr" and "list_all b64_alphabet sig"
    and "json_wf 0 (JObject claims)" and "numbers_ok (JObject claims)"
  shows "ExtractJWTFromHTTP utab (http_text (pre @
      (''Authorization: Bearer '' @ hdr @ ''.'' @ b64_encode (json_print (JObject claims)) @ ''.'' @ sig) # post) body)
    = Value (Inr (Some
        \<lparr>jw_Subject = string_claim (rev claims) ''sub'', jw_Issuer = string_claim (rev claims) ''iss'',
         jw_Audience = string_claim (rev claims) ''aud'',
         jw_Claims = last_wins (map (\<lambda>p. (fst p, any_of (snd p))) claims)\<rparr>))"
proof -
  let ?p = "b64_encode (json_print (JObject claims))"
  let ?t = "hdr @ ''.'' @ ?p @ ''.'' @ sig"
  have "list_all token_char ?p" using b64_encode_alphabet by (auto simp: list_all_iff token_char_def)
  then have "list_all token_char ?t" using assms(2,3) by (auto simp: list_all_iff token_char_def)
  then have "findBearerToken utab (http_text (pre @ (''Authorization: Bearer '' @ ?t) # post) body) = Value ?t"
    using bearer_found [OF assms(1) bare_token_chars, of ?t] by simp
  moreover have "CHR ''.'' \<notin> set hdr" using assms(2) b64_alphabet_ne by (auto simp: list_all_iff)
  ultimately show ?thesis
    using DecodeJWT_print [OF _ assms(4,5), of hdr sig] unfolding ExtractJWTFromHTTP_def by simp
qed

text \<open>
  Property C30: a JWT on the wire is observed with its claims. For every request that
  carries a bearer token whose middle part is the encoding of any JSON object of
  claims, in whatever other headers and body, the extractor returns the subject,
  issuer and audience that the object states (the last of several), and all claims;
  the signature is not looked at.
\<close>

theorem jwt_observed:
  assumes "list_all (other_line utab) pre" and "list_all b64_alphabet hdr" and "list_all b64_alphabet sig"
    and "json_wf 0 (JObject claims)" and "numbers_ok (JObject claims)"
  shows "ExtractJWTFromHTTP utab (http_text (pre @
      (''Authorization: Bearer '' @ hdr @ ''.'' @ b64_encode (json_print (JObject claims)) @ ''.'' @ sig) # post) body)
    = Value (Inr (Some
        \<lparr>jw_Subject = string_claim (rev claims) ''sub'', jw_Issuer = string_claim (rev claims) ''iss'',
         jw_Audience = string_claim (rev claims) ''aud'',
         jw_Claims = last_wins (map (\<lambda>p. (fst p, any_of (snd p))) claims)\<rparr>))"
  by (rule jwt_found [OF assms])

definition sample_claims :: "(string \<times> json) list" where
  "sample_claims = [(''sub'', JString ''alice''), (''exp'', JNumber ''17''), (''iss'', JString ''idp'')]"

lemma sample_claims_wf: "json_wf 0 (JObject sample_claims)" "numbers_ok (JObject sample_claims)"
proof -
  have "number_lit ''17''" unfolding number_lit_def by code_simp
  moreover have "utf8_string ''sub''" "utf8_string ''exp''" "utf8_string ''iss''" "utf8_string ''alice''" "utf8_string ''idp''"
    by (rule utf8_ascii, code_simp)+
  ultimately show "json_wf 0 (JObject sample_claims)"
    by (simp add: sample_claims_def maxNestingDepth_def)
  have "number_ok ''17''" by (rule number_ok_digits; code_simp)
  then show "numbers_ok (JObject sample_claims)" by (simp add: sample_claims_def)
qed

theorem jwt_observed_witness:
  "\<exists>j. ExtractJWTFromHTTP (\<lambda>r. r) (http_text [''GET / HTTP/1.1'',
      ''Authorization: Bearer '' @ ''h'' @ ''.'' @ b64_encode (json_print (JObject sample_claims)) @ ''.'' @ ''s''] [])
      = Value (Inr (Some j)) \<and> jw_Subject j = ''alice''"
proof -
  have "other_line (\<lambda>r. r) ''GET / HTTP/1.1''" by code_simp
  moreover have "list_all b64_alphabet ''h''" "list_all b64_alphabet ''s''" by code_simp+
  ultimately show ?thesis
    using jwt_observed [of "\<lambda>r. r" "[''GET / HTTP/1.1'']" "''h''" "''s''" sample_claims "[]" "[]", OF _ _ _ sample_claims_wf]
    by (simp add: string_claim_def sample_claims_def)
qed

lemma jwt_claims_ok:
  "DecodeJWTPayload token = Inr j \<Longrightarrow>
     go_value (JObject (jw_Claims j)) \<and> utf8_string (jw_Subject j) \<and> utf8_string (jw_Issuer j)
     \<and> utf8_string (jw_Audience j)"
proof -
  assume "DecodeJWTPayload token = Inr j"
  then obtain payload m where m: "unmarshal_map payload = Some m" and j: "jw_Claims j = m"
    "jw_Subject j = string_claim m ''sub''" "jw_Issuer j = string_claim m ''iss''"
    "jw_Audience j = string_claim m ''aud''"
    by (auto simp: DecodeJWTPayload_def Let_def split: if_splits option.splits)
  have g: "go_value (JObject m)"
    using m go_value_any [of "JObject _"] json_parse_strings [of payload]
    by (fastforce simp: unmarshal_map_def split: option.splits json.splits if_splits)
  have "utf8_string (string_claim m k)" for k
    using g map_of_SomeD [of m k] by (force simp: string_claim_def list_all_iff split: option.split json.split)
  with g j show ?thesis by simp
qed



subsection \<open>Tool calls\<close>

text \<open>Where the fields of a decoded request come from.\<close>

definition member_string :: "(string \<times> json) list \<Rightarrow> string \<Rightarrow> string \<Rightarrow> bool" where
  "member_string kvs name s \<longleftrightarrow> (\<exists>k. (k, JString s) \<in> set kvs \<and> field_is name k)"

definition mcp_origin :: "(string \<times> json) list \<Rightarrow> mcp_msg \<Rightarrow> bool" where
  "mcp_origin kvs m \<longleftrightarrow>
     (mm_JSONRPC m = [] \<or> member_string kvs ''jsonrpc'' (mm_JSONRPC m))
   \<and> (mm_Method m = [] \<or> member_string kvs ''method'' (mm_Method m))
   \<and> (\<forall>n. mm_Params m = Some n \<longrightarrow> n = [] \<or>
        (\<exists>k ps. (k, JObject ps) \<in> set kvs \<and> field_is ''params'' k \<and> member_string ps ''name'' n))"

lemma member_string_mono: "member_string kvs name s \<Longrightarrow> set kvs \<subseteq> set kvs' \<Longrightarrow> member_string kvs' name s"
  by (auto simp: member_string_def)

lemma mcp_origin_mono: "mcp_origin kvs m \<Longrightarrow> set kvs \<subseteq> set kvs' \<Longrightarrow> mcp_origin kvs' m"
  unfolding mcp_origin_def using member_string_mono by blast

lemma set_string_Some: "set_string s v = Some t \<Longrightarrow> t = s \<or> v = JString t"
  by (auto simp: set_string_def split: json.splits)

lemma set_params_name:
  assumes "set_params p v = Some (Some n)"
  shows "n = [] \<or> p = Some n \<or> (\<exists>ps. v = JObject ps \<and> member_string ps ''name'' n)"
proof -
  obtain ps where v: "v = JObject ps"
    and f: "foldl (\<lambda>n (k, x). if field_is ''name'' k then Option.bind n (\<lambda>n. set_string n x) else n)
      (Some (case p of None \<Rightarrow> [] | Some n \<Rightarrow> n)) ps = Some n"
    using assms by (auto simp: set_params_def split: json.splits)
  from f have "n = (case p of None \<Rightarrow> [] | Some n \<Rightarrow> n) \<or> member_string ps ''name'' n"
  proof (induction ps arbitrary: n rule: rev_induct)
    case (snoc q ps)
    then show ?case
      by (cases q) (auto simp: member_string_def Option.bind_eq_Some_conv split: if_splits dest!: set_string_Some)
  qed auto
  then show ?thesis using v by (auto split: option.splits)
qed

lemma mcp_origin_updates:
  assumes "mcp_origin kvs m"
  shows "s = mm_JSONRPC m \<or> member_string kvs ''jsonrpc'' s \<Longrightarrow> mcp_origin kvs (m\<lparr>mm_JSONRPC := s\<rparr>)"
    "s = mm_Method m \<or> member_string kvs ''method'' s \<Longrightarrow> mcp_origin kvs (m\<lparr>mm_Method := s\<rparr>)"
    "mcp_origin kvs (m\<lparr>mm_ID := v\<rparr>)"
    "\<forall>n. q = Some n \<longrightarrow> n = [] \<or> mm_Params m = Some n \<or>
        (\<exists>k ps. (k, JObject ps) \<in> set kvs \<and> field_is ''params'' k \<and> member_string ps ''name'' n) \<Longrightarrow>
      mcp_origin kvs (m\<lparr>mm_Params := q\<rparr>)"
  using assms by (auto simp: mcp_origin_def)

lemma mcp_member_cases:
  assumes "mcp_member (Some m) (k, v) = Some m'"
  obtains s where "m' = m\<lparr>mm_JSONRPC := s\<rparr>" "s = mm_JSONRPC m \<or> field_is ''jsonrpc'' k \<and> v = JString s"
  | s where "m' = m\<lparr>mm_Method := s\<rparr>" "s = mm_Method m \<or> field_is ''method'' k \<and> v = JString s"
  | w where "m' = m\<lparr>mm_ID := w\<rparr>"
  | q where "m' = m\<lparr>mm_Params := q\<rparr>" "field_is ''params'' k" "set_params (mm_Params m) v = Some q"
  | "m' = m"
  using assms by (auto simp: mcp_member_def split: if_splits dest!: set_string_Some)

lemma mcp_member_origin:
  assumes "mcp_origin kvs m" "mcp_member (Some m) (k, v) = Some m'"
  shows "mcp_origin (kvs @ [(k, v)]) m'"
proof -
  let ?kvs = "kvs @ [(k, v)]"
  have old: "mcp_origin ?kvs m" by (rule mcp_origin_mono [OF assms(1)]) auto
  have here: "field_is name k \<and> v = JString s \<Longrightarrow> member_string ?kvs name s" for name s
    by (auto simp: member_string_def)
  from assms(2) show ?thesis
  proof (cases rule: mcp_member_cases)
    case (4 q)
    then have "n = [] \<or> mm_Params m = Some n \<or>
        (\<exists>k ps. (k, JObject ps) \<in> set ?kvs \<and> field_is ''params'' k \<and> member_string ps ''name'' n)" if "q = Some n" for n
      using set_params_name [of "mm_Params m" v n] that by auto
    with 4 show ?thesis using mcp_origin_updates(4) [OF old] by blast
  qed (use old here mcp_origin_updates [OF old] in \<open>blast+\<close>)
qed

lemma mcp_member_None [simp]: "mcp_member None p = None"
  by (simp add: mcp_member_def)

lemma mcp_fold_origin: "foldl mcp_member (Some m0) kvs = Some m \<Longrightarrow> mcp_origin [] m0 \<Longrightarrow> mcp_origin kvs m"
proof (induction kvs arbitrary: m rule: rev_induct)
  case (snoc p kvs)
  then obtain m1 where "foldl mcp_member (Some m0) kvs = Some m1" "mcp_member (Some m1) p = Some m"
    by (cases "foldl mcp_member (Some m0) kvs") auto
  with snoc show ?case using mcp_member_origin by (cases p) blast
qed simp

lemma mcp_call_ok:
  assumes "ExtractMCPToolFromHTTP b = Some call"
  shows "\<exists>body kvs. findHTTPBody b = Some body \<and> json_parse body = Some (JObject kvs)
     \<and> member_string kvs ''jsonrpc'' ''2.0'' \<and> mc_Method call \<noteq> [] \<and> utf8_string (mc_Method call)
     \<and> (member_string kvs ''method'' (mc_Method call)
        \<or> member_string kvs ''method'' ''tools/call'' \<and>
          (\<exists>k ps. (k, JObject ps) \<in> set kvs \<and> field_is ''params'' k \<and> member_string ps ''name'' (mc_Method call)))"
proof -
  let ?zero = "\<lparr>mm_JSONRPC = [], mm_Method = [], mm_ID = JNull, mm_Params = None\<rparr>"
  obtain body msg where body: "findHTTPBody b = Some body" and msg: "unmarshal_mcp body = Some msg"
    "mm_JSONRPC msg = ''2.0''" "mm_Method msg \<noteq> []"
    and call: "mc_Method call = mm_Method msg
      \<or> mm_Method msg = ''tools/call'' \<and> mm_Params msg = Some (mc_Method call) \<and> mc_Method call \<noteq> []"
    using assms by (auto simp: ExtractMCPToolFromHTTP_def ParseMCPRequest_def split: option.splits if_splits)
  obtain kvs where kvs: "json_parse body = Some (JObject kvs)" "foldl mcp_member (Some ?zero) kvs = Some msg"
    using msg by (auto simp: unmarshal_mcp_def Let_def split: option.splits json.splits)
  have orig: "mcp_origin kvs msg" by (rule mcp_fold_origin [OF kvs(2)]) (simp add: mcp_origin_def)
  have strings: "member_string kvs name s \<Longrightarrow> utf8_string s"
    "(k, JObject ps) \<in> set kvs \<Longrightarrow> member_string ps name s \<Longrightarrow> utf8_string s" for name s k ps
    using json_parse_strings [OF kvs(1)] by (fastforce simp: member_string_def list_all_iff)+
  show ?thesis
    using orig call msg(2,3) strings body kvs(1) unfolding mcp_origin_def by (metis list.distinct(1))
qed

text \<open>
  Property C32: a tool call is reported only for what the request says. If the
  extractor reports a tool name, the body of the request is a JSON object with a
  member jsonrpc of value 2.0, and the name is a non-empty string of valid UTF-8 that
  is either the value of a member method, or, where that is tools/call, the value of
  a member name of the params object.
\<close>

theorem mcp_call_sound:
  assumes "ExtractMCPToolFromHTTP b = Some call"
  shows "\<exists>body kvs. findHTTPBody b = Some body \<and> json_parse body = Some (JObject kvs)
     \<and> member_string kvs ''jsonrpc'' ''2.0'' \<and> mc_Method call \<noteq> [] \<and> utf8_string (mc_Method call)
     \<and> (member_string kvs ''method'' (mc_Method call)
        \<or> member_string kvs ''method'' ''tools/call'' \<and>
          (\<exists>k ps. (k, JObject ps) \<in> set kvs \<and> field_is ''params'' k \<and> member_string ps ''name'' (mc_Method call)))"
  by (rule mcp_call_ok [OF assms])

subsection \<open>Messages that are found\<close>

lemma scan_skip: "CHR 0x0D \<notin> set l \<Longrightarrow> scan_for crlf2 (l @ r) = scan_for crlf2 r"
  by (induction l) (auto simp: crlf2_def)

definition header_line :: "string \<Rightarrow> bool" where
  "header_line l \<longleftrightarrow> l \<noteq> [] \<and> CHR 0x0D \<notin> set l"

lemma scan_http:
  "list_all header_line lines \<Longrightarrow> lines \<noteq> [] \<Longrightarrow> scan_for crlf2 (http_text lines body) = Some body"
proof (induction lines)
  case (Cons l ls)
  have "scan_for crlf2 (http_text (l # ls) body) = scan_for crlf2 (CHR 0x0D # CHR 0x0A # http_text ls body)"
    using scan_skip [of l] Cons.prems by (simp add: http_text_def header_line_def)
  also have "\<dots> = Some body"
  proof (cases ls)
    case Nil
    then show ?thesis by (simp add: http_text_def crlf2_def)
  next
    case (Cons l' ls')
    then obtain c u where l': "l' = c # u" "c \<noteq> CHR 0x0D"
      using Cons.prems by (cases l') (auto simp: header_line_def)
    have "scan_for crlf2 (CHR 0x0D # CHR 0x0A # http_text ls body) = scan_for crlf2 (http_text ls body)"
      using l' by (simp add: crlf2_def http_text_def Cons)
    then show ?thesis using Cons.IH Cons.prems Cons by simp
  qed
  finally show ?case .
qed simp

lemma findHTTPBody_http:
  "list_all header_line lines \<Longrightarrow> lines \<noteq> [] \<Longrightarrow> findHTTPBody (http_text lines body) = Some body"
  by (simp add: findHTTPBody_def scan_http)

text \<open>The request for a tool call, with its keys in the order in which \<^verbatim>\<open>json.Marshal\<close> writes a map.\<close>

definition call_request :: "json \<Rightarrow> json \<Rightarrow> string \<Rightarrow> json" where
  "call_request i args tool =
     JObject [(''id'', i), (''jsonrpc'', JString ''2.0''), (''method'', JString ''tools/call''),
       (''params'', JObject [(''arguments'', args), (''name'', JString tool)])]"

lemma field_table:
  "field_is ''jsonrpc'' ''id'' = False" "field_is ''method'' ''id'' = False" "field_is ''id'' ''id'' = True"
  "field_is ''jsonrpc'' ''jsonrpc'' = True"
  "field_is ''jsonrpc'' ''method'' = False" "field_is ''method'' ''method'' = True"
  "field_is ''jsonrpc'' ''params'' = False" "field_is ''method'' ''params'' = False" "field_is ''id'' ''params'' = False"
  "field_is ''params'' ''params'' = True"
  "field_is ''name'' ''name'' = True" "field_is ''name'' ''arguments'' = False"
  by code_simp+

lemma ParseMCP_call:
  assumes "json_wf 0 (call_request i args tool)" "numbers_ok i" "tool \<noteq> []"
  shows "ParseMCPRequest (json_print (call_request i args tool)) = Some \<lparr>mc_Method = tool, mc_ID = any_of i\<rparr>"
proof -
  have p: "json_parse (json_print (call_request i args tool)) = Some (call_request i args tool)"
    by (rule json_parse_print [OF assms(1)])
  have "unmarshal_mcp (json_print (call_request i args tool))
      = Some \<lparr>mm_JSONRPC = ''2.0'', mm_Method = ''tools/call'', mm_ID = any_of i, mm_Params = Some tool\<rparr>"
    using assms(2) unfolding unmarshal_mcp_def p
    by (simp add: call_request_def mcp_member_def field_table set_string_def set_any_def set_params_def)
  with assms(3) show ?thesis by (simp add: ParseMCPRequest_def)
qed

lemma mcp_observed:
  assumes "list_all header_line lines" "lines \<noteq> []"
    and "json_wf 0 (call_request i args tool)" "numbers_ok i" "tool \<noteq> []"
  shows "ExtractMCPToolFromHTTP (http_text lines (json_print (call_request i args tool)))
    = Some \<lparr>mc_Method = tool, mc_ID = any_of i\<rparr>"
  using findHTTPBody_http [OF assms(1,2)] ParseMCP_call [OF assms(3-5)] by (simp add: ExtractMCPToolFromHTTP_def)

lemma sample_call_wf: "json_wf 0 (call_request (JNumber ''7'') (JObject []) ''vault_read'')" "numbers_ok (JNumber ''7'')"
proof -
  have "number_lit ''7''" unfolding number_lit_def by code_simp
  moreover have "utf8_string ''id''" "utf8_string ''jsonrpc''" "utf8_string ''2.0''" "utf8_string ''method''"
    "utf8_string ''tools/call''" "utf8_string ''params''" "utf8_string ''arguments''" "utf8_string ''name''"
    "utf8_string ''vault_read''"
    by (rule utf8_ascii, code_simp)+
  ultimately show "json_wf 0 (call_request (JNumber ''7'') (JObject []) ''vault_read'')"
    by (simp add: call_request_def maxNestingDepth_def)
  have "number_ok ''7''" by (rule number_ok_digits; code_simp)
  then show "numbers_ok (JNumber ''7'')" by simp
qed

theorem mcp_call_sound_witness:
  "\<exists>body kvs. findHTTPBody (http_text [''POST /mcp HTTP/1.1'']
      (json_print (call_request (JNumber ''7'') (JObject []) ''vault_read''))) = Some body
     \<and> json_parse body = Some (JObject kvs) \<and> member_string kvs ''jsonrpc'' ''2.0''"
proof -
  have "list_all header_line [''POST /mcp HTTP/1.1'']" by (simp add: header_line_def)
  from mcp_observed [OF this _ sample_call_wf] mcp_call_sound show ?thesis by blast
qed

subsection \<open>All extractors together\<close>

lemma jwt_three: "DecodeJWTPayload token = Inr j \<Longrightarrow> length (jwt_parts token) = 3"
  by (auto simp: DecodeJWTPayload_def Let_def split: if_splits)

text \<open>
  Property C33: reading the identities of a captured message always returns (for
  messages with an ASCII header, with every protobuf decoder that obeys its
  documented laws), and what it returns is unambiguous: an OTLP export carries no
  other identity, and no bearer token is reported both as a JWT and as a Boundary
  token.
\<close>

theorem identities_unambiguous:
  assumes "wire_laws pw" and "\<forall>n. findHeaderEnd b = Some n \<longrightarrow> is_ascii (take n b)"
  shows "\<exists>r. ExtractIdentitiesFromTLS utab pw b = Value r
     \<and> (ir_OTLP r \<noteq> None \<longrightarrow> ir_JWT r = None \<and> ir_MCP r = None \<and> ir_Boundary r = None)
     \<and> (ir_JWT r = None \<or> ir_Boundary r = None)"
proof -
  obtain otlp where o: "ExtractOTLPFromTLS utab pw b = Value otlp"
    using otlp_returns [OF assms] by (auto simp: returns_def)
  obtain token where T: "findBearerToken utab b = Value token"
    using bearer_lines_total unfolding findBearerToken_def by blast
  have "length (jwt_parts token) = Suc (min 2 (count_list token (CHR ''.'')))"
    using length_SplitN [of 2] by (simp add: jwt_parts_def numeral_3_eq_3 numeral_2_eq_2)
  then have "DecodeJWTPayload token = Inr j \<Longrightarrow> \<not> count_list token (CHR ''.'') < 2" for j
    using jwt_three by fastforce
  then show ?thesis
    by (cases "DecodeJWTPayload token")
       (auto simp: ExtractIdentitiesFromTLS_def o T ExtractJWTFromHTTP_def ExtractBoundaryTokenFromHTTP_def
        split: option.split sum.split)
qed

theorem identities_unambiguous_witness:
  "\<exists>r. ExtractIdentitiesFromTLS (\<lambda>r. r) wire_example otlp_example = Value r
     \<and> (ir_OTLP r \<noteq> None \<longrightarrow> ir_JWT r = None) \<and> (ir_JWT r = None \<or> ir_Boundary r = None)"
proof -
  have "findHeaderEnd otlp_example = Some 28"
    by (simp add: findHeaderEnd_def otlp_example_def crlf2_def HasPrefix_def)
  then have "\<forall>n. findHeaderEnd otlp_example = Some n \<longrightarrow> is_ascii (take n otlp_example)"
    by (simp add: otlp_example_def crlf2_def is_ascii_def)
  from identities_unambiguous [OF wire_example_laws this, of "\<lambda>r. r"] show ?thesis by blast
qed

end
