(* ===== verification/Session_Api.thy ===== *)
theory Session_Api
  imports Session_Query
begin

text \<open>
  The HTTP interface of the sidecar: \<^verbatim>\<open>internal/session/api.go\<close> behind the bearer
  token middleware of \<^verbatim>\<open>internal/auth/token.go\<close>. A request is its method, its
  (clean) path, the decoded query parameters and the header; a response is a status,
  the header fields the code sets and a body. The body of a successful answer is the
  value that is encoded as JSON; encoding fails, as \<^verbatim>\<open>time.Time.MarshalJSON\<close> does, for
  an instant whose year is not between 0 and 9999.
\<close>

section \<open>Requests and responses\<close>

record Request =
  rq_Method :: string
  rq_Path :: string
  rq_Query :: "(string \<times> string) list"
  rq_Header :: "(string \<times> string) list"

datatype body = Text string | JEntries "Entry list" | JStats Stats | JAttest AttestResult
  | JProfile BehavioralProfile

record Response =
  rs_Status :: nat
  rs_Header :: "(string \<times> string) list"
  rs_Body :: body

text \<open>\<^verbatim>\<open>Values.Get\<close> and \<^verbatim>\<open>Header.Get\<close>: the first value, or the empty string.\<close>

definition get_first :: "(string \<times> string) list \<Rightarrow> string \<Rightarrow> string" where
  "get_first kvs k = (case map_of kvs k of None \<Rightarrow> [] | Some v \<Rightarrow> v)"

definition http_error :: "string \<Rightarrow> nat \<Rightarrow> Response" where
  "http_error msg status = \<lparr>rs_Status = status,
     rs_Header = [(''Content-Type'', ''text/plain; charset=utf-8'')], rs_Body = Text msg\<rparr>"

definition year_ok :: "time \<Rightarrow> bool" where
  "year_ok t = (let (y, _, _) = civil (t div 1000000000 div 86400) in 0 \<le> y \<and> y \<le> 9999)"

definition encode_error :: string where
  "encode_error = ''Time.MarshalJSON: year outside of range [0,9999]''"

fun json_ok :: "body \<Rightarrow> bool" where
  "json_ok (Text s) = True"
| "json_ok (JEntries es) =
     list_all (\<lambda>e. year_ok (en_FirstSeen e) \<and> year_ok (en_LastSeen e) \<and> year_ok (en_CertExpiry e)) es"
| "json_ok (JStats s) = True"
| "json_ok (JAttest r) = year_ok (at_ObservedAt r)"
| "json_ok (JProfile p) =
     (year_ok (tw_Start (bp_CurrentWindow p)) \<and> year_ok (tw_End (bp_CurrentWindow p)))"

definition respond_json :: "body \<Rightarrow> Response" where
  "respond_json b =
     (if json_ok b then \<lparr>rs_Status = 200, rs_Header = [(''Content-Type'', ''application/json'')], rs_Body = b\<rparr>
      else http_error encode_error 500)"

section \<open>The handlers\<close>

definition defaultSessionsLimit :: int where "defaultSessionsLimit = 1000"

text \<open>The value of a numeric parameter: the default if absent, an error below the least value.\<close>

definition int_param :: "Request \<Rightarrow> string \<Rightarrow> int \<Rightarrow> int \<Rightarrow> int option" where
  "int_param r name dflt least =
     (let s = get_first (rq_Query r) name in
      if s = [] then Some dflt
      else case Atoi s of None \<Rightarrow> None | Some n \<Rightarrow> if n < least then None else Some n)"

definition paginate :: "int \<Rightarrow> int \<Rightarrow> 'a list \<Rightarrow> 'a list" where
  "paginate limit offset xs =
     (if offset \<ge> int (length xs) then []
      else let ys = drop (nat offset) xs
           in if int (length ys) > limit then take (nat limit) ys else ys)"

definition handleSessions :: "SessionMap \<Rightarrow> Request \<Rightarrow> Response" where
  "handleSessions m r =
     (let q = get_first (rq_Query r) in
      case int_param r ''limit'' defaultSessionsLimit 1 of
        None \<Rightarrow> http_error ''invalid limit'' 400
      | Some limit \<Rightarrow>
        (case int_param r ''offset'' 0 0 of
           None \<Rightarrow> http_error ''invalid offset'' 400
         | Some offset \<Rightarrow>
           respond_json (JEntries (paginate limit offset
             (QueryAll m (q ''identity'') (q ''dest'') (q ''status'') (q ''node_id''))))))"

definition handleStats :: "SessionMap \<Rightarrow> Request \<Rightarrow> Response" where
  "handleStats m r = respond_json (JStats (GetStats m))"

definition handleAttest :: "SessionMap \<Rightarrow> time \<Rightarrow> Request \<Rightarrow> Response" where
  "handleAttest m wall r =
     (let q = get_first (rq_Query r); pidStr = q ''pid''; src = q ''src''; dst = q ''dst'' in
      if pidStr = [] then respond_json (JAttest (Lookup m wall 0 src dst))
      else case ParseUint32 pidStr of
          None \<Rightarrow> http_error ''invalid pid'' 400
        | Some pid \<Rightarrow> if pid = 0 then http_error ''invalid pid'' 400
                      else respond_json (JAttest (Lookup m wall pid src dst)))"

definition handleProfile :: "SessionMap \<Rightarrow> Request \<Rightarrow> Response" where
  "handleProfile m r =
     (let ident = get_first (rq_Query r) ''identity'' in
      if ident = [] then http_error ''identity parameter required'' 400
      else case GetProfile m ident of
          None \<Rightarrow> http_error ''identity not observed'' 404
        | Some p \<Rightarrow> respond_json (JProfile p))"

definition methodNotAllowed :: "Request \<Rightarrow> Response" where
  "methodNotAllowed r =
     (http_error ''method not allowed'' 405)\<lparr>rs_Header := [(''Allow'', ''GET''),
        (''Content-Type'', ''text/plain; charset=utf-8'')]\<rparr>"

definition routes :: "string list" where
  "routes = [''/sessions'', ''/stats'', ''/attest'', ''/profile'']"

text \<open>
  The routing table: a pattern with the method GET also matches HEAD, and is more
  specific than the pattern of the same path without a method.
\<close>

definition Handler :: "SessionMap \<Rightarrow> time \<Rightarrow> Request \<Rightarrow> Response" where
  "Handler m wall r =
     (if rq_Path r \<notin> set routes then http_error ''404 page not found'' 404
      else if rq_Method r \<notin> {''GET'', ''HEAD''} then methodNotAllowed r
      else if rq_Path r = ''/sessions'' then handleSessions m r
      else if rq_Path r = ''/stats'' then handleStats m r
      else if rq_Path r = ''/attest'' then handleAttest m wall r
      else handleProfile m r)"

definition TokenMiddleware :: "string \<Rightarrow> (Request \<Rightarrow> Response) \<Rightarrow> Request \<Rightarrow> Response" where
  "TokenMiddleware token next_handler r =
     (if token = [] then next_handler r
      else let hdr = get_first (rq_Header r) ''Authorization'' in
        if \<not> HasPrefix hdr ''Bearer '' \<or> drop (length ''Bearer '') hdr \<noteq> token
        then http_error ''unauthorized'' 401
        else next_handler r)"

section \<open>Properties\<close>

lemma paginate_take_drop: "0 \<le> limit \<Longrightarrow> 0 \<le> offset \<Longrightarrow>
   paginate limit offset xs = take (nat limit) (drop (nat offset) xs)"
  by (auto simp: paginate_def Let_def)

lemma int_param_least: "int_param r n d l = Some v \<Longrightarrow> l \<le> d \<Longrightarrow> l \<le> v"
  by (auto simp: int_param_def Let_def split: if_splits option.splits)

text \<open>
  The answer to a query for sessions, for every form of the parameters.
  A limit that is not a positive number or an offset that is not a natural number is
  answered 400; otherwise the body is the slice of the filtered entries from the
  offset, of at most limit (or 1000) entries, unless one of these entries holds an
  instant that JSON cannot represent, when the whole answer is 500.
\<close>

lemma api_sessions:
  "handleSessions m r =
     (let q = get_first (rq_Query r);
          found = QueryAll m (q ''identity'') (q ''dest'') (q ''status'') (q ''node_id'')
      in case (int_param r ''limit'' 1000 1, int_param r ''offset'' 0 0) of
        (None, _) \<Rightarrow> http_error ''invalid limit'' 400
      | (Some l, None) \<Rightarrow> http_error ''invalid offset'' 400
      | (Some l, Some k) \<Rightarrow>
          (let page = take (nat l) (drop (nat k) found)
           in if json_ok (JEntries page)
              then \<lparr>rs_Status = 200, rs_Header = [(''Content-Type'', ''application/json'')],
                    rs_Body = JEntries page\<rparr>
              else http_error encode_error 500))"
  by (auto simp: handleSessions_def defaultSessionsLimit_def respond_json_def Let_def paginate_take_drop
      dest!: int_param_least split: option.splits)

text \<open>
  Property C37: with a token configured, the session map is out of reach of a request
  that does not carry it: the answer is 401 and does not depend on the map or the
  time. A request with the header \<open>Bearer\<close> and the token is answered as if there
  were no middleware.
\<close>

theorem api_token_required:
  assumes "token \<noteq> []"
  shows "TokenMiddleware token (Handler m wall) r =
     (if get_first (rq_Header r) ''Authorization'' = ''Bearer '' @ token then Handler m wall r
      else http_error ''unauthorized'' 401)"
proof (cases "get_first (rq_Header r) ''Authorization'' = ''Bearer '' @ token")
  case True
  then show ?thesis by (simp add: TokenMiddleware_def HasPrefix_def)
next
  case False
  then have "\<not> HasPrefix (get_first (rq_Header r) ''Authorization'') ''Bearer ''
      \<or> drop (length ''Bearer '') (get_first (rq_Header r) ''Authorization'') \<noteq> token"
    unfolding HasPrefix_def by (metis append_take_drop_id)
  with assms False show ?thesis by (auto simp: TokenMiddleware_def Let_def)
qed

definition rq_example :: Request where
  "rq_example = \<lparr>rq_Method = ''GET'', rq_Path = ''/stats'', rq_Query = [], rq_Header = []\<rparr>"

theorem api_token_required_witness:
  "TokenMiddleware ''secret'' (Handler (NewMap 60) 0) rq_example = http_error ''unauthorized'' 401"
  using api_token_required [of "''secret''" "NewMap 60" 0 rq_example]
  by (simp add: rq_example_def get_first_def)


section \<open>Two consequences\<close>

lemma Sweep_keeps_single:
  assumes "entries m = [(k, e)]" "0 \<le> staleTTL m" "staleTTL m \<le> maxDuration"
    "en_Status e = ''active''" "t \<le> en_LastSeen e"
  shows "Sweep m t = m"
proof -
  have "wrap64 (- staleTTL m) = - staleTTL m"
    by (rule wrap64_id) (use assms(2,3) in \<open>simp_all add: minDuration_def maxDuration_def\<close>)
  with assms have "entries (Sweep m t) = entries m" by (simp add: Sweep_def Let_def sweep_entry_def)
  then show ?thesis by (intro SessionMap.equality) (simp_all add: Sweep_def Let_def)
qed

lemma sweeps_keep_single:
  assumes "entries m = [(k, e)]" "0 \<le> staleTTL m" "staleTTL m \<le> maxDuration"
    "en_Status e = ''active''"
  shows "\<forall>t \<in> set ts. t \<le> en_LastSeen e \<Longrightarrow> foldl Sweep m ts = m"
  by (induction ts) (simp_all add: Sweep_keeps_single [OF assms])

lemma open_new:
  assumes "ev_EventType ev = CONNECTION_OPEN" "ev_Timestamp ev = Some T"
  shows "entries (HandleEvent (NewMap ttl) wall ev) = [(eventKey ev, openEntry ev T)]"
    and "staleTTL (HandleEvent (NewMap ttl) wall ev) = ttl"
  using assms by (simp_all add: HandleEvent_def handleOpen_def NewMap_def DefaultMaxEntries_def
      observeProfile_def eventTime_def Let_def split_beta)



definition page_request :: "string \<Rightarrow> Request" where
  "page_request offset = \<lparr>rq_Method = ''GET'', rq_Path = ''/sessions'',
     rq_Query = [(''limit'', ''1''), (''offset'', offset)], rq_Header = []\<rparr>"

text \<open>
  Pages are not consistent across requests. Two requests for the first
  and the second page, with nothing but the iteration order of the table changing in
  between, can return the same entry twice and miss the other one.
\<close>

lemma pages_overlap:
  "\<exists>m m'. reachable m \<and> map_step m m' \<and> table m' = table m \<and> length (entries m) = 2
     \<and> rs_Status (Handler m wall (page_request ''0'')) = 200
     \<and> rs_Body (Handler m wall (page_request ''0'')) = rs_Body (Handler m' wall (page_request ''1''))"
proof -
  let ?a = "ev_open [] 7" and ?b = "(ev_open [] 8)\<lparr>ev_NodeId := ''n2''\<rparr>"
  define m where "m = foldl map_input_step (NewMap 60) [Event 0 ?a, Event 0 ?b]"
  define m' where "m' = m\<lparr>entries := rev (entries m)\<rparr>"
  have kb: "eventKey ?b = ''n2|10.0.0.1:80|10.0.0.2:443|tcp''" "eventTime w ?b = 8" for w
    by (simp_all add: eventKey_def connectionKey_def eventTime_def ev_open_def NewTestEvent_def)
  have "maxEntries (HandleEvent (NewMap 60) 0 ?a) = 100000"
    using maxEntries_step [of "NewMap 60" "Event 0 ?a"] by (simp add: NewMap_def DefaultMaxEntries_def)
  then have E: "entries m = [(''n1|10.0.0.1:80|10.0.0.2:443|tcp'', openEntry ?a 7),
      (''n2|10.0.0.1:80|10.0.0.2:443|tcp'', openEntry ?b 8)]"
    using entries_open_new [of 60 0 "[]" 7] kb
    by (simp add: m_def HandleEvent_def [of _ _ ?b] handleOpen_def [of _ ?b] Let_def split_beta)
  have params: "int_param (page_request s) ''limit'' 1000 1 = Some 1"
    "int_param (page_request ''0'') ''offset'' 0 0 = Some 0" "int_param (page_request ''1'') ''offset'' 0 0 = Some 1" for s
    by (simp_all add: int_param_def page_request_def get_first_def Atoi_def digits_val_def is_digit_def
        minDuration_def maxDuration_def)
  have year: "year_ok 7" "year_ok zero_time" by code_simp+
  have fields: "en_FirstSeen (openEntry ?a 7) = 7" "en_CertExpiry (openEntry ?a 7) = zero_time"
    by (simp_all add: openEntry_def applyOTELFields_def zero_entry_def pickIdentity_def Let_def
        ev_open_def NewTestEvent_def zero_event_def)
  have page: "Handler n wall (page_request s) = respond_json (JEntries (paginate 1 k (map snd (entries n))))"
    if "int_param (page_request s) ''offset'' 0 0 = Some k" for n s k
    using that params(1) by (simp add: Handler_def routes_def page_request_def handleSessions_def
        defaultSessionsLimit_def QueryAll_def query_match_def get_first_def)
  have "reachable m" unfolding m_def by (rule reachable_run [OF reachable.new])
  moreover have "map_step m m'" unfolding m'_def by (rule map_step.reorder) simp
  moreover have "table m' = table m" by (auto simp: m'_def table_def E)
  moreover have "rs_Status (Handler m wall (page_request ''0'')) = 200"
    by (simp add: page [OF params(2)] E paginate_def respond_json_def year fields)
  moreover have "rs_Body (Handler m wall (page_request ''0'')) = rs_Body (Handler m' wall (page_request ''1''))"
    by (simp add: page [OF params(2)] page [OF params(3)] E m'_def paginate_def)
  ultimately show ?thesis using E by (intro exI [of _ m] exI [of _ m']) simp
qed

end
