(* ===== verification/Metrics.thy ===== *)
theory Metrics
  imports Session_Api Go_Json_Laws
begin

text \<open>
  Metrics and health: the counters of the agent and the endpoints of
  \<^verbatim>\<open>internal/metrics\<close>. A labelled counter is a constructor with its label; the gauges and
  the counters of the sidecar are fields of its state in the theory \<open>Stream\<close>. The
  handler of the Prometheus library is a parameter.
\<close>

section \<open>Counters\<close>

datatype counter =
    EBPFEventsTotal string | EventsDroppedTotal | ConnectionsObservedTotal string
  | IdentitiesExtractedTotal string | IdentityExtractionErrorsTotal | StreamEventsSentTotal
  | StreamReconnectsTotal | OTLPCapturedTotal string | OTLPTruncatedTotal
  | OTLPForwardedTotal string | OTLPForwardErrorsTotal string

type_synonym counters = "counter \<Rightarrow> nat"

definition Inc :: "counter \<Rightarrow> counters \<Rightarrow> counters" where
  "Inc c m = m(c := Suc (m c))"

lemma Inc_apply [simp]: "Inc c m c = Suc (m c)" "c \<noteq> d \<Longrightarrow> Inc c m d = m d"
  by (simp_all add: Inc_def)

lemma Inc_other: "Inc c m d = (if c = d then Suc (m d) else m d)"
  by (simp add: Inc_def)

section \<open>Durations\<close>

text \<open>\<^verbatim>\<open>Duration.Round\<close>: halves are rounded away from zero, and the result saturates.\<close>

definition Round :: "duration \<Rightarrow> duration \<Rightarrow> duration" where
  "Round d m =
     (if m \<le> 0 then d
      else let r = rem_int d m in
        if d < 0 then
          (let r1 = - r in
           if 2 * r1 < m then d + r1 else if minDuration \<le> d - m + r1 then d - m + r1 else minDuration)
        else if 2 * r < m then d - r else if d + m - r \<le> maxDuration then d + m - r else maxDuration)"

text \<open>The last digits of a number as a fraction, without trailing zeros.\<close>

definition fmtFrac :: "nat \<Rightarrow> nat \<Rightarrow> string" where
  "fmtFrac prec v =
     (let ds = rev (dropWhile (\<lambda>c. c = CHR ''0'') (rev (pad prec (utoa (v mod 10 ^ prec))))) in
      if prec = 0 \<or> ds = [] then [] else ''.'' @ ds)"

text \<open>\<^verbatim>\<open>Duration.String\<close>.\<close>

definition duration_String :: "duration \<Rightarrow> string" where
  "duration_String d =
     (let u = nat \<bar>d\<bar>; sign = (if d < 0 then ''-'' else []);
          small = (\<lambda>prec unit. sign @ utoa (u div 10 ^ prec) @ fmtFrac prec u @ unit);
          secs = u div 1000000000; s = utoa (secs mod 60) @ fmtFrac 9 u @ ''s'';
          mins = secs div 60; hours = mins div 60 in
      if u = 0 then ''0s''
      else if u < 1000 then small 0 ''ns''
      else if u < 1000000 then small 3 [CHR 0xC2, CHR 0xB5, CHR ''s'']
      else if u < 1000000000 then small 6 ''ms''
      else sign @ (if hours > 0 then utoa hours @ ''h'' else [])
             @ (if mins > 0 then utoa (mins mod 60) @ ''m'' else []) @ s)"

section \<open>The endpoints\<close>

definition health :: "string \<Rightarrow> time \<Rightarrow> time \<Rightarrow> json" where
  "health serviceName startTime now =
     JObject [(''status'', JString ''ok''),
       (''uptime'', JString (duration_String (Round (Sub now startTime) Second))),
       (''service'', JString serviceName)]"

text \<open>A pattern with the method GET also matches HEAD; other methods on its path are answered 405.\<close>

definition NewHTTPHandler ::
  "string \<Rightarrow> time \<Rightarrow> (Request \<Rightarrow> Response) \<Rightarrow> time \<Rightarrow> Request \<Rightarrow> Response" where
  "NewHTTPHandler serviceName startTime promhttp now r =
     (if rq_Path r \<notin> {''/healthz'', ''/metrics''} then http_error ''404 page not found'' 404
      else if rq_Method r \<notin> {''GET'', ''HEAD''}
      then (http_error ''Method Not Allowed'' 405)\<lparr>rs_Header := [(''Allow'', ''GET, HEAD''),
             (''Content-Type'', ''text/plain; charset=utf-8'')]\<rparr>
      else if rq_Path r = ''/healthz''
      then \<lparr>rs_Status = 200, rs_Header = [(''Content-Type'', ''application/json'')],
            rs_Body = Text (json_print (health serviceName startTime now) @ [CHR 0x0A])\<rparr>
      else promhttp r)"

section \<open>Properties\<close>

lemma Round_near:
  assumes "0 < m" "minDuration \<le> d" "d \<le> maxDuration"
  shows "2 * \<bar>Round d m - d\<bar> \<le> m" "minDuration \<le> Round d m" "Round d m \<le> maxDuration"
proof -
  have "d + m * (- d div m) = - (- d mod m)" using mult_div_mod_eq [of m "- d"] by linarith
  then have q: "d < 0 \<Longrightarrow> rem_int d m = - ((- d) mod m)" "0 \<le> d \<Longrightarrow> rem_int d m = d mod m"
    using assms(1) by (auto simp: rem_int_def quot_int_def sgn_if minus_mult_div_eq_mod)
  define p where "p = (- d) mod m"
  define n where "n = d mod m"
  have r: "0 \<le> p" "p < m" "0 \<le> n" "n < m" using assms(1) by (simp_all add: p_def n_def)
  have s: "0 \<le> d \<Longrightarrow> n \<le> d" "d < 0 \<Longrightarrow> p \<le> - d"
    using assms(1) by (simp_all add: p_def n_def zmod_le_nonneg_dividend)
  have eq: "Round d m = (if d < 0 then
        (if 2 * p < m then d + p else if minDuration \<le> d - m + p then d - m + p else minDuration)
      else if 2 * n < m then d - n else if d + m - n \<le> maxDuration then d + m - n else maxDuration)"
    using assms(1) q by (auto simp: Round_def Let_def p_def n_def)
  show "2 * \<bar>Round d m - d\<bar> \<le> m" "minDuration \<le> Round d m" "Round d m \<le> maxDuration"
    unfolding eq using assms r s by (auto simp: minDuration_def maxDuration_def abs_if)
qed

lemma ascii_utoa: "is_ascii (utoa n)"
  using utoa_digits [of n] by (auto simp: list_all_iff is_ascii_def is_digit_def)

lemma ascii_append [simp]: "is_ascii (a @ b) \<longleftrightarrow> is_ascii a \<and> is_ascii b"
  by (auto simp: is_ascii_def)

lemma ascii_fmtFrac: "is_ascii (fmtFrac prec v)"
proof -
  have "is_ascii (pad prec (utoa n))" for n using ascii_utoa [of n] by (simp add: pad_def) (simp add: is_ascii_def)
  then have "is_ascii (rev (dropWhile (\<lambda>c. c = CHR ''0'') (rev (pad prec (utoa n)))))" for n
    by (auto simp: is_ascii_def list_all_iff dest: set_dropWhileD)
  then show ?thesis by (simp add: fmtFrac_def Let_def) (simp add: is_ascii_def)
qed

lemma utf8_duration: "utf8_string (duration_String d)"
proof -
  have m: "utf8_string [CHR 0xC2, CHR 0xB5]"
    using utf8_rune [of 181] by (simp add: scalar_def EncodeRune_def char_of_def bit_iff_odd)
  have unit: "utf8_string [CHR 0xC2, CHR 0xB5, CHR ''s'']"
    using utf8_append [OF m utf8_ascii [of "''s''"]] by (simp add: is_ascii_def)
  have units: "utf8_string ''0s''" "utf8_string ''-''" "utf8_string ''h''" "utf8_string ''m''" "utf8_string ''s''"
    "utf8_string ''ns''" "utf8_string ''ms''" "utf8_string []"
    by (rule utf8_ascii, simp add: is_ascii_def)+
  have either: "utf8_string a \<Longrightarrow> utf8_string b \<Longrightarrow> utf8_string (if c then a else b)" for a b c by simp
  have number: "utf8_string (utoa n)" "utf8_string (fmtFrac p n)" for n p
    using ascii_utoa ascii_fmtFrac by (simp_all add: utf8_ascii)
  show ?thesis
    unfolding duration_String_def Let_def by (intro either utf8_append number unit units)
qed

lemma json_parse_line:
  assumes "json_wf 0 v"
  shows "json_parse (json_print v @ [CHR 0x0A]) = Some v"
  using json_reads [OF assms] by (simp add: reads_def json_parse_def number_stop_def is_digit_def skip_ws_def is_ws_def)

text \<open>
  The health endpoint answers every GET with a body that reads back as
  the status, the uptime to the nearest second, and the name of the service.
\<close>

lemma health_roundtrip:
  assumes "utf8_string serviceName" and "rq_Path r = ''/healthz''" and "rq_Method r = ''GET''"
  shows "\<exists>b d. rs_Body (NewHTTPHandler serviceName startTime prom now r) = Text b
     \<and> json_parse b = Some (JObject [(''status'', JString ''ok''), (''uptime'', JString (duration_String d)),
          (''service'', JString serviceName)])
     \<and> 2 * \<bar>d - Sub now startTime\<bar> \<le> Second"
proof -
  have "utf8_string ''status''" "utf8_string ''ok''" "utf8_string ''uptime''" "utf8_string ''service''"
    by (rule utf8_ascii, code_simp)+
  then have "json_wf 0 (health serviceName startTime now)"
    using assms(1) utf8_duration by (simp add: health_def maxNestingDepth_def)
  moreover have "2 * \<bar>Round (Sub now startTime) Second - Sub now startTime\<bar> \<le> Second"
    using Round_near(1) [of Second] Sub_range [of now startTime] by (simp add: Second_def)
  ultimately show ?thesis
    using json_parse_line assms(2,3) by (auto simp: NewHTTPHandler_def health_def simp del: json_print.simps)
qed

end
