(* ===== verification/Policy.thy ===== *)
theory Policy
  imports Reflector_Event
begin

text \<open>
  Identity policy: the evaluator of \<^verbatim>\<open>internal/policy/evaluator.go\<close> and the compiled-in policy
  \<^verbatim>\<open>internal/policy/default.rego\<close>, and the SPIFFE identity of a certificate
  (\<^verbatim>\<open>internal/extract/spiffe.go\<close>). The policy engine is a parameter (an error, or the result
  sets of the query); so are the X.509 parser, of which the fields that the code reads
  are modelled, and the hash function.
\<close>

section \<open>Certificates\<close>

record URL =
  url_Scheme :: string
  url_Host :: string
  url_Path :: string
  url_String :: string

record x509Certificate =
  xc_URIs :: "URL list"
  xc_RawIssuer :: bytes
  xc_SerialNumber :: "nat option"
  xc_NotAfter :: time

record SPIFFEIdentity =
  si_Raw :: string
  si_TrustDomain :: string
  si_Path :: string

definition parseSPIFFEURI :: "URL \<Rightarrow> string + SPIFFEIdentity" where
  "parseSPIFFEURI u =
     (if url_Scheme u \<noteq> ''spiffe'' then Inl (''not a SPIFFE URI: scheme='' @ url_Scheme u)
      else if url_Host u = [] then Inl (''SPIFFE URI missing trust domain: '' @ url_String u)
      else Inr \<lparr>si_Raw = url_String u, si_TrustDomain = url_Host u, si_Path = url_Path u\<rparr>)"

text \<open>The result without an error may be nil: \<open>Inr None\<close>.\<close>

definition ParseSPIFFEFromCert :: "x509Certificate \<Rightarrow> string + SPIFFEIdentity option" where
  "ParseSPIFFEFromCert cert =
     (case find (\<lambda>u. url_Scheme u = ''spiffe'') (xc_URIs cert) of
        None \<Rightarrow> Inr None
      | Some u \<Rightarrow> (case parseSPIFFEURI u of Inl err \<Rightarrow> Inl err | Inr i \<Rightarrow> Inr (Some i)))"

definition ParseSPIFFEFromDER ::
  "(bytes \<Rightarrow> string + x509Certificate) \<Rightarrow> bytes \<Rightarrow> string + SPIFFEIdentity option" where
  "ParseSPIFFEFromDER parseCertificate der =
     (case parseCertificate der of
        Inl err \<Rightarrow> Inl (''parsing X.509 certificate: '' @ err)
      | Inr cert \<Rightarrow> ParseSPIFFEFromCert cert)"

text \<open>\<^verbatim>\<open>url.Parse\<close> is a parameter.\<close>

definition ParseSPIFFEFromURI :: "(string \<Rightarrow> string + URL) \<Rightarrow> string \<Rightarrow> string + SPIFFEIdentity" where
  "ParseSPIFFEFromURI urlParse rawURI =
     (if \<not> HasPrefix rawURI ''spiffe://'' then Inl (''not a SPIFFE URI: '' @ rawURI)
      else (case urlParse rawURI of
              Inl err \<Rightarrow> Inl (''parsing SPIFFE URI: '' @ err)
            | Inr u \<Rightarrow> parseSPIFFEURI u))"

record CertMetadata =
  cm_Serial :: string
  cm_Expiry :: time
  cm_IssuerFingerprint :: string

text \<open>\<^verbatim>\<open>hex.EncodeToString\<close> and \<^verbatim>\<open>big.Int.Bytes\<close> (big-endian, without leading zeros).\<close>

definition hex_encode :: "bytes \<Rightarrow> string" where
  "hex_encode b = concat (map (\<lambda>c. [hex_lower (of_char c div 16), hex_lower (of_char c mod 16)]) b)"

fun nat_bytes :: "nat \<Rightarrow> bytes" where
  "nat_bytes n = (if n = 0 then [] else nat_bytes (n div 256) @ [char_of (n mod 256)])"

declare nat_bytes.simps [simp del]

definition ExtractCertMetadata :: "(bytes \<Rightarrow> bytes) \<Rightarrow> x509Certificate \<Rightarrow> CertMetadata" where
  "ExtractCertMetadata sha256 cert =
     \<lparr>cm_Serial = (case xc_SerialNumber cert of None \<Rightarrow> [] | Some n \<Rightarrow> hex_encode (nat_bytes n)),
      cm_Expiry = xc_NotAfter cert,
      cm_IssuerFingerprint = (if length (xc_RawIssuer cert) > 0 then hex_encode (sha256 (xc_RawIssuer cert)) else [])\<rparr>"

definition ExtractCertMetadataFromDER ::
  "(bytes \<Rightarrow> string + x509Certificate) \<Rightarrow> (bytes \<Rightarrow> bytes) \<Rightarrow> bytes \<Rightarrow> CertMetadata \<times> string option" where
  "ExtractCertMetadataFromDER parseCertificate sha256 der =
     (case parseCertificate der of
        Inl err \<Rightarrow> (\<lparr>cm_Serial = [], cm_Expiry = zero_time, cm_IssuerFingerprint = []\<rparr>,
                    Some (''parsing certificate: '' @ err))
      | Inr cert \<Rightarrow> (ExtractCertMetadata sha256 cert, None))"

section \<open>The evaluator\<close>

record Result =
  pr_Allow :: bool
  pr_Reason :: string

record Input =
  in_SPIFFEID :: string
  in_SrcAddr :: string
  in_DstAddr :: string
  in_PID :: u32

text \<open>Values that the engine returns: those the code tells apart.\<close>

datatype rego_value = RBool bool | RString string | RObject "(string \<times> rego_value) list" | ROther

text \<open>
  Evaluation: an error, or a list of results, each with the values of its expressions.
\<close>

definition Eval :: "(Input \<Rightarrow> string + rego_value list list) \<Rightarrow> Input \<Rightarrow> Result" where
  "Eval engine i =
     (case engine i of
        Inl err \<Rightarrow> \<lparr>pr_Allow = True, pr_Reason = ''eval-error''\<rparr>
      | Inr rs \<Rightarrow>
          if length rs = 0 \<or> length (hd rs) = 0 then \<lparr>pr_Allow = True, pr_Reason = ''eval-error''\<rparr>
          else (case hd (hd rs) of
                  RObject obj \<Rightarrow>
                    (let allow = (case map_of obj ''allow'' of Some (RBool b) \<Rightarrow> b | _ \<Rightarrow> False);
                         reason = (case map_of obj ''reason'' of Some (RString s) \<Rightarrow> s | _ \<Rightarrow> [])
                     in \<lparr>pr_Allow = allow, pr_Reason = (if reason = [] then ''default-allow'' else reason)\<rparr>)
                | _ \<Rightarrow> \<lparr>pr_Allow = True, pr_Reason = ''eval-error''\<rparr>))"

text \<open>\<^verbatim>\<open>New\<close>: the policy text and its label.\<close>

definition policySource ::
  "string \<times> string \<Rightarrow> string \<Rightarrow> (string \<Rightarrow> string option) \<Rightarrow> string \<times> string" where
  "policySource dflt policyPath readFile =
     (if policyPath \<noteq> [] then (case readFile policyPath of Some t \<Rightarrow> (t, policyPath) | None \<Rightarrow> dflt)
      else dflt)"

text \<open>\<^verbatim>\<open>New\<close>: preparing the policy for evaluation is the engine's.\<close>

definition New_Evaluator ::
  "string \<times> string \<Rightarrow> (string \<Rightarrow> string \<Rightarrow> string + 'q) \<Rightarrow> string \<Rightarrow> (string \<Rightarrow> string option) \<Rightarrow> string + 'q" where
  "New_Evaluator dflt prepare policyPath readFile =
     (let (src, label) = policySource dflt policyPath readFile in
      case prepare label src of
        Inl err \<Rightarrow> Inl (''compiling policy '' @ label @ '': '' @ err)
      | Inr q \<Rightarrow> Inr q)"

text \<open>
  A file that cannot be read is replaced by the default policy without an error; a file
  that can be read but not compiled is one.
\<close>

lemma New_Evaluator_cases:
  "readFile path = None \<Longrightarrow> New_Evaluator dflt prepare path readFile = New_Evaluator dflt prepare [] readFile"
  "readFile path = Some t \<Longrightarrow> path \<noteq> [] \<Longrightarrow> prepare path t = Inl err \<Longrightarrow>
     New_Evaluator dflt prepare path readFile = Inl (''compiling policy '' @ path @ '': '' @ err)"
  by (simp_all add: New_Evaluator_def policySource_def)

section \<open>The default policy\<close>

definition trusted_domains :: "string list" where "trusted_domains = [''cluster.local'']"

definition any_trusted :: "string \<Rightarrow> bool" where
  "any_trusted i = list_ex (\<lambda>d. HasPrefix i (''spiffe://'' @ d @ ''/'')) trusted_domains"

text \<open>The set of denials, in the order in which \<^verbatim>\<open>concat\<close> joins it.\<close>

definition deny :: "Input \<Rightarrow> string list" where
  "deny i = (if in_SPIFFEID i = [] then [''missing-spiffe-identity''] else [])
     @ (if in_SPIFFEID i \<noteq> [] \<and> \<not> any_trusted (in_SPIFFEID i) then [''untrusted-trust-domain''] else [])"

definition join_comma :: "string list \<Rightarrow> string" where
  "join_comma xs = concat (map (\<lambda>(i, x). (if i = 0 then [] else '', '') @ x) (enumerate 0 xs))"

definition policy_result :: "Input \<Rightarrow> rego_value" where
  "policy_result i =
     RObject [(''allow'', RBool (length (deny i) = 0)),
              (''reason'', RString (if length (deny i) > 0 then join_comma (deny i) else ''default-allow''))]"

text \<open>The engine evaluates the query on the default policy.\<close>

definition runs_default :: "(Input \<Rightarrow> string + rego_value list list) \<Rightarrow> bool" where
  "runs_default engine \<longleftrightarrow> (\<forall>i. engine i = Inr [[policy_result i]])"

lemma Eval_default:
  "runs_default engine \<Longrightarrow> Eval engine i =
     (if in_SPIFFEID i = [] then \<lparr>pr_Allow = False, pr_Reason = ''missing-spiffe-identity''\<rparr>
      else if HasPrefix (in_SPIFFEID i) ''spiffe://cluster.local/''
      then \<lparr>pr_Allow = True, pr_Reason = ''default-allow''\<rparr>
      else \<lparr>pr_Allow = False, pr_Reason = ''untrusted-trust-domain''\<rparr>)"
  by (simp add: runs_default_def Eval_def policy_result_def deny_def any_trusted_def trusted_domains_def
      join_comma_def HasPrefix_def)

text \<open>
  Under the default policy an identity is allowed exactly if it lies in
  the trust domain cluster.local, and a denial names the rule.
\<close>

lemma default_policy_gate:
  "runs_default engine \<Longrightarrow> Eval engine i =
     (if in_SPIFFEID i = [] then \<lparr>pr_Allow = False, pr_Reason = ''missing-spiffe-identity''\<rparr>
      else if HasPrefix (in_SPIFFEID i) ''spiffe://cluster.local/''
      then \<lparr>pr_Allow = True, pr_Reason = ''default-allow''\<rparr>
      else \<lparr>pr_Allow = False, pr_Reason = ''untrusted-trust-domain''\<rparr>)"
  by (rule Eval_default)


end
