(* ===== verification/Stream.thy ===== *)
theory Stream
  imports Session_Query
begin

text \<open>
  The metadata stream between reflector and sidecar: the server loop with its token
  bucket (\<^verbatim>\<open>internal/stream/server.go\<close>), credentials and
  peer identity (\<^verbatim>\<open>internal/auth/mtls.go\<close>) and the event handler and sweep ticker of
  \<^verbatim>\<open>cmd/reflector-map/main.go\<close>. The gRPC library is a parameter: what \<^verbatim>\<open>Recv\<close> returns is
  the input of the loop, and the results of dialling and sending are arguments. The
  locale \<open>event_sink\<close> is the interface between the loop and its handler.
\<close>

section \<open>Peers\<close>

record Certificate =
  ct_URIs :: "(string \<times> string) list"
  ct_CommonName :: string

record TLSConfig =
  tc_CACertFile :: string
  tc_CertFile :: string
  tc_KeyFile :: string

definition Enabled :: "TLSConfig \<Rightarrow> bool" where
  "Enabled c \<longleftrightarrow> tc_CACertFile c \<noteq> [] \<and> tc_CertFile c \<noteq> [] \<and> tc_KeyFile c \<noteq> []"

text \<open>
  A verified chain is a list of certificates. A URI is its scheme and its text.
\<close>

definition PeerSPIFFEID :: "Certificate list list \<Rightarrow> string" where
  "PeerSPIFFEID verified =
     (if length verified = 0 \<or> length (hd verified) = 0 then []
      else case find (\<lambda>(scheme, uri). scheme = ''spiffe'') (ct_URIs (hd (hd verified))) of
        Some (scheme, uri) \<Rightarrow> uri | None \<Rightarrow> [])"

definition PeerCN :: "Certificate list list \<Rightarrow> string" where
  "PeerCN verified =
     (if length verified = 0 \<or> length (hd verified) = 0 then [] else ct_CommonName (hd (hd verified)))"

text \<open>The peer of a stream: \<open>None\<close> without TLS, else the verified chains.\<close>

definition nodeIDFromPeer :: "Certificate list list option \<Rightarrow> string" where
  "nodeIDFromPeer p = (case p of None \<Rightarrow> []
     | Some verified \<Rightarrow> if PeerSPIFFEID verified \<noteq> [] then PeerSPIFFEID verified else PeerCN verified)"

section \<open>Credentials\<close>

text \<open>
  The TLS configuration that the credentials are made of. Reading the key pair and the CA
  file and parsing them are parameters.
\<close>

record ('cert, 'pool) tls_config =
  tl_Certificate :: 'cert
  tl_ClientCAs :: "'pool option"
  tl_RootCAs :: "'pool option"
  tl_RequireClientCert :: bool
  tl_ServerName :: string
  tl_MinVersion :: nat

definition VersionTLS13 :: nat where "VersionTLS13 = 772"

definition load_TLSConfig ::
  "(string \<Rightarrow> string \<Rightarrow> string + 'cert) \<Rightarrow> (string \<Rightarrow> string + bytes) \<Rightarrow> (bytes \<Rightarrow> 'pool option) \<Rightarrow> TLSConfig
   \<Rightarrow> string + ('cert \<times> 'pool)" where
  "load_TLSConfig keyPair readFile certsFromPEM c =
     (case keyPair (tc_CertFile c) (tc_KeyFile c) of
        Inl err \<Rightarrow> Inl (''loading cert/key: '' @ err)
      | Inr cert \<Rightarrow>
        (case readFile (tc_CACertFile c) of
           Inl err \<Rightarrow> Inl (''reading CA cert: '' @ err)
         | Inr pem \<Rightarrow>
           (case certsFromPEM pem of
              None \<Rightarrow> Inl ''parsing CA cert: no valid certs found''
            | Some pool \<Rightarrow> Inr (cert, pool))))"

definition ServerCredentials ::
  "(string \<Rightarrow> string \<Rightarrow> string + 'cert) \<Rightarrow> (string \<Rightarrow> string + bytes) \<Rightarrow> (bytes \<Rightarrow> 'pool option) \<Rightarrow> TLSConfig
   \<Rightarrow> string + ('cert, 'pool) tls_config" where
  "ServerCredentials keyPair readFile certsFromPEM c =
     (case load_TLSConfig keyPair readFile certsFromPEM c of
        Inl err \<Rightarrow> Inl err
      | Inr (cert, ca) \<Rightarrow>
          Inr \<lparr>tl_Certificate = cert, tl_ClientCAs = Some ca, tl_RootCAs = None, tl_RequireClientCert = True,
               tl_ServerName = [], tl_MinVersion = VersionTLS13\<rparr>)"

definition ClientCredentials ::
  "(string \<Rightarrow> string \<Rightarrow> string + 'cert) \<Rightarrow> (string \<Rightarrow> string + bytes) \<Rightarrow> (bytes \<Rightarrow> 'pool option) \<Rightarrow> TLSConfig
   \<Rightarrow> string \<Rightarrow> string + ('cert, 'pool) tls_config" where
  "ClientCredentials keyPair readFile certsFromPEM c serverName =
     (case load_TLSConfig keyPair readFile certsFromPEM c of
        Inl err \<Rightarrow> Inl err
      | Inr (cert, ca) \<Rightarrow>
          Inr \<lparr>tl_Certificate = cert, tl_ClientCAs = None, tl_RootCAs = Some ca, tl_RequireClientCert = False,
               tl_ServerName = serverName, tl_MinVersion = VersionTLS13\<rparr>)"

section \<open>The token bucket\<close>

record tokenBucket =
  tb_tokens :: float64
  tb_rate :: float64
  tb_max :: float64
  tb_lastFill :: time

definition newTokenBucket :: "int \<Rightarrow> time \<Rightarrow> tokenBucket" where
  "newTokenBucket rate now =
     (let r = float_of_int rate in
      \<lparr>tb_tokens = r, tb_rate = r, tb_max = fmul r 2, tb_lastFill = now\<rparr>)"

definition refill :: "tokenBucket \<Rightarrow> time \<Rightarrow> tokenBucket" where
  "refill b now =
     (let elapsed = Seconds (Sub now (tb_lastFill b)) in
      b\<lparr>tb_lastFill := now,
        tb_tokens := min (tb_max b) (fadd (tb_tokens b) (fmul elapsed (tb_rate b)))\<rparr>)"

definition Allow :: "tokenBucket \<Rightarrow> time \<Rightarrow> bool \<times> tokenBucket" where
  "Allow b now =
     (let b1 = refill b now in
      if tb_tokens b1 < 1 then (False, b1)
      else (True, b1\<lparr>tb_tokens := fsub (tb_tokens b1) 1\<rparr>))"

section \<open>The server loop\<close>

definition DefaultRateLimit :: int where "DefaultRateLimit = 5000"

datatype recv = Recv time ReflectorEvent | RecvEOF | RecvErr string

datatype stream_end = Ended | Failed string | ResourceExhausted int | Waiting

definition bindNode :: "string \<Rightarrow> ReflectorEvent \<Rightarrow> ReflectorEvent" where
  "bindNode nodeID ev = (if nodeID \<noteq> [] then ev\<lparr>ev_NodeId := nodeID\<rparr> else ev)"

fun stream_loop ::
  "('s \<Rightarrow> time \<Rightarrow> ReflectorEvent \<Rightarrow> 's) \<Rightarrow> int \<Rightarrow> string \<Rightarrow> tokenBucket option \<Rightarrow> 's \<Rightarrow> recv list
   \<Rightarrow> 's \<times> stream_end" where
  "stream_loop h limit nodeID bucket s [] = (s, Waiting)"
| "stream_loop h limit nodeID bucket s (RecvEOF # rest) = (s, Ended)"
| "stream_loop h limit nodeID bucket s (RecvErr err # rest) = (s, Failed err)"
| "stream_loop h limit nodeID bucket s (Recv now ev # rest) =
     (case bucket of
        None \<Rightarrow> stream_loop h limit nodeID None (h s now (bindNode nodeID ev)) rest
      | Some b \<Rightarrow>
          if fst (Allow b now)
          then stream_loop h limit nodeID (Some (snd (Allow b now))) (h s now (bindNode nodeID ev)) rest
          else (s, ResourceExhausted limit))"

definition StreamEvents ::
  "('s \<Rightarrow> time \<Rightarrow> ReflectorEvent \<Rightarrow> 's) \<Rightarrow> int \<Rightarrow> Certificate list list option \<Rightarrow> time \<Rightarrow> 's \<Rightarrow> recv list
   \<Rightarrow> 's \<times> stream_end" where
  "StreamEvents h rateLimit pr start s inputs =
     stream_loop h rateLimit (nodeIDFromPeer pr)
       (if rateLimit > 0 then Some (newTokenBucket rateLimit start) else None) s inputs"

section \<open>The sidecar\<close>

record Sidecar =
  sc_map :: SessionMap
  sc_received :: nat
  sc_activeConnections :: nat
  sc_identitiesActive :: nat

definition setGauges :: "Sidecar \<Rightarrow> Sidecar" where
  "setGauges s = (let stats = GetStats (sc_map s) in
     s\<lparr>sc_activeConnections := st_Active stats, sc_identitiesActive := st_Identities stats\<rparr>)"

definition sidecar_handler :: "Sidecar \<Rightarrow> time \<Rightarrow> ReflectorEvent \<Rightarrow> Sidecar" where
  "sidecar_handler s wall ev =
     setGauges (s\<lparr>sc_received := Suc (sc_received s), sc_map := HandleEvent (sc_map s) wall ev\<rparr>)"

definition sidecar_tick :: "Sidecar \<Rightarrow> time \<Rightarrow> Sidecar" where
  "sidecar_tick s now = setGauges (s\<lparr>sc_map := Sweep (sc_map s) now\<rparr>)"

section \<open>The loop and its handler\<close>

text \<open>The events that the loop hands to its handler.\<close>

fun accepted :: "string \<Rightarrow> tokenBucket option \<Rightarrow> recv list \<Rightarrow> (time \<times> ReflectorEvent) list" where
  "accepted nodeID bucket (Recv now ev # rest) =
     (case bucket of
        None \<Rightarrow> (now, bindNode nodeID ev) # accepted nodeID None rest
      | Some b \<Rightarrow> if fst (Allow b now)
                  then (now, bindNode nodeID ev) # accepted nodeID (Some (snd (Allow b now))) rest
                  else [])"
| "accepted nodeID bucket _ = []"

lemma stream_loop_handles:
  "fst (stream_loop h limit nodeID bucket s inputs)
     = foldl (\<lambda>s (t, ev). h s t ev) s (accepted nodeID bucket inputs)"
  by (induction h limit nodeID bucket s inputs rule: stream_loop.induct) (auto split: option.splits)

lemma accepted_node:
  "nodeID \<noteq> [] \<Longrightarrow> (t, ev) \<in> set (accepted nodeID bucket inputs) \<Longrightarrow> ev_NodeId ev = nodeID"
  by (induction nodeID bucket inputs rule: accepted.induct)
     (auto simp: bindNode_def split: option.splits if_splits)

lemma accepted_source:
  "nodeID \<noteq> [] \<Longrightarrow> (t, ev) \<in> set (accepted nodeID bucket inputs) \<Longrightarrow>
   \<exists>ev0. Recv t ev0 \<in> set inputs \<and> ev = ev0\<lparr>ev_NodeId := nodeID\<rparr>"
  by (induction nodeID bucket inputs rule: accepted.induct)
     (auto simp: bindNode_def split: option.splits if_splits)

locale event_sink =
  fixes handler :: "'s \<Rightarrow> time \<Rightarrow> ReflectorEvent \<Rightarrow> 's"
    and inv :: "'s \<Rightarrow> bool"
  assumes handler_inv: "inv s \<Longrightarrow> inv (handler s t ev)"
begin

lemma handled_inv: "inv s \<Longrightarrow> inv (foldl (\<lambda>s (t, ev). handler s t ev) s evs)"
  by (induction evs arbitrary: s) (auto intro: handler_inv)

lemma stream_inv: "inv s \<Longrightarrow> inv (fst (StreamEvents handler rateLimit pr start s inputs))"
  by (simp add: StreamEvents_def stream_loop_handles handled_inv)

end

definition sidecar_inv :: "Sidecar \<Rightarrow> bool" where
  "sidecar_inv s \<longleftrightarrow> map_inv (sc_map s)
     \<and> sc_activeConnections s = st_Active (GetStats (sc_map s))
     \<and> sc_identitiesActive s = st_Identities (GetStats (sc_map s))"

lemma sc_map_setGauges [simp]: "sc_map (setGauges s) = sc_map s"
  by (simp add: setGauges_def Let_def)

lemma setGauges_inv: "map_inv (sc_map s) \<Longrightarrow> sidecar_inv (setGauges s)"
  by (simp add: sidecar_inv_def setGauges_def Let_def)

interpretation sidecar: event_sink sidecar_handler sidecar_inv
proof
  fix s t ev
  assume "sidecar_inv s"
  then have "map_inv (sc_map s)" by (simp add: sidecar_inv_def)
  then show "sidecar_inv (sidecar_handler s t ev)"
    unfolding sidecar_handler_def by (intro setGauges_inv) (simp add: map_inv_HandleEvent)
qed

interpretation sessions: event_sink HandleEvent map_inv
  by unfold_locales (rule map_inv_HandleEvent)

section \<open>Properties of the stream\<close>

text \<open>
  Whatever a stream delivers, and wherever it ends, the sidecar keeps
  its invariant: the session map stays well formed and the two gauges show the
  statistics of the map. The sweep ticker keeps it too.
\<close>

lemma stream_keeps_sidecar:
  assumes "sidecar_inv s"
  shows "sidecar_inv (fst (StreamEvents sidecar_handler rateLimit pr start s inputs))
     \<and> sidecar_inv (sidecar_tick s now)"
proof
  show "sidecar_inv (fst (StreamEvents sidecar_handler rateLimit pr start s inputs))"
    using assms by (rule sidecar.stream_inv)
  have "map_inv (sc_map s)" using assms by (simp add: sidecar_inv_def)
  then show "sidecar_inv (sidecar_tick s now)"
    unfolding sidecar_tick_def by (intro setGauges_inv) (simp add: map_inv_Sweep)
qed

definition sidecar_example :: Sidecar where
  "sidecar_example = \<lparr>sc_map = NewMap 60, sc_received = 0, sc_activeConnections = 0, sc_identitiesActive = 0\<rparr>"

text \<open>
  A stream from an authenticated peer speaks for that peer only. The
  effect of the stream is that of the accepted events in order, each with the node of
  the certificate in place of the node it claims.
\<close>

lemma stream_node_binding:
  assumes "nodeIDFromPeer pr \<noteq> []"
  shows "\<exists>evs. fst (StreamEvents h rateLimit pr start s inputs) = foldl (\<lambda>s (t, ev). h s t ev) s evs
     \<and> (\<forall>(t, ev) \<in> set evs. ev_NodeId ev = nodeIDFromPeer pr
          \<and> (\<exists>ev0. Recv t ev0 \<in> set inputs \<and> ev = ev0\<lparr>ev_NodeId := nodeIDFromPeer pr\<rparr>))"
  using accepted_node [OF assms] accepted_source [OF assms]
  by (intro exI [of _ "accepted (nodeIDFromPeer pr)
        (if rateLimit > 0 then Some (newTokenBucket rateLimit start) else None) inputs"])
     (auto simp: StreamEvents_def stream_loop_handles)

definition peer_example :: "Certificate list list option" where
  "peer_example = Some [[\<lparr>ct_URIs = [(''https'', ''https://x''), (''spiffe'', ''spiffe://d/node1'')],
     ct_CommonName = ''node1''\<rparr>]]"

lemma node_example [simp]: "nodeIDFromPeer peer_example = ''spiffe://d/node1''"
  by (simp add: nodeIDFromPeer_def peer_example_def PeerSPIFFEID_def)

section \<open>Isolation of nodes\<close>

lemma event_other_node:
  assumes inv: "map_inv m" and ev: "ev_NodeId ev = n"
    and bars: "CHR ''|'' \<notin> set n" "CHR ''|'' \<notin> set n'" and n: "n' \<noteq> n"
    and k: "k = connectionKey n' src dst p" and e: "\<forall>e. table m k = Some e \<longrightarrow> en_NodeID e = n'"
    and syn: "syntheticKey ev (eventTime wall ev) \<noteq> k"
  shows "table (HandleEvent m wall ev) k = table m k \<or> table (HandleEvent m wall ev) k = None"
proof -
  have key: "eventKey ev \<noteq> k"
    using bars n by (auto simp: eventKey_def ev k connectionKey_def sep_inj)
  obtain v where T: "table (HandleEvent m wall ev)
     = spec_event v (rotation_status m wall ev (eventTime wall ev)) (eventTime wall ev) ev (table m)"
    using table_HandleEvent [OF inv] by blast
  have "map_option (markStale n) (table m k) = table m k"
    using e n by (cases "table m k") (auto simp: markStale_def)
  with key syn show ?thesis
    unfolding T by (cases "ev_EventType ev") (auto simp: spec_event_def Let_def ev split: option.splits)
qed

lemma events_other_node:
  assumes "map_inv m" "\<forall>(t, ev) \<in> set evs. ev_NodeId ev = n \<and> syntheticKey ev (eventTime t ev) \<noteq> k"
    and bars: "CHR ''|'' \<notin> set n" "CHR ''|'' \<notin> set n'" and n: "n' \<noteq> n"
    and k: "k = connectionKey n' src dst p" and "\<forall>e. table m k = Some e \<longrightarrow> en_NodeID e = n'"
  shows "table (foldl (\<lambda>m (t, ev). HandleEvent m t ev) m evs) k \<in> {table m k, None}"
  using assms(1,2,7)
proof (induction evs arbitrary: m)
  case (Cons x evs)
  obtain t ev where x: "x = (t, ev)" by (cases x)
  have one: "table (HandleEvent m t ev) k = table m k \<or> table (HandleEvent m t ev) k = None"
    using Cons.prems by (intro event_other_node [OF _ _ bars n k]) (auto simp: x)
  have "table (foldl (\<lambda>m (t, ev). HandleEvent m t ev) (HandleEvent m t ev) evs) k
      \<in> {table (HandleEvent m t ev) k, None}"
    by (rule Cons.IH) (use Cons.prems one in \<open>auto simp: x intro: map_inv_HandleEvent\<close>)
  with one show ?case by (auto simp: x)
qed simp

text \<open>
  A node cannot touch the connections of another one. Whatever a peer
  authenticated as node \<open>n\<close> sends, an entry of a different node is afterwards exactly
  as before, or was evicted, provided no event names an identity whose rotation
  record would be stored under the key of that entry.
\<close>

lemma stream_node_isolation:
  assumes "reachable m" and "nodeIDFromPeer pr = n" and "n \<noteq> []" and "n' \<noteq> n"
    and "CHR ''|'' \<notin> set n" and "CHR ''|'' \<notin> set n'"
    and "table m (connectionKey n' src dst p) = Some e" and "en_NodeID e = n'"
    and "\<forall>t ev. Recv t ev \<in> set inputs
           \<longrightarrow> syntheticKey ev (eventTime t ev) \<noteq> connectionKey n' src dst p"
  shows "table (fst (StreamEvents HandleEvent rateLimit pr start m inputs)) (connectionKey n' src dst p)
     \<in> {Some e, None}"
proof -
  let ?b = "if rateLimit > 0 then Some (newTokenBucket rateLimit start) else None"
  have "ev_NodeId ev = n \<and> syntheticKey ev (eventTime t ev) \<noteq> connectionKey n' src dst p"
    if acc: "(t, ev) \<in> set (accepted n ?b inputs)" for t ev
  proof -
    obtain ev0 where ev0: "Recv t ev0 \<in> set inputs" "ev = ev0\<lparr>ev_NodeId := n\<rparr>"
      using accepted_source [OF assms(3) acc] by blast
    then have "syntheticKey ev (eventTime t ev) = syntheticKey ev0 (eventTime t ev0)"
      by (simp add: syntheticKey_def eventTime_def)
    with assms(9) ev0 show ?thesis by auto
  qed
  then have "\<forall>(t, ev) \<in> set (accepted n ?b inputs). ev_NodeId ev = n
      \<and> syntheticKey ev (eventTime t ev) \<noteq> connectionKey n' src dst p" by blast
  from events_other_node [OF reachable_inv [OF assms(1)] this assms(5,6,4) refl] assms(7,8)
  show ?thesis by (simp add: StreamEvents_def stream_loop_handles assms(2))
qed

section \<open>The rate limit\<close>

text \<open>The calls of \<open>Allow\<close> at the given times: how many are granted, and the bucket after them.\<close>

fun granted :: "tokenBucket \<Rightarrow> time list \<Rightarrow> nat \<times> tokenBucket" where
  "granted b [] = (0, b)"
| "granted b (t # ts) =
     (let (ok, b1) = Allow b t; (n, b2) = granted b1 ts in ((if ok then Suc n else n), b2))"

lemma Seconds_zero: "Seconds (Sub t t) = 0"
proof -
  have "Sub t t = 0" by (simp add: Sub_def minDuration_def maxDuration_def)
  then show ?thesis
    by (simp add: Seconds_def quot_int_def rem_int_def float_of_int_def fdiv_def fadd_def Second_def)
qed

lemma Seconds_nonneg: "t \<le> u \<Longrightarrow> 0 \<le> Seconds (Sub u t)"
proof -
  assume "t \<le> u"
  then have "0 \<le> Sub u t" by (simp add: Sub_nonneg_iff)
  then have "quot_int (Sub u t) Second = Sub u t div Second" "rem_int (Sub u t) Second = Sub u t mod Second"
    by (cases "Sub u t = 0"; simp add: quot_int_def rem_int_def Second_def minus_mult_div_eq_mod)+
  then have "0 \<le> quot_int (Sub u t) Second" "0 \<le> rem_int (Sub u t) Second"
    using \<open>0 \<le> Sub u t\<close> by (simp_all add: Second_def pos_imp_zdiv_nonneg_iff)
  then show ?thesis
    unfolding Seconds_def fadd_def fdiv_def
    by (intro f64.nonneg add_nonneg_nonneg divide_nonneg_nonneg float_of_int_nonneg) simp_all
qed

definition bucket_ok :: "int \<Rightarrow> tokenBucket \<Rightarrow> bool" where
  "bucket_ok r b \<longleftrightarrow> 0 < r \<and> 2 * r \<le> 2 ^ 53 \<and> tb_rate b = of_int r \<and> tb_max b = of_int (2 * r)
     \<and> 0 \<le> tb_tokens b \<and> tb_tokens b \<le> of_int (2 * r)"

lemma bucket_ok_new: "0 < r \<Longrightarrow> 2 * r \<le> 2 ^ 53 \<Longrightarrow> bucket_ok r (newTokenBucket r now)"
  using f64.exact_int [of "2 * r"]
  by (simp add: bucket_ok_def newTokenBucket_def Let_def float_of_int_exact fmul_def mult.commute)

lemma bucket_ok_refill: "bucket_ok r b \<Longrightarrow> tb_lastFill b \<le> now \<Longrightarrow> bucket_ok r (refill b now)"
  using Seconds_nonneg [of "tb_lastFill b" now]
  by (auto simp: bucket_ok_def refill_def Let_def fadd_def fmul_def
      intro!: f64.nonneg add_nonneg_nonneg mult_nonneg_nonneg)

lemma bucket_ok_Allow:
  assumes "bucket_ok r b" "tb_lastFill b \<le> now"
  shows "bucket_ok r (snd (Allow b now))"
proof -
  note ok = bucket_ok_refill [OF assms]
  have "tb_tokens (refill b now) - 1 \<le> of_int (2 * r)" using ok by (simp add: bucket_ok_def)
  then have "fsub (tb_tokens (refill b now)) 1 \<le> of_int (2 * r)"
    unfolding fsub_def using ok by (intro f64.le_int) (simp_all add: bucket_ok_def)
  moreover have "1 \<le> tb_tokens (refill b now) \<Longrightarrow> 0 \<le> fsub (tb_tokens (refill b now)) 1"
    unfolding fsub_def by (intro f64.nonneg) simp
  ultimately show ?thesis using ok by (auto simp: Allow_def Let_def bucket_ok_def not_less)
qed

lemma lastFill_Allow [simp]: "tb_lastFill (snd (Allow b now)) = now"
  by (simp add: Allow_def refill_def Let_def)

lemma bucket_ok_granted:
  "bucket_ok r b \<Longrightarrow> sorted (tb_lastFill b # ts) \<Longrightarrow> bucket_ok r (snd (granted b ts))"
proof (induction ts arbitrary: b)
  case (Cons t ts)
  then have "bucket_ok r (snd (Allow b t))" by (intro bucket_ok_Allow) simp_all
  with Cons show ?case by (simp add: split_beta Let_def)
qed simp

text \<open>Calls at the time of the last refill cannot take more tokens than there are.\<close>

lemma refill_now: "tb_lastFill b = t \<Longrightarrow> 0 \<le> k \<Longrightarrow> k \<le> 2 ^ 53 \<Longrightarrow> tb_tokens b \<le> of_int k
   \<Longrightarrow> tb_tokens (refill b t) \<le> of_int k"
  using f64.le_int [of k "tb_tokens b"]
  by (auto simp: refill_def Let_def Seconds_zero fmul_def fadd_def min_le_iff_disj)

lemma granted_now:
  assumes "tb_lastFill b = t" "0 \<le> k" "k \<le> 2 ^ 53" "tb_tokens b \<le> of_int k"
  shows "int (fst (granted b (replicate n t))) \<le> k"
  using assms
proof (induction n arbitrary: b k)
  case (Suc n)
  note R = refill_now [OF Suc.prems]
  show ?case
  proof (cases "tb_tokens (refill b t) < 1")
    case True
    then have A: "Allow b t = (False, refill b t)" by (simp add: Allow_def Let_def)
    have "int (fst (granted (refill b t) (replicate n t))) \<le> k"
      by (rule Suc.IH) (use Suc.prems R in \<open>simp_all add: refill_def Let_def\<close>)
    then show ?thesis by (simp add: A split_beta)
  next
    case False
    let ?b = "(refill b t)\<lparr>tb_tokens := fsub (tb_tokens (refill b t)) 1\<rparr>"
    from False have A: "Allow b t = (True, ?b)" by (simp add: Allow_def Let_def)
    have "1 \<le> k" using False R by (metis not_less of_int_1_le_iff order_trans)
    moreover have "tb_tokens ?b \<le> of_int (k - 1)"
      using f64.le_int [of "k - 1" "tb_tokens (refill b t) - 1"] R Suc.prems(3) \<open>1 \<le> k\<close>
      by (simp add: fsub_def)
    ultimately have "int (fst (granted ?b (replicate n t))) \<le> k - 1"
      by (intro Suc.IH) (use Suc.prems in \<open>simp_all add: refill_def Let_def\<close>)
    then show ?thesis by (simp add: A split_beta)
  qed
qed simp

lemma granted_burst:
  assumes "bucket_ok r b" "tb_lastFill b \<le> t"
  shows "int (fst (granted b (replicate n t))) \<le> 2 * r"
proof (cases n)
  case 0
  then show ?thesis using assms(1) by (simp add: bucket_ok_def)
next
  case (Suc n')
  note R = bucket_ok_refill [OF assms]
  show ?thesis
  proof (cases "tb_tokens (refill b t) < 1")
    case True
    then have "Allow b t = (False, refill b t)" by (simp add: Allow_def Let_def)
    moreover have "int (fst (granted (refill b t) (replicate n' t))) \<le> 2 * r"
      using R by (intro granted_now) (simp_all add: bucket_ok_def, simp add: refill_def Let_def)
    ultimately show ?thesis by (simp add: Suc split_beta)
  next
    case False
    let ?b = "(refill b t)\<lparr>tb_tokens := fsub (tb_tokens (refill b t)) 1\<rparr>"
    have "tb_tokens ?b \<le> of_int (2 * r - 1)"
      using f64.le_int [of "2 * r - 1" "tb_tokens (refill b t) - 1"] R
      by (simp add: fsub_def bucket_ok_def)
    then have "int (fst (granted ?b (replicate n' t))) \<le> 2 * r - 1"
      using R by (intro granted_now) (simp_all add: bucket_ok_def, simp add: refill_def Let_def)
    moreover have "Allow b t = (True, ?b)" using False by (simp add: Allow_def Let_def)
    ultimately show ?thesis by (simp add: Suc split_beta)
  qed
qed

lemma lastFill_granted:
  "sorted (tb_lastFill b # ts @ [t]) \<Longrightarrow> tb_lastFill (snd (granted b ts)) \<le> t"
  by (induction ts arbitrary: b) (auto simp: split_beta Let_def)

text \<open>
  Property C17: the rate limit bounds every burst. After any calls at times that do
  not go backwards, no number of calls at one further instant is granted more than
  twice the rate, and the bucket never holds a negative number of tokens or more than
  twice the rate, in float64 arithmetic.
\<close>

theorem bucket_burst_bound:
  assumes "0 < r" and "2 * r \<le> 2 ^ 53" and "sorted (start # ts @ [t])"
    and "b = snd (granted (newTokenBucket r start) ts)"
  shows "int (fst (granted b (replicate n t))) \<le> 2 * r
     \<and> 0 \<le> tb_tokens b \<and> tb_tokens b \<le> of_int (2 * r)"
proof -
  have fill: "tb_lastFill (newTokenBucket r start) = start" by (simp add: newTokenBucket_def Let_def)
  have ok: "bucket_ok r b"
    unfolding assms(4) by (rule bucket_ok_granted [OF bucket_ok_new [OF assms(1,2)]])
      (use assms(3) in \<open>simp add: fill sorted_append\<close>)
  moreover have "tb_lastFill b \<le> t"
    unfolding assms(4) by (rule lastFill_granted) (use assms(3) in \<open>simp add: fill\<close>)
  ultimately show ?thesis using granted_burst by (simp add: bucket_ok_def)
qed

theorem bucket_burst_bound_witness:
  "int (fst (granted (snd (granted (newTokenBucket 5000 0) [1000, 2000])) (replicate 20000 3000))) \<le> 10000"
  using bucket_burst_bound [of 5000 0 "[1000, 2000]" 3000, OF _ _ _ refl, of 20000] by simp

text \<open>The first burst of a stream: exactly the rate is granted.\<close>

lemma granted_fresh:
  assumes "tb_lastFill b = t" "k \<le> 2 ^ 53" "tb_tokens b = of_int (int k)" "of_int (int k) \<le> tb_max b"
  shows "fst (granted b (replicate n t)) = min n k"
  using assms
proof (induction n arbitrary: b k)
  case (Suc n)
  have R: "refill b t = b"
    using Suc.prems f64.exact_int [of "int k"]
    by (intro tokenBucket.equality) (simp_all add: refill_def Let_def Seconds_zero fmul_def fadd_def min_absorb2)
  show ?case
  proof (cases k)
    case 0
    then have "Allow b t = (False, b)" using R Suc.prems by (simp add: Allow_def)
    with Suc.IH [OF Suc.prems] 0 show ?thesis by (simp add: split_beta)
  next
    case (Suc k')
    let ?b = "b\<lparr>tb_tokens := fsub (tb_tokens b) 1\<rparr>"
    have "Allow b t = (True, ?b)" using R Suc Suc.prems by (simp add: Allow_def Let_def)
    moreover have "fst (granted ?b (replicate n t)) = min n k'"
      by (rule Suc.IH) (use Suc Suc.prems f64.exact_int [of "int k'"] in \<open>simp_all add: fsub_def\<close>)
    ultimately show ?thesis by (simp add: split_beta Suc)
  qed
qed simp

lemma newTokenBucket_burst:
  assumes "0 < r" "2 * r \<le> 2 ^ 53"
  shows "fst (granted (newTokenBucket r t) (replicate n t)) = min n (nat r)"
proof (rule granted_fresh)
  have "float_of_int r = of_int r" "fmul (of_int r) 2 = of_int (2 * r)"
    using assms f64.exact_int [of "2 * r"] by (simp_all add: float_of_int_exact fmul_def mult.commute)
  then show "tb_tokens (newTokenBucket r t) = of_int (int (nat r))"
    "of_int (int (nat r)) \<le> tb_max (newTokenBucket r t)"
    using assms by (simp_all add: newTokenBucket_def Let_def)
qed (use assms in \<open>simp_all add: newTokenBucket_def Let_def\<close>)

end
