(* ===== verification/Stream_Client.thy ===== *)
theory Stream_Client
  imports Stream
begin

text \<open>
  The client of the metadata stream (\<^verbatim>\<open>internal/stream/client.go\<close>) and the sender of the agent
  that drives it (\<^verbatim>\<open>runStreamSender\<close> of \<^verbatim>\<open>cmd/reflector/main.go\<close>). The gRPC library is a
  parameter: whether dialling, opening a stream and sending succeed are arguments, and the
  connections it holds are handles. The machine \<open>sender_step\<close> is the protocol without the
  client; the sender with its client refines it.
\<close>

section \<open>The protocol of the sender\<close>

definition min_duration :: "duration \<Rightarrow> duration \<Rightarrow> duration" where
  "min_duration a b = (if a < b then a else b)"

definition maxBackoff :: duration where "maxBackoff = 30 * Second"

text \<open>
  \<^verbatim>\<open>runStreamSender\<close> as its peer sees it: it waits to connect or is connected; an input is the
  result of a connect or of sending an event, an output is what it sends or how long it
  waits. An input that does not fit the state does not occur and is ignored.
\<close>

datatype sender_state = Connecting duration | Connected duration

datatype sender_input = ConnectFailed | ConnectOk | SendFailed ReflectorEvent | SendOk ReflectorEvent

datatype sender_output = Wait duration | Resumed | Sent ReflectorEvent | Lost ReflectorEvent

fun sender_step :: "sender_state \<Rightarrow> sender_input \<Rightarrow> sender_state \<times> sender_output list" where
  "sender_step (Connecting backoff) ConnectFailed =
     (Connecting (min_duration (backoff * 2) maxBackoff), [Wait backoff])"
| "sender_step (Connecting backoff) ConnectOk = (Connected Second, [Resumed])"
| "sender_step (Connected backoff) (SendOk ev) = (Connected backoff, [Sent ev])"
| "sender_step (Connected backoff) (SendFailed ev) =
     (Connecting (min_duration (backoff * 2) maxBackoff), [Lost ev, Wait backoff])"
| "sender_step (Connecting backoff) (SendOk ev) = (Connecting backoff, [])"
| "sender_step (Connecting backoff) (SendFailed ev) = (Connecting backoff, [])"
| "sender_step (Connected backoff) ConnectOk = (Connected backoff, [])"
| "sender_step (Connected backoff) ConnectFailed = (Connected backoff, [])"

definition sender_start :: sender_state where "sender_start = Connecting Second"

fun sender_run :: "sender_state \<Rightarrow> sender_input list \<Rightarrow> sender_state \<times> sender_output list" where
  "sender_run s [] = (s, [])"
| "sender_run s (i # is) =
     (let (s1, o1) = sender_step s i; (s2, o2) = sender_run s1 is in (s2, o1 @ o2))"

section \<open>The client\<close>

text \<open>The connections of gRPC that have not been closed.\<close>

record Net =
  nt_next :: nat
  nt_live :: "nat list"

record Client =
  cl_addr :: string
  cl_nodeID :: string
  cl_tlsCfg :: TLSConfig
  cl_conn :: "nat option"
  cl_stream :: "nat option"

definition NewClientTLS :: "string \<Rightarrow> string \<Rightarrow> TLSConfig \<Rightarrow> Client" where
  "NewClientTLS addr nodeID tlsCfg =
     \<lparr>cl_addr = addr, cl_nodeID = nodeID, cl_tlsCfg = tlsCfg, cl_conn = None, cl_stream = None\<rparr>"

definition NewClient :: "string \<Rightarrow> string \<Rightarrow> Client" where
  "NewClient addr nodeID =
     \<lparr>cl_addr = addr, cl_nodeID = nodeID, cl_tlsCfg = \<lparr>tc_CACertFile = [], tc_CertFile = [], tc_KeyFile = []\<rparr>,
      cl_conn = None, cl_stream = None\<rparr>"

datatype credentials = Insecure | MutualTLS string

definition closeConn :: "nat \<Rightarrow> Net \<Rightarrow> Net" where
  "closeConn h net = net\<lparr>nt_live := removeAll h (nt_live net)\<rparr>"

text \<open>
  \<^verbatim>\<open>Connect\<close>: the results of building the credentials, of creating the connection and
  of opening the stream (an error text or none) are the arguments.
\<close>

definition Connect ::
  "(TLSConfig \<Rightarrow> string \<Rightarrow> string option) \<Rightarrow> (string \<Rightarrow> credentials \<Rightarrow> string option)
   \<Rightarrow> (credentials \<Rightarrow> string option) \<Rightarrow> Client \<Rightarrow> Net \<Rightarrow> Client \<times> Net \<times> string option" where
  "Connect clientCredentials newClient openStream c net =
     (case (if Enabled (cl_tlsCfg c) then clientCredentials (cl_tlsCfg c) ''reflector-map'' else None) of
        Some err \<Rightarrow> (c, net, Some (''building mTLS credentials: '' @ err))
      | None \<Rightarrow>
        (let creds = (if Enabled (cl_tlsCfg c) then MutualTLS ''reflector-map'' else Insecure) in
         case newClient (cl_addr c) creds of
           Some err \<Rightarrow> (c, net, Some (''connecting to sidecar at '' @ cl_addr c @ '': '' @ err))
         | None \<Rightarrow>
           (let h = nt_next net; net1 = net\<lparr>nt_next := Suc h, nt_live := h # nt_live net\<rparr>;
                c1 = c\<lparr>cl_conn := Some h\<rparr> in
            case openStream creds of
              Some err \<Rightarrow> (c1, closeConn h net1, Some (''opening stream: '' @ err))
            | None \<Rightarrow> (c1\<lparr>cl_stream := Some h\<rparr>, net1, None))))"

text \<open>\<^verbatim>\<open>Send\<close>: the event handed to the transport (if any) and the error (if any).\<close>

definition Send ::
  "Client \<Rightarrow> (ReflectorEvent \<Rightarrow> string option) \<Rightarrow> ReflectorEvent \<Rightarrow> ReflectorEvent option \<times> string option" where
  "Send c transport ev =
     (if cl_stream c = None then (None, Some ''stream not connected'')
      else let ev1 = ev\<lparr>ev_NodeId := cl_nodeID c\<rparr> in (Some ev1, transport ev1))"

definition SendResumed ::
  "Client \<Rightarrow> (ReflectorEvent \<Rightarrow> string option) \<Rightarrow> ReflectorEvent option \<times> string option" where
  "SendResumed c transport = Send c transport (zero_event\<lparr>ev_EventType := STREAM_RESUMED\<rparr>)"

text \<open>\<^verbatim>\<open>Close\<close> keeps the references of the client; closing a connection again does nothing.\<close>

definition Client_Close :: "Client \<Rightarrow> Net \<Rightarrow> Net" where
  "Client_Close c net = (case cl_conn c of None \<Rightarrow> net | Some h \<Rightarrow> closeConn h net)"

section \<open>The sender with its client\<close>

text \<open>
  One iteration of \<^verbatim>\<open>runStreamSender\<close>: a connect with the results of the transport, or the
  sending of the next event. Cancelling the context ends it: connected, it closes the
  client; waiting, there is nothing to close.
\<close>

record Sender =
  sn_client :: Client
  sn_net :: Net
  sn_state :: sender_state

datatype sender_io =
    TryConnect "TLSConfig \<Rightarrow> string \<Rightarrow> string option" "string \<Rightarrow> credentials \<Rightarrow> string option"
      "credentials \<Rightarrow> string option" "ReflectorEvent \<Rightarrow> string option"
  | TrySend "ReflectorEvent \<Rightarrow> string option" ReflectorEvent

fun runStreamSender :: "Sender \<Rightarrow> sender_io \<Rightarrow> Sender \<times> sender_output list" where
  "runStreamSender s (TryConnect creds dial opn transport) =
     (case sn_state s of
        Connected backoff \<Rightarrow> (s, [])
      | Connecting backoff \<Rightarrow>
        (case Connect creds dial opn (sn_client s) (sn_net s) of
           (c, net, Some err) \<Rightarrow>
             (\<lparr>sn_client = c, sn_net = net, sn_state = Connecting (min_duration (backoff * 2) maxBackoff)\<rparr>, [Wait backoff])
         | (c, net, None) \<Rightarrow>
             (\<lparr>sn_client = c, sn_net = net, sn_state = Connected Second\<rparr>,
              if fst (SendResumed c transport) \<noteq> None then [Resumed] else [])))"
| "runStreamSender s (TrySend transport ev) =
     (case sn_state s of
        Connecting backoff \<Rightarrow> (s, [])
      | Connected backoff \<Rightarrow>
        (case snd (Send (sn_client s) transport ev) of
           None \<Rightarrow> (s, [Sent ev])
         | Some err \<Rightarrow>
             (s\<lparr>sn_net := Client_Close (sn_client s) (sn_net s),
                sn_state := Connecting (min_duration (backoff * 2) maxBackoff)\<rparr>, [Lost ev, Wait backoff])))"

definition sender_cancel :: "Sender \<Rightarrow> Net" where
  "sender_cancel s = (case sn_state s of Connecting backoff \<Rightarrow> sn_net s
     | Connected backoff \<Rightarrow> Client_Close (sn_client s) (sn_net s))"

definition new_sender :: "Client \<Rightarrow> Sender" where
  "new_sender c = \<lparr>sn_client = c, sn_net = \<lparr>nt_next = 0, nt_live = []\<rparr>, sn_state = sender_start\<rparr>"

fun run_sender :: "Sender \<Rightarrow> sender_io list \<Rightarrow> Sender \<times> sender_output list" where
  "run_sender s [] = (s, [])"
| "run_sender s (i # is) =
     (let (s1, o1) = runStreamSender s i; (s2, o2) = run_sender s1 is in (s2, o1 @ o2))"

section \<open>Properties of the protocol\<close>

fun backoff_of :: "sender_state \<Rightarrow> duration" where
  "backoff_of (Connecting d) = d"
| "backoff_of (Connected d) = d"

fun well_announced :: "bool \<Rightarrow> sender_output list \<Rightarrow> bool" where
  "well_announced c [] = True"
| "well_announced c (Resumed # r) = well_announced True r"
| "well_announced c (Wait d # r) = (Second \<le> d \<and> d \<le> maxBackoff \<and> well_announced False r)"
| "well_announced c (Sent ev # r) = (c \<and> well_announced c r)"
| "well_announced c (Lost ev # r) = (c \<and> well_announced c r)"

lemma backoff_step:
  "Second \<le> d \<Longrightarrow> d \<le> maxBackoff \<Longrightarrow>
   Second \<le> min_duration (d * 2) maxBackoff \<and> min_duration (d * 2) maxBackoff \<le> maxBackoff"
  by (auto simp: min_duration_def maxBackoff_def Second_def)

fun is_connected :: "sender_state \<Rightarrow> bool" where
  "is_connected (Connecting d) = False"
| "is_connected (Connected d) = True"

definition sender_ok :: "sender_state \<Rightarrow> bool" where
  "sender_ok s \<longleftrightarrow> Second \<le> backoff_of s \<and> backoff_of s \<le> maxBackoff"

lemma sender_start_ok: "sender_ok sender_start" "Second \<le> maxBackoff"
  by (simp_all add: sender_ok_def sender_start_def maxBackoff_def Second_def)

interpretation sender: component "\<lambda>s i. fst (sender_step s i)" sender_ok
proof
  fix s i
  assume "sender_ok s"
  then show "sender_ok (fst (sender_step s i))"
    using backoff_step sender_start_ok(2)
    by (cases "(s, i)" rule: sender_step.cases) (auto simp: sender_ok_def)
qed

lemma sender_run_announced:
  "sender_ok s \<Longrightarrow> well_announced (is_connected s) (snd (sender_run s is))"
proof (induction "is" arbitrary: s)
  case (Cons i is')
  have "well_announced (is_connected (fst (sender_step s i))) (snd (sender_run (fst (sender_step s i)) is'))"
    by (rule Cons.IH [OF sender.step_inv [OF Cons.prems]])
  then show ?case
    using Cons.prems by (cases "(s, i)" rule: sender_step.cases) (auto simp: sender_ok_def split_beta Let_def)
qed simp

text \<open>
  The sender's protocol. Every wait lies between one and thirty seconds,
  and every event that is sent (or lost on a broken stream) comes after a resumed
  message that followed the last wait: the agent announces a gap before it sends new
  events.
\<close>

lemma sender_protocol: "well_announced False (snd (sender_run sender_start is))"
  using sender_run_announced [OF sender_start_ok(1), of "is"] by (simp add: sender_start_def)

section \<open>Properties of the sender with its client\<close>

text \<open>At most one connection is live: none while connecting, the client's own while connected.\<close>

definition one_connection :: "Sender \<Rightarrow> bool" where
  "one_connection s \<longleftrightarrow>
     (case sn_state s of
        Connecting d \<Rightarrow> nt_live (sn_net s) = []
      | Connected d \<Rightarrow> (\<exists>h. nt_live (sn_net s) = [h] \<and> cl_conn (sn_client s) = Some h \<and> cl_stream (sn_client s) = Some h))"

lemma Connect_live:
  assumes "Connect creds dial opn c net = (c1, net1, r)" "nt_live net = []"
  shows "r \<noteq> None \<Longrightarrow> nt_live net1 = []"
    "r = None \<Longrightarrow> \<exists>h. nt_live net1 = [h] \<and> cl_conn c1 = Some h \<and> cl_stream c1 = Some h"
  using assms by (auto simp: Connect_def closeConn_def Let_def split: option.splits if_splits)

lemma runStreamSender_step:
  assumes "one_connection s"
  shows "one_connection (fst (runStreamSender s io))"
proof (cases io)
  case (TryConnect creds dial opn transport)
  obtain c net r where f: "Connect creds dial opn (sn_client s) (sn_net s) = (c, net, r)"
    by (cases "Connect creds dial opn (sn_client s) (sn_net s)")
  show ?thesis
    using assms Connect_live [OF f] f
    by (cases "sn_state s"; cases r) (auto simp: TryConnect one_connection_def)
next
  case (TrySend transport ev)
  show ?thesis
    using assms by (cases "sn_state s"; cases "snd (Send (sn_client s) transport ev)")
      (auto simp: TrySend one_connection_def Client_Close_def closeConn_def)
qed

interpretation client_sender: component "\<lambda>s io. fst (runStreamSender s io)" one_connection
  by unfold_locales (rule runStreamSender_step)

lemma new_sender_ok: "one_connection (new_sender c)"
  by (simp add: one_connection_def new_sender_def sender_start_def)

text \<open>The input of the protocol that an iteration amounts to.\<close>

fun protocol_input :: "Sender \<Rightarrow> sender_io \<Rightarrow> sender_input" where
  "protocol_input s (TryConnect creds dial opn transport) =
     (if snd (snd (Connect creds dial opn (sn_client s) (sn_net s))) = None then ConnectOk else ConnectFailed)"
| "protocol_input s (TrySend transport ev) =
     (if snd (Send (sn_client s) transport ev) = None then SendOk ev else SendFailed ev)"

lemma runStreamSender_refines:
  assumes "one_connection s"
  shows "sender_step (sn_state s) (protocol_input s io)
    = (sn_state (fst (runStreamSender s io)), snd (runStreamSender s io))"
proof (cases io)
  case (TryConnect creds dial opn transport)
  obtain c net r where f: "Connect creds dial opn (sn_client s) (sn_net s) = (c, net, r)"
    by (cases "Connect creds dial opn (sn_client s) (sn_net s)")
  show ?thesis
  proof (cases "sn_state s")
    case (Connecting d)
    then have "nt_live (sn_net s) = []" using assms by (simp add: one_connection_def)
    from Connect_live [OF f this] show ?thesis
      by (cases r) (auto simp: TryConnect Connecting f SendResumed_def Send_def Let_def)
  qed (simp add: TryConnect)
next
  case (TrySend transport ev)
  show ?thesis
    by (cases "sn_state s"; cases "snd (Send (sn_client s) transport ev)") (auto simp: TrySend)
qed

fun protocol_inputs :: "Sender \<Rightarrow> sender_io list \<Rightarrow> sender_input list" where
  "protocol_inputs s [] = []"
| "protocol_inputs s (io # ios) = protocol_input s io # protocol_inputs (fst (runStreamSender s io)) ios"

lemma run_sender_refines:
  "one_connection s \<Longrightarrow>
   sender_run (sn_state s) (protocol_inputs s ios) = (sn_state (fst (run_sender s ios)), snd (run_sender s ios))"
proof (induction ios arbitrary: s)
  case (Cons io ios)
  from Cons.IH [OF runStreamSender_step [OF Cons.prems, of io]] runStreamSender_refines [OF Cons.prems, of io]
  show ?case by (simp add: split_beta Let_def)
qed simp

lemma run_sender_fst: "fst (run_sender s ios) = foldl (\<lambda>s io. fst (runStreamSender s io)) s ios"
  by (induction ios arbitrary: s) (simp_all add: split_beta Let_def)



section \<open>Without TLS\<close>

lemma Connect_insecure:
  assumes "\<not> Enabled (cl_tlsCfg c)" "\<forall>addr. dial addr Insecure \<noteq> None \<or> opn Insecure \<noteq> None"
    "Connect creds dial opn c net = (c1, net1, r)"
  shows "r \<noteq> None" "cl_tlsCfg c1 = cl_tlsCfg c"
  using assms spec [OF assms(2), of "cl_addr c"] by (auto simp: Connect_def Let_def split: option.splits)

definition refuses_insecure :: "sender_io \<Rightarrow> bool" where
  "refuses_insecure io = (case io of TryConnect creds dial opn transport \<Rightarrow>
     (\<forall>addr. dial addr Insecure \<noteq> None \<or> opn Insecure \<noteq> None) | TrySend transport ev \<Rightarrow> True)"

definition insecure_waiting :: "Sender \<Rightarrow> bool" where
  "insecure_waiting s \<longleftrightarrow> \<not> Enabled (cl_tlsCfg (sn_client s)) \<and> \<not> is_connected (sn_state s)"

lemma insecure_step:
  assumes "insecure_waiting s" "refuses_insecure io"
  shows "insecure_waiting (fst (runStreamSender s io)) \<and> (\<forall>x \<in> set (snd (runStreamSender s io)). \<exists>d. x = Wait d)"
proof (cases io)
  case (TryConnect creds dial opn transport)
  obtain c net r where f: "Connect creds dial opn (sn_client s) (sn_net s) = (c, net, r)"
    by (cases "Connect creds dial opn (sn_client s) (sn_net s)")
  have r: "r \<noteq> None" "cl_tlsCfg c = cl_tlsCfg (sn_client s)"
    using Connect_insecure [OF _ _ f] assms by (auto simp: insecure_waiting_def refuses_insecure_def TryConnect)
  then show ?thesis using assms(1) f by (cases "sn_state s"; cases r) (auto simp: insecure_waiting_def TryConnect)
next
  case (TrySend transport ev)
  then show ?thesis using assms(1) by (cases "sn_state s") (auto simp: insecure_waiting_def)
qed

text \<open>
  A sidecar that requires mutual TLS is out of reach of the agent. The
  agent makes its client without a TLS configuration, so whatever the transport does,
  if it refuses insecure connections, every run consists of waits only: no event is
  ever sent.
\<close>

lemma agent_cannot_use_tls:
  assumes "list_all refuses_insecure ios"
  shows "\<forall>x \<in> set (snd (run_sender (new_sender (NewClient addr nodeID)) ios)). \<exists>d. x = Wait d"
proof -
  have "insecure_waiting s \<Longrightarrow> list_all refuses_insecure ios \<Longrightarrow>
      \<forall>x \<in> set (snd (run_sender s ios)). \<exists>d. x = Wait d" for s
  proof (induction ios arbitrary: s)
    case (Cons io ios)
    with insecure_step [of s io] show ?case by (auto simp: split_beta Let_def)
  qed simp
  moreover have "insecure_waiting (new_sender (NewClient addr nodeID))"
    by (simp add: insecure_waiting_def new_sender_def NewClient_def Enabled_def sender_start_def)
  ultimately show ?thesis using assms by blast
qed

end
