(* ===== verification/Reflector.thy ===== *)
theory Reflector
  imports Identities Metrics Policy Enforce Stream_Client
begin

text \<open>
  The reflector agent, \<^verbatim>\<open>cmd/reflector/main.go\<close>: the conversion of observations to events, one
  round of its connection, TLS and certificate loops with the counters, the bounded event
  channel, the OTLP forwarder, policy check and enforcement. The main property follows
  the events of an agent into the session map of the sidecar.
\<close>

section \<open>Conversions\<close>

definition protocolName :: "u8 \<Rightarrow> string" where
  "protocolName proto = (if proto = 6 then ''TCP'' else if proto = 17 then ''UDP''
     else ''proto/'' @ utoa (unat proto))"

definition connectionEventToProto :: "time \<Rightarrow> ConnectionEvent \<Rightarrow> ReflectorEvent" where
  "connectionEventToProto now ev = zero_event\<lparr>ev_Timestamp := Some now,
     ev_EventType := CONNECTION_OPEN, ev_IdentityType := UNKNOWN,
     ev_SourceAddr := ip_String (ce_SrcIP ev) @ '':'' @ utoa (unat (ce_SrcPort ev)),
     ev_DestAddr := ip_String (ce_DstIP ev) @ '':'' @ utoa (unat (ce_DstPort ev)),
     ev_Protocol := protocolName (ce_Protocol ev), ev_Pid := ce_PID ev\<rparr>"

definition otlpSignalToProto :: "time \<Rightarrow> OTLPSignal \<Rightarrow> u32 \<Rightarrow> ReflectorEvent" where
  "otlpSignalToProto now sig pid = zero_event\<lparr>ev_Timestamp := Some now,
     ev_EventType := DATA_EXCHANGE, ev_IdentityType := OTEL,
     ev_SourceIdentity := ''otel:'' @ os_ServiceName sig, ev_OtelService := os_ServiceName sig,
     ev_OtelSignalType := os_SignalType sig, ev_OtelSpanCount := word_of_nat (os_BatchCount sig),
     ev_Pid := pid\<rparr>"

definition jwtToProto :: "time \<Rightarrow> JWTIdentity \<Rightarrow> u32 \<Rightarrow> ReflectorEvent" where
  "jwtToProto now jwt pid = zero_event\<lparr>ev_Timestamp := Some now, ev_EventType := DATA_EXCHANGE,
     ev_IdentityType := JWT, ev_SourceIdentity := jw_Subject jwt, ev_Pid := pid\<rparr>"

definition mcpToProto :: "time \<Rightarrow> MCPToolCall \<Rightarrow> u32 \<Rightarrow> ReflectorEvent" where
  "mcpToProto now mcp pid = zero_event\<lparr>ev_Timestamp := Some now, ev_EventType := DATA_EXCHANGE,
     ev_IdentityType := MCP, ev_McpToolName := mc_Method mcp, ev_Pid := pid\<rparr>"

definition boundaryToProto :: "time \<Rightarrow> BoundaryToken \<Rightarrow> u32 \<Rightarrow> ReflectorEvent" where
  "boundaryToProto now bt pid = zero_event\<lparr>ev_Timestamp := Some now, ev_EventType := DATA_EXCHANGE,
     ev_IdentityType := JWT, ev_BoundarySessionToken := bt_Raw bt,
     ev_BoundaryTokenType := token_type_string (bt_TokenType bt), ev_Pid := pid\<rparr>"

definition spiffeToProto :: "time \<Rightarrow> SPIFFEIdentity \<Rightarrow> CertMetadata \<Rightarrow> u32 \<Rightarrow> ReflectorEvent" where
  "spiffeToProto now i meta pid =
     (let ev = zero_event\<lparr>ev_Timestamp := Some now, ev_EventType := DATA_EXCHANGE,
            ev_IdentityType := SPIFFE, ev_SourceIdentity := si_Raw i, ev_Pid := pid,
            ev_CertSerial := cm_Serial meta, ev_CertIssuerFingerprint := cm_IssuerFingerprint meta\<rparr>
      in if cm_Expiry meta \<noteq> zero_time then ev\<lparr>ev_CertExpiry := Some (cm_Expiry meta)\<rparr> else ev)"

definition policyViolationToProto :: "time \<Rightarrow> ReflectorEvent \<Rightarrow> string \<Rightarrow> ReflectorEvent" where
  "policyViolationToProto now observed rule = zero_event\<lparr>ev_Timestamp := Some now,
     ev_EventType := POLICY_VIOLATION, ev_IdentityType := SPIFFE,
     ev_SourceIdentity := ev_SourceIdentity observed, ev_SourceAddr := ev_SourceAddr observed,
     ev_DestAddr := ev_DestAddr observed, ev_Pid := ev_Pid observed, ev_PolicyRule := rule\<rparr>"

section \<open>The event loops\<close>

text \<open>
  The agent: its event channel, the deny map if enforcement is on, the counters of the
  connection loop and the metrics.
\<close>

record Agent =
  ag_events :: "ReflectorEvent list"
  ag_deny :: "deny_map option"
  ag_total :: nat
  ag_parsed :: nat
  ag_metrics :: counters

definition channelSize :: nat where "channelSize = 512"

text \<open>A send to the channel that is dropped when the channel is full.\<close>

definition offer :: "Agent \<Rightarrow> ReflectorEvent \<Rightarrow> Agent" where
  "offer a ev = (if length (ag_events a) < channelSize then a\<lparr>ag_events := ag_events a @ [ev]\<rparr> else a)"

definition count_in :: "counter \<Rightarrow> Agent \<Rightarrow> Agent" where
  "count_in c a = a\<lparr>ag_metrics := Inc c (ag_metrics a)\<rparr>"

definition connection_round :: "Agent \<Rightarrow> time \<Rightarrow> bytes \<Rightarrow> Agent" where
  "connection_round a now b =
     (let a1 = count_in (EBPFEventsTotal ''connection'') (a\<lparr>ag_total := Suc (ag_total a)\<rparr>) in
      case ParseEvent b of
        Inl err \<Rightarrow> count_in IdentityExtractionErrorsTotal a1
      | Inr ev \<Rightarrow>
          offer (count_in (ConnectionsObservedTotal ''tcp'') (a1\<lparr>ag_parsed := Suc (ag_parsed a1)\<rparr>))
            (connectionEventToProto now ev))"

text \<open>
  A round of the TLS loop: the forwarder, if there is one, is its endpoint and the HTTP
  client; the result is the agent and the request that was posted. The extractors may panic.
\<close>

type_synonym forwarder = "string \<times> (string \<Rightarrow> bytes \<Rightarrow> string + nat)"

definition forward_signal ::
  "forwarder option \<Rightarrow> Agent \<Rightarrow> OTLPSignal \<Rightarrow> Agent \<times> (string \<times> bytes) option" where
  "forward_signal fwd a sig =
     (case fwd of
        None \<Rightarrow> (a, None)
      | Some (endpoint, post) \<Rightarrow>
        (case Forward endpoint post sig of
           (posted, Some err) \<Rightarrow> (count_in (OTLPForwardErrorsTotal (os_SignalType sig)) a, posted)
         | (posted, None) \<Rightarrow> (count_in (OTLPForwardedTotal (os_SignalType sig)) a, posted)))"

definition otlp_round ::
  "forwarder option \<Rightarrow> Agent \<Rightarrow> time \<Rightarrow> OTLPSignal \<Rightarrow> u32 \<Rightarrow> Agent \<times> (string \<times> bytes) option" where
  "otlp_round fwd a now sig pid =
     (let a1 = count_in (OTLPCapturedTotal (os_SignalType sig)) a;
          a2 = (if os_IsTruncated sig then count_in OTLPTruncatedTotal a1 else a1);
          (a3, posted) = forward_signal fwd a2 sig
      in (offer a3 (otlpSignalToProto now sig pid), posted))"

definition observe :: "string \<Rightarrow> ('a \<Rightarrow> ReflectorEvent) \<Rightarrow> 'a option \<Rightarrow> Agent \<Rightarrow> Agent" where
  "observe label toProto found a =
     (case found of
        None \<Rightarrow> a
      | Some x \<Rightarrow> offer (count_in (IdentitiesExtractedTotal label) a) (toProto x))"

definition tls_round ::
  "(nat \<Rightarrow> nat) \<Rightarrow> protowire \<Rightarrow> forwarder option \<Rightarrow> Agent \<Rightarrow> time \<Rightarrow> bytes
   \<Rightarrow> (Agent \<times> (string \<times> bytes) option) outcome" where
  "tls_round utab pw fwd a now b =
     (let a1 = count_in (EBPFEventsTotal ''tls'') a in
      case ParseTLSDataEvent b of
        Inl err \<Rightarrow> Value (count_in IdentityExtractionErrorsTotal a1, None)
      | Inr ev \<Rightarrow>
        outcome_bind (ExtractIdentitiesFromTLS utab pw (td_Data ev)) (\<lambda>result.
          case ir_OTLP result of
            Some sig \<Rightarrow> Value (otlp_round fwd a1 now sig (td_PID ev))
          | None \<Rightarrow>
              Value (observe ''boundary'' (\<lambda>bt. boundaryToProto now bt (td_PID ev)) (ir_Boundary result)
                (observe ''mcp'' (\<lambda>mcp. mcpToProto now mcp (td_PID ev)) (ir_MCP result)
                (observe ''jwt'' (\<lambda>jwt. jwtToProto now jwt (td_PID ev)) (ir_JWT result) a1)), None)))"

definition enforceTC :: "bool \<Rightarrow> (u32 \<Rightarrow> string option) \<Rightarrow> deny_map \<Rightarrow> u64 \<Rightarrow> u32 \<Rightarrow> deny_map" where
  "enforceTC little procNetTcp m ts pid =
     (case ConnsByPID procNetTcp pid of
        None \<Rightarrow> m
      | Some conns \<Rightarrow> foldl (\<lambda>m c. DenyFlow little m ts (cn_SrcIP c) (cn_DstIP c) (cn_DstPort c)) m conns)"

text \<open>\<^verbatim>\<open>uint64(time.Now().UnixNano())\<close>, from the nanoseconds since the year 1.\<close>

definition UnixNano :: "time \<Rightarrow> u64" where
  "UnixNano t = word_of_int (t - 62135596800 * Second)"

text \<open>The environment of the certificate loop: parser, hash, policy engine, proc files and byte order;
  the readings of the clock within one round are taken to be one.\<close>

record Env =
  env_parseCertificate :: "bytes \<Rightarrow> string + x509Certificate"
  env_sha256 :: "bytes \<Rightarrow> bytes"
  env_engine :: "Input \<Rightarrow> string + rego_value list list"
  env_procNetTcp :: "u32 \<Rightarrow> string option"
  env_little :: bool

definition cert_round :: "Env \<Rightarrow> Agent \<Rightarrow> time \<Rightarrow> bytes \<Rightarrow> Agent" where
  "cert_round env a now b =
     (case ParseCertEvent b of
        Inl err \<Rightarrow> a
      | Inr ev \<Rightarrow>
        (case ParseSPIFFEFromDER (env_parseCertificate env) (cv_DER ev) of
           Inl err \<Rightarrow> a
         | Inr None \<Rightarrow> a
         | Inr (Some i) \<Rightarrow>
           (let meta = fst (ExtractCertMetadataFromDER (env_parseCertificate env) (env_sha256 env) (cv_DER ev));
                protoEv = spiffeToProto now i meta (cv_PID ev);
                a1 = offer (count_in (IdentitiesExtractedTotal ''spiffe'') a) protoEv;
                result = Eval (env_engine env) \<lparr>in_SPIFFEID = si_Raw i, in_SrcAddr = ev_SourceAddr protoEv,
                           in_DstAddr = ev_DestAddr protoEv, in_PID = cv_PID ev\<rparr>
            in if \<not> pr_Allow result then
                 (let a2 = offer (count_in (IdentitiesExtractedTotal ''policy_violation'') a1) (policyViolationToProto now protoEv (pr_Reason result)) in
                  case ag_deny a2 of
                    None \<Rightarrow> a2
                  | Some m \<Rightarrow> a2\<lparr>ag_deny := Some (enforceTC (env_little env) (env_procNetTcp env) m
                                                  (UnixNano now) (cv_PID ev))\<rparr>)
               else a1)))"

section \<open>Properties of the agent\<close>

lemma offer_bound: "length (ag_events a) \<le> channelSize \<Longrightarrow> length (ag_events (offer a ev)) \<le> channelSize"
  by (simp add: offer_def)

lemma offer_deny [simp]: "ag_deny (offer a ev) = ag_deny a" "ag_deny (count_in c a) = ag_deny a"
  by (simp_all add: offer_def count_in_def)

lemma count_events [simp]: "ag_events (count_in c a) = ag_events a"
  by (simp add: count_in_def)

text \<open>
  Property C15: only untrusted identities are enforced against. Under the default
  policy, a round of the certificate loop changes the deny map only if the bytes
  decode to a certificate with a SPIFFE identity outside the trust domain
  cluster.local, and enforcement is on; the event channel never exceeds its capacity.
\<close>

theorem cert_enforcement:
  assumes "runs_default (env_engine env)" and "length (ag_events a) \<le> channelSize"
  shows "length (ag_events (cert_round env a now b)) \<le> channelSize
     \<and> (ag_deny (cert_round env a now b) \<noteq> ag_deny a \<longrightarrow>
        (\<exists>ev i m. ParseCertEvent b = Inr ev
           \<and> ParseSPIFFEFromDER (env_parseCertificate env) (cv_DER ev) = Inr (Some i)
           \<and> \<not> HasPrefix (si_Raw i) ''spiffe://cluster.local/'' \<and> ag_deny a = Some m
           \<and> ag_deny (cert_round env a now b)
               = Some (enforceTC (env_little env) (env_procNetTcp env) m (UnixNano now) (cv_PID ev))))"
proof -
  have trusted: "pr_Allow (Eval (env_engine env) j)"
    if "HasPrefix (in_SPIFFEID j) ''spiffe://cluster.local/''" for j
    using that Eval_default [OF assms(1), of j] HasPrefix_length [OF that] by auto
  show ?thesis
    using assms(2) trusted
    by (auto simp: cert_round_def Let_def intro!: offer_bound
        split: sum.splits option.splits if_splits)
qed

theorem cert_enforcement_witness:
  "length (ag_events (cert_round
     \<lparr>env_parseCertificate = \<lambda>der. Inl ''bad'', env_sha256 = \<lambda>x. x, env_engine = \<lambda>i. Inr [[policy_result i]],
      env_procNetTcp = \<lambda>pid. None, env_little = True\<rparr>
     \<lparr>ag_events = [], ag_deny = Some Map.empty, ag_total = 0, ag_parsed = 0, ag_metrics = \<lambda>c. 0\<rparr> 0 [])) \<le> 512"
  using cert_enforcement [of
     "\<lparr>env_parseCertificate = \<lambda>der. Inl ''bad'', env_sha256 = \<lambda>x. x, env_engine = \<lambda>i. Inr [[policy_result i]],
       env_procNetTcp = \<lambda>pid. None, env_little = True\<rparr>"
     "\<lparr>ag_events = [], ag_deny = Some Map.empty, ag_total = 0, ag_parsed = 0, ag_metrics = \<lambda>c. 0\<rparr>" 0 "[]"]
  by (simp add: runs_default_def channelSize_def)

section \<open>From the agent to the session map\<close>

text \<open>
  The events an agent emits: those of its loops, and the resumed message of its client;
  the client and the sidecar may set the node afterwards.
\<close>

inductive agent_event :: "ReflectorEvent \<Rightarrow> bool" where
  conn: "agent_event (connectionEventToProto now ce)"
| otlp: "agent_event (otlpSignalToProto now sig pid)"
| jwt: "agent_event (jwtToProto now token pid)"
| mcp: "agent_event (mcpToProto now call pid)"
| boundary: "agent_event (boundaryToProto now bt pid)"
| spiffe: "agent_event (spiffeToProto now i meta pid)"
| violation: "agent_event ev \<Longrightarrow> agent_event (policyViolationToProto now ev rule)"
| resumed: "agent_event (zero_event\<lparr>ev_EventType := STREAM_RESUMED\<rparr>)"
| node: "agent_event ev \<Longrightarrow> agent_event (ev\<lparr>ev_NodeId := n\<rparr>)"

datatype agent_input = ConnBytes time bytes | CertBytes Env time bytes
  | TlsBytes "nat \<Rightarrow> nat" protowire "forwarder option" time bytes

fun agent_step :: "Agent \<Rightarrow> agent_input \<Rightarrow> Agent" where
  "agent_step a (ConnBytes now b) = connection_round a now b"
| "agent_step a (CertBytes env now b) = cert_round env a now b"
| "agent_step a (TlsBytes utab pw fwd now b) =
     (case tls_round utab pw fwd a now b of Value (a1, posted) \<Rightarrow> a1 | _ \<Rightarrow> a)"

definition agent_ok :: "Agent \<Rightarrow> bool" where
  "agent_ok a \<longleftrightarrow> length (ag_events a) \<le> channelSize \<and> (\<forall>ev \<in> set (ag_events a). agent_event ev)"

lemma offer_ok: "agent_ok a \<Longrightarrow> agent_event ev \<Longrightarrow> agent_ok (offer a ev)"
  by (auto simp: agent_ok_def offer_def)

lemma agent_ok_frame [simp]:
  "agent_ok (a\<lparr>ag_total := n\<rparr>) = agent_ok a" "agent_ok (a\<lparr>ag_parsed := n\<rparr>) = agent_ok a"
  "agent_ok (a\<lparr>ag_deny := d\<rparr>) = agent_ok a" "agent_ok (count_in c a) = agent_ok a"
  by (simp_all add: agent_ok_def count_in_def)

lemma observe_ok: "agent_ok a \<Longrightarrow> (\<And>x. agent_event (f x)) \<Longrightarrow> agent_ok (observe label f found a)"
  by (auto simp: observe_def intro!: offer_ok split: option.split)

lemma otlp_round_ok: "agent_ok a \<Longrightarrow> agent_ok (fst (otlp_round fwd a now sig pid))"
  by (auto simp: otlp_round_def forward_signal_def Let_def intro!: offer_ok agent_event.intros
      split: option.split prod.split)

lemma tls_round_ok: "agent_ok a \<Longrightarrow> tls_round utab pw fwd a now b = Value (a1, posted) \<Longrightarrow> agent_ok a1"
  by (auto simp: tls_round_def outcome_bind_Value Let_def split: sum.splits option.splits
      intro!: observe_ok agent_event.intros otlp_round_ok) (metis agent_ok_frame(4) fst_conv otlp_round_ok)

interpretation agent: component agent_step agent_ok
proof
  fix a i
  assume "agent_ok a"
  then show "agent_ok (agent_step a i)"
    by (cases i) (auto simp: connection_round_def cert_round_def Let_def intro!: offer_ok agent_event.intros
        split: sum.splits option.splits outcome.splits dest: tls_round_ok)
qed

definition plain_protocol :: "string \<Rightarrow> bool" where
  "plain_protocol p \<longleftrightarrow> p \<noteq> [] \<and> last p \<noteq> CHR ''|''"

lemma protocolName_plain: "plain_protocol (protocolName proto)"
  using last_utoa [of "unat proto"]
  by (auto simp: plain_protocol_def protocolName_def is_digit_def)

text \<open>What the events of an agent have in common, as far as the session map reads them.\<close>

definition agent_shape :: "ReflectorEvent \<Rightarrow> bool" where
  "agent_shape ev \<longleftrightarrow>
     (ev_EventType ev = CONNECTION_OPEN \<and> fst (pickIdentity ev) = [] \<and> plain_protocol (ev_Protocol ev))
   \<or> (ev_EventType ev = DATA_EXCHANGE \<and> ev_Protocol ev = [])
   \<or> ev_EventType ev \<in> {STREAM_RESUMED, POLICY_VIOLATION}"

lemma agent_event_shape: "agent_event ev \<Longrightarrow> agent_shape ev"
  by (induction rule: agent_event.induct)
     (auto simp: agent_shape_def connectionEventToProto_def otlpSignalToProto_def jwtToProto_def
       mcpToProto_def boundaryToProto_def spiffeToProto_def policyViolationToProto_def Let_def
       zero_event_def pickIdentity_def protocolName_plain)

definition anonymous :: "SessionMap \<Rightarrow> bool" where
  "anonymous m \<longleftrightarrow> (\<forall>(k, e) \<in> set (entries m). en_Identity e = [] \<and> plain_protocol k)"

lemma plain_key: "plain_protocol (eventKey ev) \<longleftrightarrow> plain_protocol (ev_Protocol ev)"
  by (auto simp: plain_protocol_def eventKey_def connectionKey_def)

lemma anonymous_evict: "anonymous m \<Longrightarrow> anonymous (evictOldest m)"
  by (auto simp: anonymous_def evictOldest_def Let_def set_delete split: prod.splits if_splits)

lemma anonymous_update:
  "map_inv m \<Longrightarrow> anonymous m \<Longrightarrow> en_Identity e = [] \<Longrightarrow> plain_protocol k \<Longrightarrow>
   anonymous (m\<lparr>entries := AList.update k e (entries m)\<rparr>)"
  by (auto simp: anonymous_def set_update_distinct dest!: map_invD(1))

lemma anonymous_open:
  assumes "map_inv m" "anonymous m" "fst (pickIdentity ev) = []" "plain_protocol (ev_Protocol ev)"
  shows "anonymous (handleOpen m ev now)"
  using assms
  by (auto simp: handleOpen_def Let_def split_beta plain_key
      intro!: anonymous_update map_inv_evictOldest anonymous_evict)

lemma anonymous_data:
  assumes "anonymous m" "ev_Protocol ev = []"
  shows "handleData m wall ev now = m"
proof -
  have "\<not> plain_protocol (eventKey ev)" by (simp add: plain_key assms(2)) (simp add: plain_protocol_def)
  then have "map_of (entries m) (eventKey ev) = None"
    using assms(1) by (auto simp: map_of_eq_None_iff anonymous_def)
  then show ?thesis by (simp add: handleData_def)
qed

lemma sweep_entry_identity: "sweep_entry c d e = Some e' \<Longrightarrow> en_Identity e' = en_Identity e"
  by (auto simp: sweep_entry_def split: if_splits)

lemma anonymous_Sweep: "anonymous m \<Longrightarrow> anonymous (Sweep m now)"
  by (auto simp: anonymous_def set_Sweep sweep_entry_identity)

lemma anonymous_event:
  assumes "map_inv m" "anonymous m" "agent_shape ev"
  shows "anonymous (HandleEvent m wall ev)"
proof -
  have "anonymous (markStaleFromNode m n)" for n
    using assms(2) by (auto simp: anonymous_def markStaleFromNode_def)
  with assms anonymous_data [OF assms(2)] show ?thesis
    by (auto simp: agent_shape_def HandleEvent_def Let_def intro: anonymous_open)
qed

fun from_agent :: "map_input \<Rightarrow> bool" where
  "from_agent (Event wall ev) = agent_event ev"
| "from_agent (Tick now) = True"

lemma anonymous_run:
  "map_inv m \<Longrightarrow> anonymous m \<Longrightarrow> list_all from_agent is \<Longrightarrow> anonymous (foldl map_input_step m is)"
proof (induction "is" arbitrary: m)
  case (Cons i is')
  have "anonymous (map_input_step m i)"
    using Cons.prems by (cases i) (auto intro: anonymous_event agent_event_shape anonymous_Sweep)
  with Cons sm.step_inv [OF Cons.prems(1)] show ?case by simp
qed simp

lemma anonymous_Lookup:
  assumes "anonymous m"
  shows "at_Confidence (Lookup m wall pid src dst) = ''jwt-only''"
  using Lookup_cases [of wall pid src dst m] assms by (auto simp: newest_def anonymous_def)

text \<open>
  Property C12: the identities an agent extracts never reach the session table. Whatever
  events agents emit, for whatever nodes and with whatever sweeps in between, every
  entry of the sidecar's table has an empty identity, and every attestation lookup
  answers jwt-only. The events that carry an identity have neither addresses nor a
  protocol, so their key matches no connection the agent opened, and the violation
  events are not handled by the session map.
\<close>

theorem agent_identity_never_stored:
  assumes "list_all from_agent is" and "m = foldl map_input_step (NewMap ttl) is"
  shows "(\<forall>(k, e) \<in> set (entries m). en_Identity e = [])
     \<and> at_Confidence (Lookup m wall pid src dst) = ''jwt-only''"
proof -
  have "anonymous (NewMap ttl)" by (simp add: anonymous_def NewMap_def)
  then have "anonymous m" using anonymous_run [OF map_inv_NewMap _ assms(1)] assms(2) by simp
  then show ?thesis by (auto intro: anonymous_Lookup) (auto simp: anonymous_def)
qed

definition sample_conn :: ConnectionEvent where
  "sample_conn = \<lparr>ce_Timestamp = 0, ce_PID = 7, ce_TID = 7, ce_SrcIP = [], ce_DstIP = [], ce_SrcPort = 1,
     ce_DstPort = 2, ce_Protocol = 6, ce_Type = conn_type_Other 9, ce_Family = AF_Other 9\<rparr>"

theorem agent_identity_never_stored_witness:
  "at_Confidence (Lookup (foldl map_input_step (NewMap 60)
     [Event 0 (connectionEventToProto 1 sample_conn),
      Event 1 (jwtToProto 1 \<lparr>jw_Subject = ''alice'', jw_Issuer = [], jw_Audience = [], jw_Claims = []\<rparr> 7),
      Tick 2]) 2 7 '':1'' '':2'') = ''jwt-only''"
  using agent_identity_never_stored [OF _ refl, of
     "[Event 0 (connectionEventToProto 1 sample_conn),
       Event 1 (jwtToProto 1 \<lparr>jw_Subject = ''alice'', jw_Issuer = [], jw_Audience = [], jw_Claims = []\<rparr> 7),
       Tick 2]" 60 2 7 "'':1''" "'':2''"]
  by (simp add: agent_event.intros del: foldl.simps)

end
