(* ===== verification/Agent_Stream.thy ===== *)
theory Agent_Stream
  imports Reflector
begin

text \<open>
  The TLS loop of the agent and the stream it feeds: what a round reports, the balance of
  the counters, and what happens to an event that the stream cannot encode.
\<close>

section \<open>What a round reports\<close>

definition identity_events :: "time \<Rightarrow> u32 \<Rightarrow> IdentityResult \<Rightarrow> ReflectorEvent list" where
  "identity_events now pid r =
     (case ir_OTLP r of
        Some sig \<Rightarrow> [otlpSignalToProto now sig pid]
      | None \<Rightarrow> map (\<lambda>j. jwtToProto now j pid) (case ir_JWT r of None \<Rightarrow> [] | Some j \<Rightarrow> [j])
          @ map (\<lambda>c. mcpToProto now c pid) (case ir_MCP r of None \<Rightarrow> [] | Some c \<Rightarrow> [c])
          @ map (\<lambda>t. boundaryToProto now t pid) (case ir_Boundary r of None \<Rightarrow> [] | Some t \<Rightarrow> [t]))"

lemma offer_events: "ag_events (offer a ev) = take channelSize (ag_events a @ [ev])"
  if "length (ag_events a) \<le> channelSize"
  using that by (simp add: offer_def)

lemma observe_events:
  "length (ag_events a) \<le> channelSize \<Longrightarrow>
   ag_events (observe label f found a)
     = take channelSize (ag_events a @ map f (case found of None \<Rightarrow> [] | Some x \<Rightarrow> [x]))"
  by (auto simp: observe_def offer_events split: option.split)

lemma observe_bound: "length (ag_events a) \<le> channelSize \<Longrightarrow> length (ag_events (observe label f found a)) \<le> channelSize"
  by (simp add: observe_events)

lemma forward_events [simp]: "ag_events (fst (forward_signal fwd a sig)) = ag_events a"
  by (auto simp: forward_signal_def split: option.split prod.split)

lemma take_take_append: "take n (take n xs @ ys) = take n (xs @ ys)"
  by (simp add: min_def)

text \<open>
  A round of the TLS loop reports what the extractors found. For every
  captured record that decodes and is extracted without a panic, the events appended
  to the channel are exactly one event per identity found, in the order JWT, tool
  call, Boundary token (or the one OTLP event), cut where the channel is full; and a
  request is posted only for an OTLP signal when a forwarder is configured.
\<close>

lemma tls_round_events:
  assumes "ParseTLSDataEvent b = Inr ev" and "ExtractIdentitiesFromTLS utab pw (td_Data ev) = Value r"
    and "length (ag_events a) \<le> channelSize"
  shows "\<exists>a1 posted. tls_round utab pw fwd a now b = Value (a1, posted)
     \<and> ag_events a1 = take channelSize (ag_events a @ identity_events now (td_PID ev) r)
     \<and> (posted \<noteq> None \<longrightarrow> ir_OTLP r \<noteq> None \<and> fwd \<noteq> None)"
proof (cases "ir_OTLP r")
  case None
  then show ?thesis
    using assms by (simp add: tls_round_def Let_def observe_events observe_bound take_take_append identity_events_def
        del: take_append)
next
  case (Some sig)
  let ?o = "otlp_round fwd (count_in (EBPFEventsTotal ''tls'') a) now sig (td_PID ev)"
  have "ag_events (fst ?o) = take channelSize (ag_events a @ identity_events now (td_PID ev) r)"
    using assms(3) Some by (simp add: otlp_round_def Let_def split_beta offer_events identity_events_def)
  moreover have "snd ?o \<noteq> None \<longrightarrow> fwd \<noteq> None"
    by (auto simp: otlp_round_def Let_def split_beta forward_signal_def split: option.splits prod.splits)
  ultimately show ?thesis
    using assms(1,2) Some by (cases ?o) (simp add: tls_round_def Let_def)
qed

text \<open>The packed C struct of the TLS program, for data that fits its buffer.\<close>

definition put_TLSDataEvent :: "u32 \<Rightarrow> bytes \<Rightarrow> bytes" where
  "put_TLSDataEvent pid d = put64 0 @ put32 pid @ put32 0 @ put32 (word_of_nat (length d))
     @ put32 (word_of_nat (length d)) @ put8 0 @ replicate 3 (CHR 0x00) @ d
     @ replicate (MaxCaptureBytes - length d) (CHR 0x00)"

lemma parse_put_TLS:
  assumes "length d \<le> MaxCaptureBytes"
  obtains ev where "ParseTLSDataEvent (put_TLSDataEvent pid d) = Inr ev" "td_Data ev = d" "td_PID ev = pid"
proof -
  let ?b = "put_TLSDataEvent pid d"
  have len: "length ?b = TLSDataEventSize" using assms by (simp add: put_TLSDataEvent_def TLSDataEventSize_def)
  have f: "slice ?b 16 20 = put32 (word_of_nat (length d))" "slice ?b 8 12 = put32 pid"
    by (simp_all add: put_TLSDataEvent_def slice_def)
  have "capped MaxCaptureBytes (word_of_nat (length d)) = (word_of_nat (length d) :: u32)"
    using assms by (simp add: capped_def unat_of_nat MaxCaptureBytes_def)
  moreover have "unat (word_of_nat (length d) :: u32) = length d"
    using assms by (simp add: unat_of_nat MaxCaptureBytes_def)
  moreover have "slice ?b 28 (28 + length d) = d" by (simp add: put_TLSDataEvent_def slice_def)
  ultimately show ?thesis
    using that by (simp add: ParseTLSDataEvent_def len Let_def f)
qed

section \<open>The counters\<close>

definition metrics_ok :: "Agent \<Rightarrow> bool" where
  "metrics_ok a \<longleftrightarrow>
     ag_metrics a (EBPFEventsTotal ''connection'') = ag_total a
   \<and> ag_metrics a (ConnectionsObservedTotal ''tcp'') = ag_parsed a
   \<and> ag_parsed a \<le> ag_total a
   \<and> ag_total a \<le> ag_parsed a + ag_metrics a IdentityExtractionErrorsTotal
   \<and> ag_metrics a EventsDroppedTotal = 0 \<and> ag_metrics a StreamReconnectsTotal = 0
   \<and> (\<forall>s. ag_metrics a (OTLPForwardedTotal s) + ag_metrics a (OTLPForwardErrorsTotal s)
          \<le> ag_metrics a (OTLPCapturedTotal s))"

lemma metrics_frame [simp]:
  "metrics_ok (offer a ev) = metrics_ok a" "metrics_ok (a\<lparr>ag_deny := d\<rparr>) = metrics_ok a"
  "metrics_ok (count_in (IdentitiesExtractedTotal l) a) = metrics_ok a"
  "metrics_ok (count_in (EBPFEventsTotal ''tls'') a) = metrics_ok a"
  "metrics_ok (count_in OTLPTruncatedTotal a) = metrics_ok a"
  by (simp_all add: metrics_ok_def offer_def count_in_def)

lemma metrics_error: "metrics_ok a \<Longrightarrow> metrics_ok (count_in IdentityExtractionErrorsTotal a)"
  by (simp add: metrics_ok_def count_in_def)

lemma metrics_observe: "metrics_ok a \<Longrightarrow> metrics_ok (observe label f found a)"
  by (simp add: observe_def split: option.split)

lemma metrics_connection: "metrics_ok a \<Longrightarrow> metrics_ok (connection_round a now b)"
  by (auto simp: connection_round_def Let_def metrics_ok_def count_in_def offer_def split: sum.split)

lemma metrics_otlp:
  assumes "metrics_ok a"
  shows "metrics_ok (fst (otlp_round fwd a now sig pid))"
proof -
  let ?c = "OTLPCapturedTotal (os_SignalType sig)"
  define a2 where "a2 = (if os_IsTruncated sig then count_in OTLPTruncatedTotal (count_in ?c a) else count_in ?c a)"
  have "metrics_ok (fst (forward_signal fwd a2 sig))"
    using assms
    by (auto simp: forward_signal_def a2_def metrics_ok_def count_in_def Inc_other le_SucI split: option.split prod.split)
  then show ?thesis by (simp add: otlp_round_def Let_def split_beta a2_def)
qed

lemma metrics_tls: "metrics_ok a \<Longrightarrow> tls_round utab pw fwd a now b = Value (a1, posted) \<Longrightarrow> metrics_ok a1"
  using metrics_otlp [of "count_in (EBPFEventsTotal ''tls'') a" fwd now _ _]
  by (auto simp: tls_round_def outcome_bind_Value Let_def split: sum.splits option.splits
      intro!: metrics_observe metrics_error) (metis fst_conv)

lemma metrics_cert: "metrics_ok a \<Longrightarrow> metrics_ok (cert_round env a now b)"
  by (auto simp: cert_round_def Let_def split: sum.splits option.splits)

interpretation agent_metrics: component agent_step metrics_ok
proof
  fix a i
  assume "metrics_ok a"
  then show "metrics_ok (agent_step a i)"
    by (cases i) (auto intro: metrics_connection metrics_cert metrics_tls split: outcome.splits)
qed

definition new_agent :: "deny_map option \<Rightarrow> Agent" where
  "new_agent m = \<lparr>ag_events = [], ag_deny = m, ag_total = 0, ag_parsed = 0, ag_metrics = \<lambda>c. 0\<rparr>"

text \<open>
  The counters of the agent balance. Whatever the three loops read, in
  whatever order: the counters of connection events agree with the loop's own count,
  every record that is not reported as a connection is counted as an error, no more
  exports are counted as forwarded or failed than captured. But the counters of
  dropped events and of reconnects stay zero in every run.
\<close>

lemma agent_counters:
  assumes "a = foldl agent_step (new_agent m) is"
  shows "ag_metrics a (EBPFEventsTotal ''connection'') = ag_total a
   \<and> ag_metrics a (ConnectionsObservedTotal ''tcp'') = ag_parsed a \<and> ag_parsed a \<le> ag_total a
   \<and> ag_total a \<le> ag_parsed a + ag_metrics a IdentityExtractionErrorsTotal
   \<and> ag_metrics a (OTLPForwardedTotal s) + ag_metrics a (OTLPForwardErrorsTotal s)
       \<le> ag_metrics a (OTLPCapturedTotal s)
   \<and> ag_metrics a EventsDroppedTotal = 0 \<and> ag_metrics a StreamReconnectsTotal = 0"
proof -
  have "metrics_ok (new_agent m)" by (simp add: metrics_ok_def new_agent_def)
  from agent_metrics.run_inv [OF this, of "is"] show ?thesis by (simp add: assms metrics_ok_def)
qed

section \<open>Events that cannot be encoded\<close>

definition event_utf8 :: "ReflectorEvent \<Rightarrow> bool" where
  "event_utf8 ev \<longleftrightarrow> list_all utf8_string [ev_NodeId ev, ev_SourceAddr ev, ev_DestAddr ev, ev_Protocol ev,
     ev_SourceIdentity ev, ev_DestIdentity ev, ev_McpToolName ev, ev_OtelService ev, ev_OtelSignalType ev,
     ev_PolicyRule ev, ev_BoundarySessionToken ev, ev_BoundaryTokenType ev, ev_CertSerial ev,
     ev_CertIssuerFingerprint ev, ev_PrevCertSerial ev]"

text \<open>The encoding of proto3: a message with a string that is not valid UTF-8 is refused.\<close>

definition refuses_invalid :: "(ReflectorEvent \<Rightarrow> string option) \<Rightarrow> bool" where
  "refuses_invalid transport \<longleftrightarrow> (\<forall>ev. \<not> event_utf8 ev \<longrightarrow> transport ev \<noteq> None)"

text \<open>The result of sending, as the sender sees it.\<close>

definition send_result :: "Client \<Rightarrow> (ReflectorEvent \<Rightarrow> string option) \<Rightarrow> ReflectorEvent \<Rightarrow> sender_input" where
  "send_result c transport ev =
     (case snd (Send c transport ev) of None \<Rightarrow> SendOk ev | Some err \<Rightarrow> SendFailed ev)"

lemma encoded_bytes: "c \<in> set (EncodeRune r) \<Longrightarrow> (of_char c :: nat) < 245"
proof -
  have b: "r < 2048 \<Longrightarrow> 192 + r div 64 < 224" "r < 65536 \<Longrightarrow> 224 + r div 4096 < 240"
    "r \<le> 1114111 \<Longrightarrow> 240 + r div 262144 < 245" "128 + n mod 64 < 192" for n :: nat
    using mod_less_divisor [of 64 n] by linarith+
  have "n < 245 \<Longrightarrow> n mod 256 < 245" for n :: nat by simp
  with b show "c \<in> set (EncodeRune r) \<Longrightarrow> (of_char c :: nat) < 245"
    by (auto simp: EncodeRune_def Let_def split: if_splits)
qed

lemma utf8_no_ff: "utf8_string s \<Longrightarrow> CHR 0xFF \<notin> set s"
  using encoded_bytes [of "CHR 0xFF"] by (auto simp: utf8_string_def utf8_def)

lemma stale_after_resume:
  assumes "(k, e) \<in> set (entries (HandleEvent m wall (zero_event\<lparr>ev_EventType := STREAM_RESUMED, ev_NodeId := n\<rparr>)))"
    and "en_NodeID e = n"
  shows "en_Status e \<noteq> ''active''"
proof -
  let ?f = "\<lambda>e. if en_NodeID e = n \<and> en_Status e = ''active'' then e\<lparr>en_Status := ''stale''\<rparr> else e"
  obtain e0 where e: "e = ?f e0"
    using assms(1) by (force simp: HandleEvent_def markStaleFromNode_def)
  show ?thesis
  proof (cases "en_NodeID e0 = n \<and> en_Status e0 = ''active''")
    case False
    then show ?thesis using assms(2) by (auto simp only: e if_False)
  qed (simp add: e)
qed

text \<open>A request with a Boundary token, and what the agent makes of it.\<close>

definition token_request :: "string list \<Rightarrow> string \<Rightarrow> string list \<Rightarrow> bytes \<Rightarrow> bytes" where
  "token_request pre token post body = http_text (pre @ (''Authorization: Bearer '' @ token) # post) body"

lemma token_identities:
  assumes "list_all (other_line utab) pre" "bare_token token" "count_list token (CHR ''.'') < 2"
    and "HasPrefix token ''at_''" and "\<not> HasPrefix (token_request pre token post body) ''POST ''"
  shows "ExtractIdentitiesFromTLS utab pw (token_request pre token post body) = Value
     \<lparr>ir_JWT = None, ir_MCP = ExtractMCPToolFromHTTP (token_request pre token post body), ir_OTLP = None,
      ir_Boundary = Some \<lparr>bt_Raw = token, bt_TokenType = BoundaryTokenAuth\<rparr>\<rparr>"
proof -
  define b where "b = token_request pre token post body"
  have f: "findBearerToken utab b = Value token"
    unfolding b_def token_request_def by (rule bearer_found [OF assms(1,2)])
  have "token \<noteq> []" using assms(2) by (simp add: bare_token_def)
  then have bt: "ExtractBoundaryTokenFromHTTP utab b = Value (Some \<lparr>bt_Raw = token, bt_TokenType = BoundaryTokenAuth\<rparr>)"
    using assms(3,4) by (simp add: ExtractBoundaryTokenFromHTTP_def f classifyBoundaryToken_def)
  have "length (jwt_parts token) = Suc (min 2 (count_list token (CHR ''.'')))"
    using length_SplitN [of 2] by (simp add: jwt_parts_def numeral_3_eq_3 numeral_2_eq_2)
  then obtain err where "DecodeJWTPayload token = Inl err" using assms(3) by (simp add: DecodeJWTPayload_def Let_def)
  then have "ExtractJWTFromHTTP utab b = Value (Inl err)" using \<open>token \<noteq> []\<close> by (simp add: ExtractJWTFromHTTP_def f)
  moreover have "ExtractOTLPFromTLS utab pw b = Value None" using assms(5) by (simp add: ExtractOTLPFromTLS_def b_def)
  ultimately show ?thesis using bt by (simp add: ExtractIdentitiesFromTLS_def b_def)
qed

lemma identity_events_boundary:
  "ir_OTLP r = None \<Longrightarrow> ir_JWT r = None \<Longrightarrow> ir_Boundary r = Some bt \<Longrightarrow>
   boundaryToProto now bt pid \<in> set (identity_events now pid r) \<and> length (identity_events now pid r) \<le> 2"
  by (auto simp: identity_events_def split: option.split)

lemma token_reported:
  assumes "list_all (other_line utab) pre" "bare_token token" "count_list token (CHR ''.'') < 2"
    and "HasPrefix token ''at_''" "\<not> HasPrefix (token_request pre token post body) ''POST ''"
    and "ParseTLSDataEvent b = Inr tev" "td_Data tev = token_request pre token post body"
    and "length (ag_events a) + 2 \<le> channelSize"
  obtains a1 posted where "tls_round utab pw fwd a now b = Value (a1, posted)"
    and "boundaryToProto now \<lparr>bt_Raw = token, bt_TokenType = BoundaryTokenAuth\<rparr> (td_PID tev) \<in> set (ag_events a1)"
proof -
  obtain r where r: "ExtractIdentitiesFromTLS utab pw (td_Data tev) = Value r" "ir_OTLP r = None" "ir_JWT r = None"
    "ir_Boundary r = Some \<lparr>bt_Raw = token, bt_TokenType = BoundaryTokenAuth\<rparr>"
    using token_identities [OF assms(1-5), of pw] assms(7) by simp
  have "length (ag_events a) \<le> channelSize" using assms(8) by simp
  from tls_round_events [OF assms(6) r(1) this, of fwd now] obtain a1 posted
    where a1: "tls_round utab pw fwd a now b = Value (a1, posted)"
      "ag_events a1 = take channelSize (ag_events a @ identity_events now (td_PID tev) r)" by blast
  with assms(8) identity_events_boundary [OF r(2-4), of now "td_PID tev"] that show ?thesis by auto
qed

text \<open>
  Property C34: one malformed token disrupts the whole node. When a workload sends a
  request (not a POST) whose Boundary token holds the byte 0xFF, the agent reports
  the token as it is; whatever the transport, as long as it refuses strings that are
  not UTF-8, the event cannot be sent, it is lost, and the sender closes the stream and
  reconnects. The resumed message it then sends leaves no entry of the node active in
  the sidecar's table.
\<close>

theorem malformed_token_disrupts:
  assumes "list_all (other_line utab) pre" and "bare_token token" and "count_list token (CHR ''.'') < 2"
    and "HasPrefix token ''at_''" and "\<not> HasPrefix (token_request pre token post body) ''POST ''"
    and "ParseTLSDataEvent b = Inr tev" and "td_Data tev = token_request pre token post body"
    and "length (ag_events a) + 2 \<le> channelSize"
    and "CHR 0xFF \<in> set token" and "refuses_invalid transport" and "cl_stream c \<noteq> None"
  shows "\<exists>a1 posted ev. tls_round utab pw fwd a now b = Value (a1, posted) \<and> ev \<in> set (ag_events a1)
     \<and> ev_BoundarySessionToken ev = token
     \<and> sender_run (Connected d) [send_result c transport ev, ConnectOk] = (Connected Second, [Lost ev, Wait d, Resumed])
     \<and> (\<forall>(k, e) \<in> set (entries (HandleEvent m wall
            (zero_event\<lparr>ev_EventType := STREAM_RESUMED, ev_NodeId := cl_nodeID c\<rparr>))).
          en_NodeID e = cl_nodeID c \<longrightarrow> en_Status e \<noteq> ''active'')"
proof -
  define ev where "ev = boundaryToProto now \<lparr>bt_Raw = token, bt_TokenType = BoundaryTokenAuth\<rparr> (td_PID tev)"
  obtain a1 posted where a1: "tls_round utab pw fwd a now b = Value (a1, posted)" "ev \<in> set (ag_events a1)"
    using token_reported [OF assms(1-8), of pw fwd now] unfolding ev_def by blast
  have tok: "ev_BoundarySessionToken ev = token" by (simp add: ev_def boundaryToProto_def)
  then have "\<not> event_utf8 (ev\<lparr>ev_NodeId := cl_nodeID c\<rparr>)"
    using utf8_no_ff assms(9) by (auto simp: event_utf8_def)
  then have "transport (ev\<lparr>ev_NodeId := cl_nodeID c\<rparr>) \<noteq> None" using assms(10) by (simp add: refuses_invalid_def)
  then have "send_result c transport ev = SendFailed ev" using assms(11) by (auto simp: send_result_def Send_def)
  then have "sender_run (Connected d) [send_result c transport ev, ConnectOk] = (Connected Second, [Lost ev, Wait d, Resumed])"
    by simp
  with a1 tok stale_after_resume [of _ _ m wall "cl_nodeID c"] show ?thesis by blast
qed

definition bad_token :: string where "bad_token = ''at_'' @ [CHR 0xFF] @ ''x''"

theorem malformed_token_disrupts_witness:
  "\<exists>a1 posted ev. tls_round (\<lambda>r. r) wire_example None (new_agent None) 5
      (put_TLSDataEvent 7 (token_request [''GET / HTTP/1.1''] bad_token [] [])) = Value (a1, posted)
     \<and> ev \<in> set (ag_events a1) \<and> ev_BoundarySessionToken ev = bad_token
     \<and> sender_run (Connected Second)
         [send_result ((NewClient ''map:9100'' ''n'')\<lparr>cl_stream := Some 0\<rparr>)
            (\<lambda>ev. if event_utf8 ev then None else Some ''invalid UTF-8'') ev, ConnectOk]
       = (Connected Second, [Lost ev, Wait Second, Resumed])"
proof -
  let ?r = "token_request [''GET / HTTP/1.1''] bad_token [] []"
  have tok: "bare_token bad_token" "count_list bad_token (CHR ''.'') < 2" "HasPrefix bad_token ''at_''"
    "CHR 0xFF \<in> set bad_token" by (code_simp, code_simp, code_simp, simp add: bad_token_def)
  have line: "list_all (other_line (\<lambda>r. r)) [''GET / HTTP/1.1'']" by code_simp
  have short: "length ?r \<le> MaxCaptureBytes" "\<not> HasPrefix ?r ''POST ''" by code_simp+
  obtain tev where tev: "ParseTLSDataEvent (put_TLSDataEvent 7 ?r) = Inr tev" "td_Data tev = ?r"
    by (rule parse_put_TLS [OF short(1), of 7])
  have room: "length (ag_events (new_agent None)) + 2 \<le> channelSize"
    "cl_stream ((NewClient ''map:9100'' ''n'')\<lparr>cl_stream := Some 0\<rparr>) \<noteq> None"
    by (simp_all add: new_agent_def channelSize_def)
  have t: "refuses_invalid (\<lambda>ev. if event_utf8 ev then None else Some ''invalid UTF-8'')"
    by (simp add: refuses_invalid_def)
  show ?thesis
    using malformed_token_disrupts [OF line tok(1-3) short(2) tev _ tok(4) t, of "new_agent None"
        "(NewClient ''map:9100'' ''n'')\<lparr>cl_stream := Some 0\<rparr>"] room by blast
qed

end
