(* ===== verification/Agent_Process.thy ===== *)
theory Agent_Process
  imports Agent_Stream "HOL-Library.Sublist"
begin

text \<open>
  The agent as one process (\<^verbatim>\<open>cmd/reflector/main.go\<close>): the three loops that read ring buffers
  put events into one channel, the sender takes them out; a step is one round of a loop,
  one attempt to connect, or the sending of the next event. The loops interleave in any
  order. A panic of an extractor is not recovered and ends the process with all of its
  goroutines.
\<close>

section \<open>The process\<close>

record Process =
  pr_agent :: Agent
  pr_sender :: Sender
  pr_crashed :: bool

datatype process_input =
    Loop agent_input
  | Reconnect "TLSConfig \<Rightarrow> string \<Rightarrow> string option" "string \<Rightarrow> credentials \<Rightarrow> string option"
      "credentials \<Rightarrow> string option" "ReflectorEvent \<Rightarrow> string option"
  | Deliver "ReflectorEvent \<Rightarrow> string option"

fun panics :: "Agent \<Rightarrow> agent_input \<Rightarrow> bool" where
  "panics a (TlsBytes utab pw fwd now b) = (tls_round utab pw fwd a now b = Panic)"
| "panics a _ = False"

text \<open>The sender takes the first event of the channel, if it is connected; what was sent is counted.\<close>

definition deliver :: "(ReflectorEvent \<Rightarrow> string option) \<Rightarrow> Process \<Rightarrow> Process \<times> sender_output list" where
  "deliver transport p =
     (case (sn_state (pr_sender p), ag_events (pr_agent p)) of
        (Connected d, ev # rest) \<Rightarrow>
          (let (s, outs) = runStreamSender (pr_sender p) (TrySend transport ev);
               a = (pr_agent p)\<lparr>ag_events := rest\<rparr>
           in (p\<lparr>pr_sender := s, pr_agent := if Sent ev \<in> set outs then count_in StreamEventsSentTotal a else a\<rparr>, outs))
      | _ \<Rightarrow> (p, []))"

fun process_step :: "Process \<Rightarrow> process_input \<Rightarrow> Process \<times> sender_output list" where
  "process_step p (Loop i) =
     (if pr_crashed p then (p, [])
      else if panics (pr_agent p) i then (p\<lparr>pr_crashed := True\<rparr>, [])
      else (p\<lparr>pr_agent := agent_step (pr_agent p) i\<rparr>, []))"
| "process_step p (Reconnect creds dial opn transport) =
     (if pr_crashed p then (p, [])
      else let (s, outs) = runStreamSender (pr_sender p) (TryConnect creds dial opn transport)
           in (p\<lparr>pr_sender := s\<rparr>, outs))"
| "process_step p (Deliver transport) = (if pr_crashed p then (p, []) else deliver transport p)"

fun process_run :: "Process \<Rightarrow> process_input list \<Rightarrow> Process \<times> sender_output list" where
  "process_run p [] = (p, [])"
| "process_run p (i # is) =
     (let (p1, o1) = process_step p i; (p2, o2) = process_run p1 is in (p2, o1 @ o2))"

definition new_process :: "Client \<Rightarrow> deny_map option \<Rightarrow> Process" where
  "new_process c m = \<lparr>pr_agent = new_agent m, pr_sender = new_sender c, pr_crashed = False\<rparr>"

section \<open>The channel\<close>

text \<open>What the loops put into the channel in a run, and what the sender took out of it.\<close>

fun enqueued :: "Process \<Rightarrow> process_input list \<Rightarrow> ReflectorEvent list" where
  "enqueued p [] = []"
| "enqueued p (i # is) =
     (let p1 = fst (process_step p i)
      in (case i of Loop x \<Rightarrow> drop (length (ag_events (pr_agent p))) (ag_events (pr_agent p1)) | _ \<Rightarrow> [])
         @ enqueued p1 is)"

fun handled_event :: "sender_output \<Rightarrow> ReflectorEvent option" where
  "handled_event (Sent ev) = Some ev"
| "handled_event (Lost ev) = Some ev"
| "handled_event _ = None"

definition handled_events :: "sender_output list \<Rightarrow> ReflectorEvent list" where
  "handled_events outs = List.map_filter handled_event outs"

fun is_sent :: "sender_output \<Rightarrow> bool" where
  "is_sent (Sent ev) = True"
| "is_sent _ = False"

fun is_lost :: "sender_output \<Rightarrow> bool" where
  "is_lost (Lost ev) = True"
| "is_lost _ = False"

definition count_out :: "(sender_output \<Rightarrow> bool) \<Rightarrow> sender_output list \<Rightarrow> nat" where
  "count_out P outs = length (filter P outs)"

lemma handled_events_simps [simp]:
  "handled_events [] = []"
  "handled_events (x # outs) = (case handled_event x of None \<Rightarrow> handled_events outs | Some ev \<Rightarrow> ev # handled_events outs)"
  "handled_events (a @ b) = handled_events a @ handled_events b"
  by (simp_all add: handled_events_def List.map_filter_def split: option.split)

lemma count_out_simps [simp]:
  "count_out P [] = 0" "count_out P (x # outs) = (if P x then Suc (count_out P outs) else count_out P outs)"
  "count_out P (a @ b) = count_out P a + count_out P b"
  by (simp_all add: count_out_def)

lemma handled_length: "length (handled_events outs) = count_out is_sent outs + count_out is_lost outs"
proof (induction outs)
  case (Cons x outs)
  then show ?case by (cases x) simp_all
qed simp

text \<open>The loops only append to the channel.\<close>

abbreviation appends :: "Agent \<Rightarrow> Agent \<Rightarrow> bool" where
  "appends a a1 \<equiv> prefix (ag_events a) (ag_events a1)"

lemma offer_appends: "appends a a0 \<Longrightarrow> appends a (offer a0 ev)"
  by (simp add: offer_def)

lemma observe_appends: "appends a a0 \<Longrightarrow> appends a (observe label f found a0)"
  by (auto simp: observe_def intro!: offer_appends split: option.split)

lemma otlp_appends: "appends a (fst (otlp_round fwd a now sig pid))"
  by (auto simp: otlp_round_def Let_def split_beta intro!: offer_appends)

lemma tls_appends: "tls_round utab pw fwd a now b = Value (a1, posted) \<Longrightarrow> appends a a1"
  using otlp_appends [of "count_in (EBPFEventsTotal ''tls'') a" fwd now _ _]
  by (auto simp: tls_round_def outcome_bind_Value Let_def intro!: observe_appends split: sum.splits option.splits)
     (metis count_events fst_conv)

lemma agent_step_appends: "appends a (agent_step a i)"
  by (cases i) (auto simp: connection_round_def cert_round_def Let_def intro!: offer_appends
      split: sum.splits option.splits outcome.splits dest: tls_appends)

lemma enqueue_exact:
  "ag_events (agent_step a i) = ag_events a @ drop (length (ag_events a)) (ag_events (agent_step a i))"
  using agent_step_appends [of a i] by (auto simp: prefix_def)

section \<open>Delivery\<close>

text \<open>One step: the channel, the counter of sent events and the connections.\<close>

definition process_ok :: "Process \<Rightarrow> bool" where
  "process_ok p \<longleftrightarrow> agent_ok (pr_agent p) \<and> one_connection (pr_sender p)"

lemma deliver_cases:
  assumes "deliver transport p = (p1, outs)"
  shows "p1 = p \<and> outs = []
   \<or> (\<exists>d ev rest. sn_state (pr_sender p) = Connected d \<and> ag_events (pr_agent p) = ev # rest \<and> pr_crashed p1 = pr_crashed p
      \<and> (outs = [Sent ev] \<and> pr_sender p1 = pr_sender p
           \<and> pr_agent p1 = count_in StreamEventsSentTotal ((pr_agent p)\<lparr>ag_events := rest\<rparr>)
         \<or> outs = [Lost ev, Wait d] \<and> \<not> is_connected (sn_state (pr_sender p1))
           \<and> pr_sender p1 = fst (runStreamSender (pr_sender p) (TrySend transport ev))
           \<and> pr_agent p1 = (pr_agent p)\<lparr>ag_events := rest\<rparr>))"
proof (cases "sn_state (pr_sender p)")
  case (Connecting d)
  with assms show ?thesis by (simp add: deliver_def)
next
  case C: (Connected d)
  show ?thesis
  proof (cases "ag_events (pr_agent p)")
    case Nil
    with assms C show ?thesis by (simp add: deliver_def)
  next
    case (Cons ev rest)
    show ?thesis
      by (cases "snd (Send (sn_client (pr_sender p)) transport ev)")
         (use assms C Cons in \<open>auto simp: deliver_def Let_def\<close>)
  qed
qed

lemma process_ok_step:
  assumes "process_ok p"
  shows "process_ok (fst (process_step p i))"
proof (cases i)
  case (Loop x)
  with assms agent.step_inv show ?thesis by (auto simp: process_ok_def)
next
  case (Reconnect creds dial opn transport)
  with assms runStreamSender_step [of "pr_sender p" "TryConnect creds dial opn transport"] show ?thesis
    by (auto simp: process_ok_def Let_def split_beta)
next
  case (Deliver transport)
  obtain p1 outs where d: "deliver transport p = (p1, outs)" by (cases "deliver transport p")
  have "agent_ok (a\<lparr>ag_events := rest\<rparr>)" if "agent_ok a" "ag_events a = ev # rest" for a ev rest
    using that by (simp add: agent_ok_def)
  with deliver_cases [OF d] assms runStreamSender_step [of "pr_sender p" "TrySend transport _"] Deliver d show ?thesis
    by (auto simp: process_ok_def)
qed

interpretation process: component "\<lambda>p i. fst (process_step p i)" process_ok
  by unfold_locales (rule process_ok_step)

lemma process_run_fst: "fst (process_run p is) = foldl (\<lambda>p i. fst (process_step p i)) p is"
  by (induction "is" arbitrary: p) (simp_all add: Let_def split_beta)

lemma new_process_ok: "process_ok (new_process c m)"
  by (simp add: process_ok_def new_process_def new_sender_ok agent_ok_def new_agent_def)

text \<open>What a step takes out of the channel and puts into it.\<close>

lemma step_channel:
  assumes "process_step p i = (p1, outs)"
  shows "ag_events (pr_agent p)
      @ (case i of Loop x \<Rightarrow> drop (length (ag_events (pr_agent p))) (ag_events (pr_agent p1)) | _ \<Rightarrow> [])
    = handled_events outs @ ag_events (pr_agent p1)"
proof (cases i)
  case (Loop x)
  with assms enqueue_exact [of "pr_agent p" x] show ?thesis by (auto split: if_splits)
next
  case (Reconnect creds dial opn transport)
  have "handled_events (snd (runStreamSender (pr_sender p) (TryConnect creds dial opn transport))) = []"
    by (auto split: sender_state.split option.split prod.split)
  with assms Reconnect show ?thesis by (auto simp: Let_def split_beta split: if_splits)
next
  case (Deliver transport)
  with assms deliver_cases [of transport p p1 outs] show ?thesis by (auto split: if_splits)
qed

lemma run_channel:
  "ag_events (pr_agent p) @ enqueued p is
   = handled_events (snd (process_run p is)) @ ag_events (pr_agent (fst (process_run p is)))"
proof (induction "is" arbitrary: p)
  case (Cons i is')
  obtain p1 o1 where s: "process_step p i = (p1, o1)" by (cases "process_step p i")
  from step_channel [OF s] Cons.IH [of p1] s show ?case
    by (simp add: Let_def split_beta flip: append_assoc) (metis append_assoc)
qed simp

text \<open>The loops do not touch the counter of sent events.\<close>

lemma metrics_simps [simp]:
  "ag_metrics (offer a ev) c = ag_metrics a c"
  "ag_metrics (count_in c a) d = (if c = d then Suc (ag_metrics a d) else ag_metrics a d)"
  by (simp_all add: offer_def count_in_def Inc_other)

lemma sent_observe: "ag_metrics (observe label f found a) StreamEventsSentTotal = ag_metrics a StreamEventsSentTotal"
  by (simp add: observe_def split: option.split)

lemma sent_otlp:
  "ag_metrics (fst (otlp_round fwd a now sig pid)) StreamEventsSentTotal = ag_metrics a StreamEventsSentTotal"
  by (auto simp: otlp_round_def forward_signal_def Let_def split_beta split: option.split prod.split)

lemma sent_tls:
  "tls_round utab pw fwd a now b = Value (a1, posted) \<Longrightarrow>
   ag_metrics a1 StreamEventsSentTotal = ag_metrics a StreamEventsSentTotal"
  using sent_otlp [of fwd "count_in (EBPFEventsTotal ''tls'') a" now]
  by (auto simp: tls_round_def outcome_bind_Value Let_def sent_observe split: sum.splits option.splits) (metis fst_conv)

lemma sent_agent: "ag_metrics (agent_step a i) StreamEventsSentTotal = ag_metrics a StreamEventsSentTotal"
  by (cases i) (auto simp: connection_round_def cert_round_def Let_def sent_tls
      split: sum.splits option.splits outcome.splits)

lemma step_sent:
  assumes "process_step p i = (p1, outs)"
  shows "ag_metrics (pr_agent p1) StreamEventsSentTotal
     = ag_metrics (pr_agent p) StreamEventsSentTotal + count_out is_sent outs"
proof (cases i)
  case (Loop x)
  with assms show ?thesis by (auto simp: sent_agent split: if_splits)
next
  case (Reconnect creds dial opn transport)
  have "count_out is_sent (snd (runStreamSender (pr_sender p) (TryConnect creds dial opn transport))) = 0"
    by (auto split: sender_state.split option.split prod.split)
  with assms Reconnect show ?thesis by (auto simp: Let_def split_beta split: if_splits)
next
  case (Deliver transport)
  with assms deliver_cases [of transport p p1 outs] show ?thesis by (auto split: if_splits)
qed

lemma run_sent:
  "ag_metrics (pr_agent (fst (process_run p is))) StreamEventsSentTotal
   = ag_metrics (pr_agent p) StreamEventsSentTotal + count_out is_sent (snd (process_run p is))"
proof (induction "is" arbitrary: p)
  case (Cons i is')
  obtain p1 o1 where s: "process_step p i = (p1, o1)" by (cases "process_step p i")
  from step_sent [OF s] Cons.IH [of p1] s show ?case by (simp add: Let_def split_beta)
qed simp

text \<open>A connection loses at most one event: the one whose sending breaks it.\<close>

lemma sender_losses:
  "sender_step st inp = (st1, outs) \<Longrightarrow>
   count_out is_lost outs + of_bool (is_connected st1) \<le> count_out ((=) Resumed) outs + of_bool (is_connected st)"
  by (cases "(st, inp)" rule: sender_step.cases) auto

lemma step_losses:
  assumes ok: "process_ok p" and step: "process_step p i = (p1, outs)"
  shows "count_out is_lost outs + of_bool (is_connected (sn_state (pr_sender p1)))
     \<le> count_out ((=) Resumed) outs + of_bool (is_connected (sn_state (pr_sender p)))"
proof (cases i)
  case (Loop x)
  with step show ?thesis by (auto split: if_splits)
next
  case (Reconnect creds dial opn transport)
  let ?io = "TryConnect creds dial opn transport"
  have "sender_step (sn_state (pr_sender p)) (protocol_input (pr_sender p) ?io)
      = (sn_state (fst (runStreamSender (pr_sender p) ?io)), snd (runStreamSender (pr_sender p) ?io))"
    by (rule runStreamSender_refines) (use ok in \<open>simp add: process_ok_def\<close>)
  from sender_losses [OF this] step Reconnect show ?thesis
    by (auto simp: Let_def split_beta simp del: runStreamSender.simps split: if_splits)
next
  case (Deliver transport)
  with step deliver_cases [of transport p p1 outs] show ?thesis by (auto split: if_splits)
qed

lemma run_losses:
  "process_ok p \<Longrightarrow>
   count_out is_lost (snd (process_run p is)) + of_bool (is_connected (sn_state (pr_sender (fst (process_run p is)))))
   \<le> count_out ((=) Resumed) (snd (process_run p is)) + of_bool (is_connected (sn_state (pr_sender p)))"
proof (induction "is" arbitrary: p)
  case (Cons i is')
  obtain p1 o1 where s: "process_step p i = (p1, o1)" by (cases "process_step p i")
  then have "process_ok p1" using process_ok_step [OF Cons.prems, of i] by simp
  from Cons.IH [OF this] step_losses [OF Cons.prems s] s show ?case by (simp add: Let_def split_beta)
qed simp

text \<open>
  Property C26: the agent delivers what its loops report. However the three loops and
  the sender interleave, and whatever the transport answers: the events the sender
  took from the channel, followed by those still in it, are exactly those the loops
  put into it, in the same order, none twice; at most one of them is lost for every
  connection that was made; the counter of sent events counts the others; and the
  channel never holds more than its capacity.
\<close>

theorem agent_delivery:
  assumes "(p, outs) = process_run (new_process c m) is"
  shows "enqueued (new_process c m) is = handled_events outs @ ag_events (pr_agent p)
     \<and> length (handled_events outs) = ag_metrics (pr_agent p) StreamEventsSentTotal + count_out is_lost outs
     \<and> count_out is_lost outs \<le> count_out ((=) Resumed) outs
     \<and> length (ag_events (pr_agent p)) \<le> channelSize"
proof -
  have p: "p = fst (process_run (new_process c m) is)" "outs = snd (process_run (new_process c m) is)"
    using assms by (metis fst_conv snd_conv)+
  have "process_ok p" using process.run_inv [OF new_process_ok] by (simp add: p process_run_fst)
  moreover have "ag_events (pr_agent (new_process c m)) = []" "ag_metrics (pr_agent (new_process c m)) StreamEventsSentTotal = 0"
    "\<not> is_connected (sn_state (pr_sender (new_process c m)))"
    by (simp_all add: new_process_def new_agent_def new_sender_def sender_start_def)
  ultimately show ?thesis
    using run_channel [of "new_process c m" "is"] run_sent [of "new_process c m" "is"]
      run_losses [OF new_process_ok, of c m "is"] handled_length [of outs]
    by (simp add: p process_ok_def agent_ok_def)
qed

theorem agent_delivery_witness:
  "\<exists>p outs. (p, outs) = process_run (new_process (NewClient ''map:9100'' ''n'') None) [Loop (ConnBytes 0 [])]
     \<and> enqueued (new_process (NewClient ''map:9100'' ''n'') None) [Loop (ConnBytes 0 [])]
       = handled_events outs @ ag_events (pr_agent p)"
proof -
  obtain p outs where "(p, outs) = process_run (new_process (NewClient ''map:9100'' ''n'') None) [Loop (ConnBytes 0 [])]"
    by (metis surj_pair)
  from agent_delivery [OF this] this show ?thesis by blast
qed

text \<open>With a stream that accepts every event, the channel is emptied in order.\<close>

lemma queue_drained:
  assumes "\<not> pr_crashed p" "sn_state (pr_sender p) = Connected d" "cl_stream (sn_client (pr_sender p)) \<noteq> None"
    "\<forall>ev. transport ev = None"
  shows "snd (process_run p (replicate (length (ag_events (pr_agent p))) (Deliver transport)))
      = map Sent (ag_events (pr_agent p))"
  using assms
proof (induction "ag_events (pr_agent p)" arbitrary: p)
  case (Cons ev rest)
  have "snd (Send (sn_client (pr_sender p)) transport ev) = None"
    using Cons.prems by (auto simp: Send_def Let_def)
  then obtain p1 where p1: "process_step p (Deliver transport) = (p1, [Sent ev])" "ag_events (pr_agent p1) = rest"
    "pr_sender p1 = pr_sender p" "pr_crashed p1 = pr_crashed p"
    using Cons.prems Cons.hyps(2) [symmetric] by (auto simp: deliver_def)
  with Cons.hyps(1) [of p1] Cons.prems show ?case
    by (simp add: Cons.hyps(2) [symmetric] Let_def split_beta)
qed simp

section \<open>A crash\<close>

lemma crashed_run: "pr_crashed p \<Longrightarrow> process_run p is = (p, [])"
proof (induction "is")
  case (Cons i is')
  then show ?case by (cases i) (simp_all add: Let_def)
qed simp

text \<open>
  Property C27: one request can stop the agent. When any process of the node sends an
  OTLP export whose header has a few bytes that are not UTF-8, the round that reads it
  panics: from then on nothing is read, sent or enforced, and the events still in the
  channel are never sent. The position of the content length is found in the
  lower-cased header, in which each invalid byte has become three, and is then used to
  slice the original one.
\<close>

theorem header_stops_agent:
  assumes "utab RuneError = RuneError" and "ParseTLSDataEvent b = Inr ev" and "td_Data ev = latin1_request"
    and "\<not> pr_crashed p"
  shows "process_run p (Loop (TlsBytes utab pw fwd now b) # is) = (p\<lparr>pr_crashed := True\<rparr>, [])"
proof -
  have "ExtractIdentitiesFromTLS utab pw latin1_request = Panic"
    using latin1_panics [of utab pw, OF assms(1)] by (simp add: ExtractIdentitiesFromTLS_def)
  then have "tls_round utab pw fwd (pr_agent p) now b = Panic"
    using assms(2,3) by (simp add: tls_round_def)
  then show ?thesis using assms(4) by (simp add: crashed_run)
qed

theorem header_stops_agent_witness:
  "process_run (new_process (NewClient ''map:9100'' ''n'') None)
     [Loop (TlsBytes (\<lambda>r. r) wire_example None 0 (put_TLSDataEvent 7 latin1_request)), Loop (ConnBytes 0 [])]
   = ((new_process (NewClient ''map:9100'' ''n'') None)\<lparr>pr_crashed := True\<rparr>, [])"
proof -
  have "length latin1_request \<le> MaxCaptureBytes" by code_simp
  from parse_put_TLS [OF this, of 7] obtain ev
    where ev: "ParseTLSDataEvent (put_TLSDataEvent 7 latin1_request) = Inr ev" "td_Data ev = latin1_request" by auto
  show ?thesis by (rule header_stops_agent [OF _ ev]) (simp_all add: new_process_def)
qed

end
