(* ===== verification/Probes.thy ===== *)
theory Probes
  imports Ring_Events
begin

text \<open>
  The eBPF programs that observe connections, TLS plaintext and certificates:
  \<^verbatim>\<open>internal/ebpf/bpf/reflector.c\<close>, \<^verbatim>\<open>tls_hook.c\<close> and \<^verbatim>\<open>cert_hook.c\<close> (\<^verbatim>\<open>internal/certebpf/bpf\<close> has
  the same file). One definition per program; it takes the results of the kernel helpers
  it calls, the registers and the state of its maps. A ring buffer is the list of the
  records that were submitted; the memory that a reservation hands out is not cleared, so
  it is part of the results of the helpers. The programs are built for little-endian
  machines only. That the programs of one thread leave the arguments that another thread
  has stored alone is the locale \<open>thread_slots\<close>, for the three maps of arguments.
\<close>

unbundle bit_operations_syntax

section \<open>Helpers and registers\<close>

record Regs =
  PT_REGS_PARM1 :: u64
  PT_REGS_PARM2 :: u64
  PT_REGS_PARM3 :: u64
  PT_REGS_RC :: u64

text \<open>
  The thread and the clock, the struct in reserved memory if there is room, whether an
  update of a map finds room, and the two ways of reading memory, by size and address.
\<close>

record 'e Helpers =
  hp_pid_tgid :: u64
  hp_ktime :: u64
  hp_reserve :: "'e option"
  hp_update :: bool
  hp_read_kernel :: "nat \<Rightarrow> u64 \<Rightarrow> bytes option"
  hp_read_user :: "nat \<Rightarrow> u64 \<Rightarrow> bytes option"

definition pid_of :: "u64 \<Rightarrow> u32" where "pid_of pid_tgid = ucast (drop_bit 32 pid_tgid)"
definition tid_of :: "u64 \<Rightarrow> u32" where "tid_of pid_tgid = ucast pid_tgid"

definition bpf_ntohs :: "u16 \<Rightarrow> u16" where
  "bpf_ntohs x = push_bit 8 x OR drop_bit 8 x"

section \<open>Connections\<close>

record sock_common =
  skc_daddr :: u32
  skc_rcv_saddr :: u32
  skc_hash :: u32
  skc_dport :: u16
  skc_num :: u16
  skc_family :: u16

definition sizeof_sock_common :: nat where "sizeof_sock_common = 20"

definition read_sock_common :: "bytes \<Rightarrow> sock_common" where
  "read_sock_common b = \<lparr>skc_daddr = Uint32 (slice b 0 4), skc_rcv_saddr = Uint32 (slice b 4 8),
     skc_hash = Uint32 (slice b 8 12), skc_dport = Uint16 (slice b 12 14), skc_num = Uint16 (slice b 14 16),
     skc_family = Uint16 (slice b 16 18)\<rparr>"

definition EVENT_CONNECT :: u8 where "EVENT_CONNECT = 0"
definition EVENT_ACCEPT :: u8 where "EVENT_ACCEPT = 1"
definition AF_INET :: u16 where "AF_INET = 2"
definition AF_INET6 :: u16 where "AF_INET6 = 10"

definition zero16 :: bytes where "zero16 = replicate 16 (CHR 0x00)"

definition emit_event :: "RawEvent Helpers \<Rightarrow> u64 \<Rightarrow> u8 \<Rightarrow> bytes list \<Rightarrow> bytes list" where
  "emit_event h sk event_type ring =
     (case hp_reserve h of
        None \<Rightarrow> ring
      | Some e \<Rightarrow>
        let e1 = e\<lparr>re_TimestampNS := hp_ktime h, re_PID := pid_of (hp_pid_tgid h), re_TID := tid_of (hp_pid_tgid h),
                   re_EventType := event_type, re_Protocol := 6, re_Pad := 0\<rparr>
        in (case hp_read_kernel h sizeof_sock_common sk of
              None \<Rightarrow> ring
            | Some b \<Rightarrow>
              let skc = read_sock_common b;
                  family = skc_family skc;
                  e2 = e1\<lparr>re_AF := ucast family, re_SrcPort := skc_num skc, re_DstPort := bpf_ntohs (skc_dport skc)\<rparr>
              in if family = AF_INET then
                   ring @ [put_RawEvent (e2\<lparr>re_SrcAddr := skc_rcv_saddr skc, re_DstAddr := skc_daddr skc,
                                            re_SrcAddr6 := zero16, re_DstAddr6 := zero16\<rparr>)]
                 else if family = AF_INET6 then
                   ring @ [put_RawEvent (e2\<lparr>re_SrcAddr := 0, re_DstAddr := 0,
                                            re_SrcAddr6 := zero16, re_DstAddr6 := zero16\<rparr>)]
                 else ring))"

definition kprobe_tcp_connect :: "RawEvent Helpers \<Rightarrow> Regs \<Rightarrow> bytes list \<Rightarrow> bytes list" where
  "kprobe_tcp_connect h ctx ring = emit_event h (PT_REGS_PARM1 ctx) EVENT_CONNECT ring"

definition kretprobe_inet_csk_accept :: "RawEvent Helpers \<Rightarrow> Regs \<Rightarrow> bytes list \<Rightarrow> bytes list" where
  "kretprobe_inet_csk_accept h ctx ring =
     (if PT_REGS_RC ctx = 0 then ring else emit_event h (PT_REGS_RC ctx) EVENT_ACCEPT ring)"

section \<open>TLS plaintext\<close>

definition MAX_CAPTURE_BYTES :: u32 where "MAX_CAPTURE_BYTES = 4096"
definition TLS_EVENT_WRITE :: u8 where "TLS_EVENT_WRITE = 0"
definition TLS_EVENT_READ :: u8 where "TLS_EVENT_READ = 1"

record tls_event =
  te_timestamp_ns :: u64
  te_pid :: u32
  te_tid :: u32
  te_len :: u32
  te_original_len :: u32
  te_event_type :: u8
  te_pad :: bytes
  te_data :: bytes

definition put_tls_event :: "tls_event \<Rightarrow> bytes" where
  "put_tls_event e = put64 (te_timestamp_ns e) @ put32 (te_pid e) @ put32 (te_tid e) @ put32 (te_len e)
     @ put32 (te_original_len e) @ put8 (te_event_type e) @ te_pad e @ te_data e"

record ssl_args =
  sa_buf :: u64
  sa_num :: u32

record TlsProg =
  tls_events :: "bytes list"
  ssl_write_args :: "u64 \<Rightarrow> ssl_args option"
  ssl_read_args :: "u64 \<Rightarrow> ssl_args option"

definition new_tls :: TlsProg where
  "new_tls = \<lparr>tls_events = [], ssl_write_args = (\<lambda>_. None), ssl_read_args = (\<lambda>_. None)\<rparr>"

definition args_of :: "Regs \<Rightarrow> ssl_args" where
  "args_of ctx = \<lparr>sa_buf = PT_REGS_PARM2 ctx, sa_num = ucast (PT_REGS_PARM3 ctx)\<rparr>"

definition uprobe_ssl_write :: "tls_event Helpers \<Rightarrow> Regs \<Rightarrow> TlsProg \<Rightarrow> TlsProg" where
  "uprobe_ssl_write h ctx p =
     (if hp_update h then p\<lparr>ssl_write_args := (ssl_write_args p)(hp_pid_tgid h \<mapsto> args_of ctx)\<rparr> else p)"

definition uprobe_ssl_read :: "tls_event Helpers \<Rightarrow> Regs \<Rightarrow> TlsProg \<Rightarrow> TlsProg" where
  "uprobe_ssl_read h ctx p =
     (if hp_update h then p\<lparr>ssl_read_args := (ssl_read_args p)(hp_pid_tgid h \<mapsto> args_of ctx)\<rparr> else p)"

text \<open>How many bytes the return programs copy.\<close>

definition capture_len :: "u32 \<Rightarrow> u32" where
  "capture_len ret = (let capture = ret AND 0xFFFF in if capture > MAX_CAPTURE_BYTES then MAX_CAPTURE_BYTES else capture)"

text \<open>What a return program submits, up to its label \<^verbatim>\<open>cleanup\<close>.\<close>

definition ssl_capture :: "tls_event Helpers \<Rightarrow> Regs \<Rightarrow> u8 \<Rightarrow> ssl_args \<Rightarrow> bytes list \<Rightarrow> bytes list" where
  "ssl_capture h ctx event_type args ring =
     (let ret = (ucast (PT_REGS_RC ctx) :: u32) in
      if sint ret \<le> 0 then ring
      else case hp_reserve h of
        None \<Rightarrow> ring
      | Some e \<Rightarrow>
        let e1 = e\<lparr>te_timestamp_ns := hp_ktime h, te_pid := pid_of (hp_pid_tgid h), te_tid := tid_of (hp_pid_tgid h),
                   te_event_type := event_type, te_original_len := ret, te_pad := replicate 3 (CHR 0x00)\<rparr>;
            capture = capture_len ret
        in if capture = 0 then ring
           else (case hp_read_user h (unat capture) (sa_buf args) of
                   None \<Rightarrow> ring
                 | Some b \<Rightarrow> ring @ [put_tls_event (e1\<lparr>te_len := capture,
                                       te_data := b @ drop (unat capture) (te_data e1)\<rparr>)]))"

definition uretprobe_ssl_write :: "tls_event Helpers \<Rightarrow> Regs \<Rightarrow> TlsProg \<Rightarrow> TlsProg" where
  "uretprobe_ssl_write h ctx p =
     (case ssl_write_args p (hp_pid_tgid h) of
        None \<Rightarrow> p
      | Some args \<Rightarrow> p\<lparr>tls_events := ssl_capture h ctx TLS_EVENT_WRITE args (tls_events p),
                        ssl_write_args := (ssl_write_args p)(hp_pid_tgid h := None)\<rparr>)"

definition uretprobe_ssl_read :: "tls_event Helpers \<Rightarrow> Regs \<Rightarrow> TlsProg \<Rightarrow> TlsProg" where
  "uretprobe_ssl_read h ctx p =
     (case ssl_read_args p (hp_pid_tgid h) of
        None \<Rightarrow> p
      | Some args \<Rightarrow> p\<lparr>tls_events := ssl_capture h ctx TLS_EVENT_READ args (tls_events p),
                        ssl_read_args := (ssl_read_args p)(hp_pid_tgid h := None)\<rparr>)"

text \<open>The programs fire one after the other, in the order of the kernel.\<close>

datatype direction = SslWrite | SslRead
datatype tls_probe = Enter direction | Return direction

fun fire :: "TlsProg \<Rightarrow> tls_probe \<times> tls_event Helpers \<times> Regs \<Rightarrow> TlsProg" where
  "fire p (Enter SslWrite, h, ctx) = uprobe_ssl_write h ctx p"
| "fire p (Return SslWrite, h, ctx) = uretprobe_ssl_write h ctx p"
| "fire p (Enter SslRead, h, ctx) = uprobe_ssl_read h ctx p"
| "fire p (Return SslRead, h, ctx) = uretprobe_ssl_read h ctx p"

fun slots :: "direction \<Rightarrow> TlsProg \<Rightarrow> u64 \<Rightarrow> ssl_args option" where
  "slots SslWrite p = ssl_write_args p"
| "slots SslRead p = ssl_read_args p"

section \<open>Certificates\<close>

definition MAX_DER_BYTES :: u32 where "MAX_DER_BYTES = 2048"

record cert_event =
  cx_timestamp_ns :: u64
  cx_pid :: u32
  cx_tid :: u32
  cx_der_len :: u32
  cx_orig_len :: u32
  cx_der :: bytes

definition put_cert_event :: "cert_event \<Rightarrow> bytes" where
  "put_cert_event e = put64 (cx_timestamp_ns e) @ put32 (cx_pid e) @ put32 (cx_tid e) @ put32 (cx_der_len e)
     @ put32 (cx_orig_len e) @ cx_der e"

record d2i_args =
  da_in_p :: u64
  da_len :: u32
  da_pad :: u32

record CertProg =
  cert_events :: "bytes list"
  d2i_active :: "u64 \<Rightarrow> d2i_args option"

definition uprobe_d2i_x509 :: "cert_event Helpers \<Rightarrow> Regs \<Rightarrow> CertProg \<Rightarrow> CertProg" where
  "uprobe_d2i_x509 h ctx p =
     (let len = sint (PT_REGS_PARM3 ctx); in_pp_addr = PT_REGS_PARM2 ctx in
      if len \<le> 0 \<or> len > 65536 then p
      else if in_pp_addr = 0 then p
      else case hp_read_user h 8 in_pp_addr of
        None \<Rightarrow> p
      | Some b \<Rightarrow>
        let in_p_addr = Uint64 b in
        if in_p_addr = 0 then p
        else if hp_update h
          then p\<lparr>d2i_active := (d2i_active p)(hp_pid_tgid h \<mapsto>
                   \<lparr>da_in_p = in_p_addr, da_len = ucast (PT_REGS_PARM3 ctx), da_pad = 0\<rparr>)\<rparr>
          else p)"

definition uretprobe_d2i_x509 :: "cert_event Helpers \<Rightarrow> Regs \<Rightarrow> CertProg \<Rightarrow> CertProg" where
  "uretprobe_d2i_x509 h ctx p =
     (let cleanup = (\<lambda>p. p\<lparr>d2i_active := (d2i_active p)(hp_pid_tgid h := None)\<rparr>) in
      if PT_REGS_RC ctx = 0 then cleanup p
      else case d2i_active p (hp_pid_tgid h) of
        None \<Rightarrow> p
      | Some args \<Rightarrow>
        (case hp_reserve h of
           None \<Rightarrow> cleanup p
         | Some e \<Rightarrow>
           let capture = (if da_len args > MAX_DER_BYTES then MAX_DER_BYTES else da_len args);
               e1 = e\<lparr>cx_timestamp_ns := hp_ktime h, cx_pid := pid_of (hp_pid_tgid h),
                      cx_tid := tid_of (hp_pid_tgid h), cx_orig_len := da_len args, cx_der_len := capture\<rparr>
           in (case hp_read_user h (unat MAX_DER_BYTES) (da_in_p args) of
                 None \<Rightarrow> cleanup p
               | Some b \<Rightarrow> cleanup (p\<lparr>cert_events := cert_events p @ [put_cert_event (e1\<lparr>cx_der := b\<rparr>)]\<rparr>))))"

fun fire_cert :: "CertProg \<Rightarrow> bool \<times> cert_event Helpers \<times> Regs \<Rightarrow> CertProg" where
  "fire_cert p (enter, h, ctx) = (if enter then uprobe_d2i_x509 h ctx p else uretprobe_d2i_x509 h ctx p)"

section \<open>Threads do not disturb each other\<close>

text \<open>
  A program that keeps arguments between the entry and the return of a call: a firing
  that is not about the call of a thread leaves its arguments alone, and records are only
  ever added.
\<close>

locale thread_slots =
  fixes step :: "'p \<Rightarrow> 'f \<Rightarrow> 'p" and touches :: "u64 \<Rightarrow> 'f \<Rightarrow> bool"
    and slot :: "'p \<Rightarrow> u64 \<Rightarrow> 'a option" and records :: "'p \<Rightarrow> bytes list"
  assumes slot_step: "\<not> touches t f \<Longrightarrow> slot (step p f) t = slot p t"
    and records_step: "\<exists>new. records (step p f) = records p @ new"
begin

lemma slot_kept: "\<forall>f \<in> set fs. \<not> touches t f \<Longrightarrow> slot (foldl step p fs) t = slot p t"
  by (induction fs arbitrary: p) (simp_all add: slot_step)

lemma records_added: "\<exists>new. records (foldl step p fs) = records p @ new"
proof (induction fs arbitrary: p)
  case (Cons f fs)
  from Cons.IH [of "step p f"] records_step [of p f] show ?case by auto
qed simp

end

fun touches :: "direction \<Rightarrow> u64 \<Rightarrow> tls_probe \<times> tls_event Helpers \<times> Regs \<Rightarrow> bool" where
  "touches d t (pr, h, ctx) \<longleftrightarrow> (pr = Enter d \<or> pr = Return d) \<and> hp_pid_tgid h = t"

lemma ssl_capture_adds: "\<exists>new. ssl_capture h ctx et args ring = ring @ new"
  by (auto simp: ssl_capture_def Let_def split: option.split)

interpretation tls_slots: thread_slots fire "touches d" "slots d" tls_events for d
proof
  fix t p and f :: "tls_probe \<times> tls_event Helpers \<times> Regs"
  obtain pr h ctx where f: "f = (pr, h, ctx)" by (cases f)
  show "slots d (fire p f) t = slots d p t" if "\<not> touches d t f"
    using that unfolding f
    by (cases "(p, pr, h, ctx)" rule: fire.cases; cases d)
       (auto simp: uprobe_ssl_write_def uprobe_ssl_read_def uretprobe_ssl_write_def uretprobe_ssl_read_def split: option.split)
  show "\<exists>new. tls_events (fire p f) = tls_events p @ new"
    using ssl_capture_adds unfolding f
    by (cases "(p, pr, h, ctx)" rule: fire.cases)
       (auto simp: uprobe_ssl_write_def uprobe_ssl_read_def uretprobe_ssl_write_def uretprobe_ssl_read_def split: option.split)
qed

fun cert_touches :: "u64 \<Rightarrow> bool \<times> cert_event Helpers \<times> Regs \<Rightarrow> bool" where
  "cert_touches t (enter, h, ctx) \<longleftrightarrow> hp_pid_tgid h = t"

interpretation cert_slots: thread_slots fire_cert cert_touches d2i_active cert_events
proof
  fix t p and f :: "bool \<times> cert_event Helpers \<times> Regs"
  obtain enter h ctx where f: "f = (enter, h, ctx)" by (cases f)
  show "d2i_active (fire_cert p f) t = d2i_active p t" if "\<not> cert_touches t f"
    using that by (auto simp: f uprobe_d2i_x509_def uretprobe_d2i_x509_def Let_def split: option.split)
  show "\<exists>new. cert_events (fire_cert p f) = cert_events p @ new"
    by (auto simp: f uprobe_d2i_x509_def uretprobe_d2i_x509_def Let_def split: option.split)
qed

section \<open>What a call leaves in the ring buffer\<close>

text \<open>What the kernel promises about a successful read: it copies as many bytes as asked for.\<close>

definition exact_reads :: "'e Helpers \<Rightarrow> bool" where
  "exact_reads h \<longleftrightarrow> (\<forall>n a b. hp_read_user h n a = Some b \<longrightarrow> length b = n)"

lemma capture_len_nat: "unat (capture_len ret) = min 4096 (unat ret mod 65536)"
proof -
  have "ret AND 0xFFFF = take_bit 16 ret" by (simp add: take_bit_eq_mask mask_eq_exp_minus_1)
  then have "unat (ret AND 0xFFFF) = unat ret mod 65536" by (simp add: take_bit_eq_mod unat_mod_distrib)
  then show ?thesis by (simp add: capture_len_def MAX_CAPTURE_BYTES_def Let_def word_less_nat_alt)
qed


text \<open>The bytes of the record for the decoder: everything after the captured bytes is ignored.\<close>

lemma parse_tls_event:
  assumes "length (te_pad e) = 3" "length (te_data e) = 4096" "unat (te_len e) \<le> 4096"
  shows "ParseTLSDataEvent (put_tls_event e) =
     Inr \<lparr>td_Timestamp = duration_of (te_timestamp_ns e), td_PID = te_pid e, td_TID = te_tid e, td_Len = te_len e,
          td_OriginalLen = te_original_len e, td_Type = tls_type_of (te_event_type e),
          td_Data = take (unat (te_len e)) (te_data e)\<rparr>"
proof -
  let ?b = "put_tls_event e"
  have len: "length ?b = TLSDataEventSize" using assms by (simp add: put_tls_event_def TLSDataEventSize_def MaxCaptureBytes_def)
  have f: "slice ?b 0 8 = put64 (te_timestamp_ns e)" "slice ?b 8 12 = put32 (te_pid e)" "slice ?b 12 16 = put32 (te_tid e)"
    "slice ?b 16 20 = put32 (te_len e)" "slice ?b 20 24 = put32 (te_original_len e)" "byte_at ?b 24 = te_event_type e"
    "slice ?b 28 (28 + n) = take n (te_data e)" for n
    using assms(1) by (simp_all add: put_tls_event_def slice_def byte_at_def nth_append put8_def)
  show ?thesis using assms(3) by (simp add: ParseTLSDataEvent_def len Let_def f capped_def MaxCaptureBytes_def)
qed

lemma parse_cert_event:
  assumes "length (cx_der e) = 2048" "unat (cx_der_len e) \<le> 2048"
  shows "ParseCertEvent (put_cert_event e) =
     Inr \<lparr>cv_TimestampNS = cx_timestamp_ns e, cv_PID = cx_pid e, cv_TID = cx_tid e, cv_DERLen = cx_der_len e,
          cv_OrigLen = cx_orig_len e, cv_DER = take (unat (cx_der_len e)) (cx_der e)\<rparr>"
proof -
  let ?b = "put_cert_event e"
  have len: "length ?b = 24 + maxDERBytes" using assms by (simp add: put_cert_event_def maxDERBytes_def)
  have f: "slice ?b 0 8 = put64 (cx_timestamp_ns e)" "slice ?b 8 12 = put32 (cx_pid e)" "slice ?b 12 16 = put32 (cx_tid e)"
    "slice ?b 16 20 = put32 (cx_der_len e)" "slice ?b 20 24 = put32 (cx_orig_len e)"
    "slice ?b 24 (24 + n) = take n (cx_der e)" for n
    by (simp_all add: put_cert_event_def slice_def)
  show ?thesis using assms(2) by (simp add: ParseCertEvent_def len Let_def f capped_def maxDERBytes_def)
qed


text \<open>The record of a call, by what its return sees.\<close>

lemma ssl_capture_cases:
  assumes "exact_reads h"
    and "case hp_reserve h of None \<Rightarrow> True | Some e \<Rightarrow> length (te_data e) = 4096"
    and "ret = (ucast (PT_REGS_RC ctx) :: u32)" and "n = min 4096 (unat ret mod 65536)"
  shows "(sint ret \<le> 0 \<or> n = 0 \<or> hp_reserve h = None \<or> hp_read_user h n (sa_buf args) = None)
       \<and> ssl_capture h ctx et args ring = ring
   \<or> (\<exists>b rec. sint ret > 0 \<and> n > 0 \<and> hp_reserve h \<noteq> None \<and> hp_read_user h n (sa_buf args) = Some b
       \<and> ssl_capture h ctx et args ring = ring @ [rec]
       \<and> ParseTLSDataEvent rec = Inr \<lparr>td_Timestamp = duration_of (hp_ktime h), td_PID = pid_of (hp_pid_tgid h),
            td_TID = tid_of (hp_pid_tgid h), td_Len = word_of_nat n, td_OriginalLen = ret,
            td_Type = tls_type_of et, td_Data = b\<rparr>)"
proof -
  have n: "unat (capture_len ret) = n" using assms(4) by (simp add: capture_len_nat)
  then have zero: "capture_len ret = 0 \<longleftrightarrow> n = 0" by (metis unat_eq_zero)
  have w: "capture_len ret = word_of_nat n" by (simp add: n [symmetric])
  show ?thesis
  proof (cases "hp_reserve h")
    case (Some e)
    show ?thesis
    proof (cases "sint ret > 0 \<and> n > 0 \<and> hp_read_user h n (sa_buf args) \<noteq> None")
      case True
      then obtain b where b: "hp_read_user h n (sa_buf args) = Some b" by blast
      define r where "r = e\<lparr>te_timestamp_ns := hp_ktime h, te_pid := pid_of (hp_pid_tgid h), te_tid := tid_of (hp_pid_tgid h),
        te_event_type := et, te_original_len := ret, te_pad := replicate 3 (CHR 0x00), te_len := capture_len ret,
        te_data := b @ drop n (te_data e)\<rparr>"
      have "length b = n" "n \<le> 4096" using b assms(1,4) by (auto simp: exact_reads_def)
      then have "ParseTLSDataEvent (put_tls_event r) = Inr \<lparr>td_Timestamp = duration_of (hp_ktime h),
          td_PID = pid_of (hp_pid_tgid h), td_TID = tid_of (hp_pid_tgid h), td_Len = word_of_nat n, td_OriginalLen = ret,
          td_Type = tls_type_of et, td_Data = b\<rparr>"
        using parse_tls_event [of r] assms(2) Some n w by (simp add: r_def)
      moreover have "ssl_capture h ctx et args ring = ring @ [put_tls_event r]"
        using True Some b zero unfolding ssl_capture_def assms(3) [symmetric] Let_def by (simp add: r_def n)
      ultimately show ?thesis using True Some b by blast
    next
      case False
      then have "ssl_capture h ctx et args ring = ring"
        using Some zero unfolding ssl_capture_def assms(3) [symmetric] Let_def by (auto simp: n)
      with False show ?thesis by auto
    qed
  qed (simp add: ssl_capture_def Let_def)
qed

fun probe_type :: "direction \<Rightarrow> u8" where
  "probe_type SslWrite = TLS_EVENT_WRITE"
| "probe_type SslRead = TLS_EVENT_READ"

lemma fire_Enter: "hp_update h \<Longrightarrow> slots d (fire p (Enter d, h, ctx)) (hp_pid_tgid h) = Some (args_of ctx)"
  by (cases d) (simp_all add: uprobe_ssl_write_def uprobe_ssl_read_def)

lemma fire_Return:
  "slots d p (hp_pid_tgid h) = Some args \<Longrightarrow>
     tls_events (fire p (Return d, h, ctx)) = ssl_capture h ctx (probe_type d) args (tls_events p)"
  "slots d p (hp_pid_tgid h) = None \<Longrightarrow> fire p (Return d, h, ctx) = p"
  "slots d (fire p (Return d, h, ctx)) (hp_pid_tgid h) = None"
  by (cases d; simp add: uretprobe_ssl_write_def uretprobe_ssl_read_def split: option.split)+

text \<open>The record of a whole call, with other calls in between.\<close>

lemma tls_call_record:
  assumes "hp_update h1" and "hp_pid_tgid h2 = hp_pid_tgid h1"
    and "\<forall>f \<in> set fs. \<not> touches d (hp_pid_tgid h1) f"
    and "p1 = foldl fire (fire p (Enter d, h1, ctx1)) fs" and "p2 = fire p1 (Return d, h2, ctx2)"
    and "exact_reads h2" and "case hp_reserve h2 of None \<Rightarrow> True | Some e \<Rightarrow> length (te_data e) = 4096"
    and "ret = (ucast (PT_REGS_RC ctx2) :: u32)" and "n = min 4096 (unat ret mod 65536)"
  shows "slots d p2 (hp_pid_tgid h1) = None
   \<and> ((sint ret \<le> 0 \<or> n = 0 \<or> hp_reserve h2 = None \<or> hp_read_user h2 n (PT_REGS_PARM2 ctx1) = None)
        \<and> tls_events p2 = tls_events p1
      \<or> (\<exists>b rec. sint ret > 0 \<and> n > 0 \<and> hp_reserve h2 \<noteq> None \<and> hp_read_user h2 n (PT_REGS_PARM2 ctx1) = Some b
        \<and> tls_events p2 = tls_events p1 @ [rec]
        \<and> ParseTLSDataEvent rec = Inr \<lparr>td_Timestamp = duration_of (hp_ktime h2), td_PID = pid_of (hp_pid_tgid h1),
             td_TID = tid_of (hp_pid_tgid h1), td_Len = word_of_nat n, td_OriginalLen = ret,
             td_Type = (case d of SslWrite \<Rightarrow> TLSEventWrite | SslRead \<Rightarrow> TLSEventRead), td_Data = b\<rparr>))"
proof -
  have slot: "slots d p1 (hp_pid_tgid h1) = Some (args_of ctx1)"
    using tls_slots.slot_kept [OF assms(3)] fire_Enter [OF assms(1)] by (simp add: assms(4))
  then have "tls_events p2 = ssl_capture h2 ctx2 (probe_type d) (args_of ctx1) (tls_events p1)"
    using fire_Return(1) assms(2) by (simp add: assms(5))
  moreover have "slots d p2 (hp_pid_tgid h1) = None" using fire_Return(3) [of d p1 h2 ctx2] assms(2,5) by simp
  moreover have "tls_type_of (probe_type d) = (case d of SslWrite \<Rightarrow> TLSEventWrite | SslRead \<Rightarrow> TLSEventRead)"
    by (cases d) (simp_all add: TLS_EVENT_WRITE_def TLS_EVENT_READ_def)
  ultimately show ?thesis
    using ssl_capture_cases [OF assms(6-9), of "args_of ctx1" "probe_type d" "tls_events p1"] assms(2)
    by (simp add: args_of_def)
qed

text \<open>
  Property C20: the plaintext of a call is captured for that call. A thread enters
  \<^verbatim>\<open>SSL_write\<close> or \<^verbatim>\<open>SSL_read\<close>, any other calls enter and return, on other threads and in the
  other direction on this one, and the call returns. Then at most one record is added;
  it is added exactly if the call moved some bytes, their number modulo 65536 is not
  zero, the ring buffer has room and the buffer can be read; it decodes to process,
  thread, direction and number of bytes of this call and to the first bytes of its own
  buffer, at most 4096; what the reserved memory held before does not show. The arguments
  of the call are forgotten in any case.
\<close>

theorem tls_call_captured:
  assumes "hp_update h1" and "hp_pid_tgid h2 = hp_pid_tgid h1"
    and "\<forall>f \<in> set fs. \<not> touches d (hp_pid_tgid h1) f"
    and "p1 = foldl fire (fire p (Enter d, h1, ctx1)) fs" and "p2 = fire p1 (Return d, h2, ctx2)"
    and "exact_reads h2" and "case hp_reserve h2 of None \<Rightarrow> True | Some e \<Rightarrow> length (te_data e) = 4096"
    and "ret = (ucast (PT_REGS_RC ctx2) :: u32)" and "n = min 4096 (unat ret mod 65536)"
  shows "slots d p2 (hp_pid_tgid h1) = None
   \<and> ((sint ret \<le> 0 \<or> n = 0 \<or> hp_reserve h2 = None \<or> hp_read_user h2 n (PT_REGS_PARM2 ctx1) = None)
        \<and> tls_events p2 = tls_events p1
      \<or> (\<exists>b rec. sint ret > 0 \<and> n > 0 \<and> hp_reserve h2 \<noteq> None \<and> hp_read_user h2 n (PT_REGS_PARM2 ctx1) = Some b
        \<and> tls_events p2 = tls_events p1 @ [rec]
        \<and> ParseTLSDataEvent rec = Inr \<lparr>td_Timestamp = duration_of (hp_ktime h2), td_PID = pid_of (hp_pid_tgid h1),
             td_TID = tid_of (hp_pid_tgid h1), td_Len = word_of_nat n, td_OriginalLen = ret,
             td_Type = (case d of SslWrite \<Rightarrow> TLSEventWrite | SslRead \<Rightarrow> TLSEventRead), td_Data = b\<rparr>))"
  by (rule tls_call_record [OF assms])


definition helpers0 :: "u64 \<Rightarrow> 'e option \<Rightarrow> (nat \<Rightarrow> u64 \<Rightarrow> bytes option) \<Rightarrow> 'e Helpers" where
  "helpers0 t e rd = \<lparr>hp_pid_tgid = t, hp_ktime = 9, hp_reserve = e, hp_update = True,
     hp_read_kernel = (\<lambda>_ _. None), hp_read_user = rd\<rparr>"

lemma helpers0_thread [simp]: "hp_pid_tgid (helpers0 t e rd) = t"
  by (simp add: helpers0_def)

text \<open>Reserved memory that still holds an old record.\<close>

definition used_tls :: tls_event where
  "used_tls = \<lparr>te_timestamp_ns = 1, te_pid = 2, te_tid = 3, te_len = 4096, te_original_len = 5, te_event_type = 1,
     te_pad = [], te_data = replicate 4096 (CHR ''#'')\<rparr>"

definition regs0 :: Regs where
  "regs0 = \<lparr>PT_REGS_PARM1 = 0, PT_REGS_PARM2 = 64, PT_REGS_PARM3 = 3, PT_REGS_RC = 3\<rparr>"

theorem tls_call_captured_witness:
  "\<exists>rec ev. tls_events (fire (fire (fire new_tls (Enter SslWrite, helpers0 7 None (\<lambda>_ _. None), regs0))
        (Enter SslWrite, helpers0 8 None (\<lambda>_ _. None), regs0))
        (Return SslWrite, helpers0 7 (Some used_tls) (\<lambda>n a. Some (replicate n (CHR ''x''))), regs0)) = [rec]
     \<and> ParseTLSDataEvent rec = Inr ev \<and> td_Data ev = ''xxx''"
proof -
  let ?h1 = "helpers0 7 None (\<lambda>_ _. None)" and ?h2 = "helpers0 7 (Some used_tls) (\<lambda>n a. Some (replicate n (CHR ''x'')))"
  let ?fs = "[(Enter SslWrite, helpers0 8 None (\<lambda>_ _. None), regs0)]"
  let ?p1 = "foldl fire (fire new_tls (Enter SslWrite, ?h1, regs0)) ?fs"
  have n: "(3 :: nat) = min 4096 (unat (ucast (PT_REGS_RC regs0) :: u32) mod 65536)" by (simp add: regs0_def)
  have h: "hp_update ?h1" "hp_pid_tgid ?h2 = hp_pid_tgid ?h1" "\<forall>f \<in> set ?fs. \<not> touches SslWrite (hp_pid_tgid ?h1) f"
    "exact_reads ?h2" "case hp_reserve ?h2 of None \<Rightarrow> True | Some e \<Rightarrow> length (te_data e) = 4096"
    by (simp_all add: helpers0_def exact_reads_def used_tls_def)
  have x: "replicate 3 (CHR ''x'') = ''xxx''" by code_simp
  have e: "tls_events ?p1 = []" "hp_reserve ?h2 \<noteq> None" "hp_read_user ?h2 3 (PT_REGS_PARM2 regs0) = Some ''xxx''"
    by (simp_all add: helpers0_def new_tls_def uprobe_ssl_write_def x)
  have r: "sint (ucast (PT_REGS_RC regs0) :: u32) = 3" by (simp add: regs0_def)
  from tls_call_captured [OF h(1-3) refl refl h(4,5) refl n, of new_tls regs0] e r
  show ?thesis by auto
qed



text \<open>A call within a call of the same thread and direction hides the outer one.\<close>

lemma nested_call_hidden:
  assumes "hp_pid_tgid h2 = t" "hp_pid_tgid h3 = t" "hp_pid_tgid h4 = t"
  shows "fire (fire (fire (fire p (Enter d, h1, ctx1)) (Enter d, h2, ctx2)) (Return d, h3, ctx3)) (Return d, h4, ctx4)
       = fire (fire (fire p (Enter d, h1, ctx1)) (Enter d, h2, ctx2)) (Return d, h3, ctx3)"
  using fire_Return(2) [of d "fire (fire (fire p (Enter d, h1, ctx1)) (Enter d, h2, ctx2)) (Return d, h3, ctx3)" h4]
    fire_Return(3) [of d _ h3] assms by simp

section \<open>What a certificate leaves in the ring buffer\<close>

text \<open>The entry program accepts a call.\<close>

definition d2i_accepts :: "cert_event Helpers \<Rightarrow> Regs \<Rightarrow> u64 \<Rightarrow> bool" where
  "d2i_accepts h ctx der_p \<longleftrightarrow> 0 < sint (PT_REGS_PARM3 ctx) \<and> sint (PT_REGS_PARM3 ctx) \<le> 65536
     \<and> PT_REGS_PARM2 ctx \<noteq> 0 \<and> hp_read_user h 8 (PT_REGS_PARM2 ctx) = Some (put64 der_p) \<and> der_p \<noteq> 0 \<and> hp_update h"

text \<open>The record of a whole call, with other threads in between.\<close>

lemma cert_record:
  assumes "d2i_accepts h1 ctx1 der_p" and "hp_pid_tgid h2 = hp_pid_tgid h1"
    and "\<forall>f \<in> set fs. \<not> cert_touches (hp_pid_tgid h1) f" and "PT_REGS_RC ctx2 \<noteq> 0"
    and "p1 = foldl fire_cert (uprobe_d2i_x509 h1 ctx1 p) fs" and "p2 = uretprobe_d2i_x509 h2 ctx2 p1"
    and "exact_reads h2" and "hp_reserve h2 \<noteq> None" and "len = nat (sint (PT_REGS_PARM3 ctx1))"
  shows "d2i_active p2 (hp_pid_tgid h1) = None
   \<and> (case hp_read_user h2 2048 der_p of
        None \<Rightarrow> cert_events p2 = cert_events p1
      | Some b \<Rightarrow> \<exists>rec. cert_events p2 = cert_events p1 @ [rec]
          \<and> ParseCertEvent rec = Inr \<lparr>cv_TimestampNS = hp_ktime h2, cv_PID = pid_of (hp_pid_tgid h1),
               cv_TID = tid_of (hp_pid_tgid h1), cv_DERLen = word_of_nat (min 2048 len), cv_OrigLen = word_of_nat len,
               cv_DER = take len b\<rparr>)"
proof -
  let ?t = "hp_pid_tgid h1" and ?len = "ucast (PT_REGS_PARM3 ctx1) :: u32"
  define args where "args = \<lparr>da_in_p = der_p, da_len = ?len, da_pad = 0\<rparr>"
  have s: "0 < sint (PT_REGS_PARM3 ctx1)" "sint (PT_REGS_PARM3 ctx1) \<le> 65536" using assms(1) by (simp_all add: d2i_accepts_def)
  have "word_of_int (int len) = PT_REGS_PARM3 ctx1" using s(1) assms(9) by simp
  then have "PT_REGS_PARM3 ctx1 = word_of_nat len" by simp
  moreover have l2: "len \<le> 65536" using s assms(9) by simp
  ultimately have l: "unat ?len = len" by (simp add: unsigned_ucast_eq unsigned_of_nat take_bit_nat_eq_self)
  have "d2i_active (uprobe_d2i_x509 h1 ctx1 p) ?t = Some args"
    using assms(1) by (simp add: d2i_accepts_def uprobe_d2i_x509_def Let_def args_def)
  then have slot: "d2i_active p1 ?t = Some args" using cert_slots.slot_kept [OF assms(3)] by (simp add: assms(5))
  obtain e where e: "hp_reserve h2 = Some e" using assms(8) by blast
  define capture where "capture = (if ?len > MAX_DER_BYTES then MAX_DER_BYTES else ?len)"
  have c: "unat capture = min 2048 len" using l by (simp add: capture_def MAX_DER_BYTES_def word_less_nat_alt)
  define r where "r b = e\<lparr>cx_timestamp_ns := hp_ktime h2, cx_pid := pid_of ?t, cx_tid := tid_of ?t, cx_orig_len := ?len,
    cx_der_len := capture, cx_der := b\<rparr>" for b
  have cleared: "d2i_active p2 ?t = None"
    using slot e assms(2,4) by (auto simp: assms(6) uretprobe_d2i_x509_def Let_def split: option.split)
  have two: "unat MAX_DER_BYTES = 2048" by (simp add: MAX_DER_BYTES_def)
  have p2: "cert_events p2 = (case hp_read_user h2 2048 der_p of None \<Rightarrow> cert_events p1
      | Some b \<Rightarrow> cert_events p1 @ [put_cert_event (r b)])"
    using slot e assms(2,4) unfolding assms(6) uretprobe_d2i_x509_def Let_def two
    by (simp add: args_def r_def capture_def split: option.split)
  have "ParseCertEvent (put_cert_event (r b)) = Inr \<lparr>cv_TimestampNS = hp_ktime h2, cv_PID = pid_of ?t, cv_TID = tid_of ?t,
      cv_DERLen = word_of_nat (min 2048 len), cv_OrigLen = word_of_nat len, cv_DER = take len b\<rparr>"
    if "hp_read_user h2 2048 der_p = Some b" for b
  proof -
    have "length b = 2048" using that assms(7) by (simp add: exact_reads_def)
    moreover have "capture = word_of_nat (min 2048 len)" by (simp add: c [symmetric])
    moreover have "?len = word_of_nat len" by (simp add: l [symmetric])
    ultimately show ?thesis using parse_cert_event [of "r b"] c by (simp add: r_def min_def)
  qed
  with p2 cleared show ?thesis by (cases "hp_read_user h2 2048 der_p") auto
qed

text \<open>
  Property C22: a certificate is captured exactly when a whole window can be read. A
  thread enters \<^verbatim>\<open>d2i_X509\<close> with a plausible length, other threads run, and the call
  succeeds. If the ring buffer has room, a record is added exactly when 2048 bytes can be
  read at the certificate, whatever its length: a certificate that ends shortly before
  memory that is not mapped is lost. The record decodes to process and thread, the
  length, and the first bytes of the certificate, at most 2048.
\<close>

theorem cert_window:
  assumes "d2i_accepts h1 ctx1 der_p" and "hp_pid_tgid h2 = hp_pid_tgid h1"
    and "\<forall>f \<in> set fs. \<not> cert_touches (hp_pid_tgid h1) f" and "PT_REGS_RC ctx2 \<noteq> 0"
    and "p1 = foldl fire_cert (uprobe_d2i_x509 h1 ctx1 p) fs" and "p2 = uretprobe_d2i_x509 h2 ctx2 p1"
    and "exact_reads h2" and "hp_reserve h2 \<noteq> None" and "len = nat (sint (PT_REGS_PARM3 ctx1))"
  shows "d2i_active p2 (hp_pid_tgid h1) = None
   \<and> (case hp_read_user h2 2048 der_p of
        None \<Rightarrow> cert_events p2 = cert_events p1
      | Some b \<Rightarrow> \<exists>rec. cert_events p2 = cert_events p1 @ [rec]
          \<and> ParseCertEvent rec = Inr \<lparr>cv_TimestampNS = hp_ktime h2, cv_PID = pid_of (hp_pid_tgid h1),
               cv_TID = tid_of (hp_pid_tgid h1), cv_DERLen = word_of_nat (min 2048 len), cv_OrigLen = word_of_nat len,
               cv_DER = take len b\<rparr>)"
  by (rule cert_record [OF assms])


text \<open>A certificate of three bytes before unmapped memory, and one in the middle of a page.\<close>

definition page_end :: "nat \<Rightarrow> u64 \<Rightarrow> bytes option" where
  "page_end n a = (if a = 64 then (if n = 8 then Some (put64 4093) else None)
     else if unat a + n \<le> 4096 then Some (replicate n (CHR ''c'')) else None)"

definition page_start :: "nat \<Rightarrow> u64 \<Rightarrow> bytes option" where
  "page_start n a = (if a = 64 then (if n = 8 then Some (put64 128) else None)
     else if unat a + n \<le> 4096 then Some (replicate n (CHR ''c'')) else None)"

definition used_cert :: cert_event where
  "used_cert = \<lparr>cx_timestamp_ns = 0, cx_pid = 0, cx_tid = 0, cx_der_len = 0, cx_orig_len = 0, cx_der = []\<rparr>"

definition cert_call :: "(nat \<Rightarrow> u64 \<Rightarrow> bytes option) \<Rightarrow> CertProg" where
  "cert_call rd = uretprobe_d2i_x509 (helpers0 7 (Some used_cert) rd) regs0
     (uprobe_d2i_x509 (helpers0 7 None rd) regs0 \<lparr>cert_events = [], d2i_active = (\<lambda>_. None)\<rparr>)"

theorem cert_window_witness:
  "cert_events (cert_call page_end) = []
   \<and> (\<exists>rec. cert_events (cert_call page_start) = [rec] \<and> (\<exists>ev. ParseCertEvent rec = Inr ev \<and> cv_DER ev = ''ccc''))"
proof -
  let ?p = "\<lparr>cert_events = [], d2i_active = (\<lambda>_. None)\<rparr>"
  have p: "page_end 8 64 = Some (put64 4093)" "page_end 2048 4093 = None"
    "page_start 8 64 = Some (put64 128)" "page_start 2048 128 = Some (replicate 2048 (CHR ''c''))"
    by (simp_all add: page_end_def page_start_def)
  have exact: "exact_reads (helpers0 7 (Some used_cert) page_end)" "exact_reads (helpers0 7 (Some used_cert) page_start)"
    by (auto simp: exact_reads_def helpers0_def page_end_def page_start_def split: if_splits)
  have acc: "d2i_accepts (helpers0 7 None page_end) regs0 4093" "d2i_accepts (helpers0 7 None page_start) regs0 128"
    by (simp_all add: d2i_accepts_def helpers0_def regs0_def p)
  have h: "hp_pid_tgid (helpers0 t e rd) = t" "hp_reserve (helpers0 t e rd) = e" "hp_read_user (helpers0 t e rd) = rd"
    "PT_REGS_RC regs0 \<noteq> 0" "nat (sint (PT_REGS_PARM3 regs0)) = 3" "\<forall>f \<in> set []. \<not> cert_touches t f"
    for t and e :: "cert_event option" and rd
    by (simp_all add: helpers0_def regs0_def)
  have none: "cert_events (uprobe_d2i_x509 (helpers0 7 None rd) regs0 ?p) = []" for rd
    by (simp add: uprobe_d2i_x509_def Let_def split: option.split)
  have x: "replicate 3 (CHR ''c'') = ''ccc''" by code_simp
  have e: "cert_events (cert_call page_end) = []"
    using cert_window [OF acc(1), of _ "[]" regs0 _ ?p _ 3, OF _ _ _ refl refl exact(1)]
    by (simp add: h cert_call_def p none)
  have "\<exists>rec. cert_events (cert_call page_start) = [rec] \<and> (\<exists>ev. ParseCertEvent rec = Inr ev \<and> cv_DER ev = ''ccc'')"
    using cert_window [OF acc(2), of _ "[]" regs0 _ ?p _ 3, OF _ _ _ refl refl exact(2)]
    by (auto simp add: h cert_call_def p none x)
  with e show ?thesis by blast
qed

section \<open>What a connection leaves in the ring buffer\<close>

lemma bpf_ntohs_twice: "bpf_ntohs (bpf_ntohs x) = x"
  by (rule bit_word_eqI) (auto simp: bpf_ntohs_def bit_simps dest: bit_imp_le_length)

lemma bpf_ntohs_be: "bpf_ntohs (Uint16 (be_put 2 (unat port))) = port"
proof -
  let ?v = "unat port"
  have v: "?v < 65536" using unsigned_less [of port] by simp
  have "drop_bit 8 port = word_of_nat (?v div 256)"
    by (rule word_unat_eq_iff [THEN iffD2]) (use v in \<open>simp add: drop_bit_eq_div unat_div_distrib unsigned_of_nat take_bit_nat_eq_self\<close>)
  moreover have "push_bit 8 port = word_of_nat (256 * (?v mod 256))"
  proof -
    have "256 * ?v mod 65536 = 256 * (?v mod 256) mod 65536" using mult_mod_right [of 256 ?v 256] by simp
    then have "word_of_nat (256 * ?v) = (word_of_nat (256 * (?v mod 256)) :: u16)"
      by (simp only: word_of_nat_eq_iff take_bit_eq_mod) simp
    then show ?thesis by (simp add: push_bit_eq_mult mult.commute)
  qed
  moreover have "drop_bit 8 port AND push_bit 8 port = 0"
    by (rule bit_word_eqI) (auto simp: bit_simps dest: bit_imp_le_length)
  then have "bpf_ntohs port = drop_bit 8 port + push_bit 8 port"
    by (simp add: bpf_ntohs_def disjunctive_add_eq_or or.commute)
  ultimately have "bpf_ntohs port = word_of_nat (?v div 256 + 256 * (?v mod 256))" by simp
  moreover have "be_put 2 ?v = [char_of (?v div 256), char_of (?v mod 256)]"
    using v by (simp add: be_put_def numeral_2_eq_2)
  then have "Uint16 (be_put 2 ?v) = word_of_nat (?v div 256 + 256 * (?v mod 256))"
    using v by (simp add: Uint16_def)
  ultimately show ?thesis using bpf_ntohs_twice [of port] by simp
qed

text \<open>The bytes of a socket in the kernel: addresses and remote port in network order.\<close>

definition sock_bytes :: "bytes \<Rightarrow> bytes \<Rightarrow> bytes \<Rightarrow> u16 \<Rightarrow> u16 \<Rightarrow> u16 \<Rightarrow> bytes \<Rightarrow> bytes" where
  "sock_bytes daddr saddr hash dport sport family padding =
     daddr @ saddr @ hash @ be_put 2 (unat dport) @ put16 sport @ put16 family @ padding"

lemma read_sock_bytes:
  assumes "length daddr = 4" "length saddr = 4" "length hash = 4"
  shows "read_sock_common (sock_bytes daddr saddr hash dport sport family padding) =
     \<lparr>skc_daddr = Uint32 daddr, skc_rcv_saddr = Uint32 saddr, skc_hash = Uint32 hash,
      skc_dport = Uint16 (be_put 2 (unat dport)), skc_num = sport, skc_family = family\<rparr>"
  using assms by (simp add: read_sock_common_def sock_bytes_def slice_def)

lemma put32_Uint32: "length b = 4 \<Longrightarrow> put32 (Uint32 b) = b"
  using le_put_val [of b 4] by (simp add: put32_def unat_Uint32)

lemma ParseEvent_put:
  assumes "length (re_SrcAddr6 r) = 16" "length (re_DstAddr6 r) = 16"
  shows "ParseEvent (put_RawEvent r) =
     (if re_AF r = 2 \<or> re_AF r = 10
      then Inr \<lparr>ce_Timestamp = duration_of (re_TimestampNS r), ce_PID = re_PID r, ce_TID = re_TID r,
                ce_SrcIP = (if re_AF r = 2 then put32 (re_SrcAddr r) else re_SrcAddr6 r),
                ce_DstIP = (if re_AF r = 2 then put32 (re_DstAddr r) else re_DstAddr6 r),
                ce_SrcPort = re_SrcPort r, ce_DstPort = re_DstPort r, ce_Protocol = re_Protocol r,
                ce_Type = conn_type_of (re_EventType r), ce_Family = family_of (re_AF r)\<rparr>
      else Inl (''unsupported address family: '' @ utoa (unat (re_AF r))))"
  using ParseEvent_put_rest [OF assms, of "[]"] by (simp add: Let_def)

text \<open>The event of a socket, by its family.\<close>

definition event_of ::
  "RawEvent Helpers \<Rightarrow> u8 \<Rightarrow> bytes \<Rightarrow> bytes \<Rightarrow> u16 \<Rightarrow> u16 \<Rightarrow> AddressFamily \<Rightarrow> ConnectionEvent" where
  "event_of h et saddr daddr sport dport fam =
     \<lparr>ce_Timestamp = duration_of (hp_ktime h), ce_PID = pid_of (hp_pid_tgid h), ce_TID = tid_of (hp_pid_tgid h),
      ce_SrcIP = saddr, ce_DstIP = daddr, ce_SrcPort = sport, ce_DstPort = dport, ce_Protocol = 6,
      ce_Type = conn_type_of et, ce_Family = fam\<rparr>"

lemma socket_event:
  assumes "hp_reserve h \<noteq> None" and "hp_read_kernel h 20 sk = Some (sock_bytes daddr saddr hash dport sport family padding)"
    and "length daddr = 4" "length saddr = 4" "length hash = 4"
  shows "family = AF_INET \<Longrightarrow> \<exists>rec. emit_event h sk et ring = ring @ [rec]
           \<and> ParseEvent rec = Inr (event_of h et saddr daddr sport dport AFInet)"
    and "family = AF_INET6 \<Longrightarrow> \<exists>rec. emit_event h sk et ring = ring @ [rec]
           \<and> ParseEvent rec = Inr (event_of h et zero16 zero16 sport dport AFInet6)"
    and "family \<noteq> AF_INET \<Longrightarrow> family \<noteq> AF_INET6 \<Longrightarrow> emit_event h sk et ring = ring"
  using assms(1,2)
  by (auto simp: emit_event_def sizeof_sock_common_def read_sock_bytes [OF assms(3-5)] Let_def AF_INET_def AF_INET6_def
      ParseEvent_put event_of_def put32_Uint32 assms(3,4) bpf_ntohs_be zero16_def)

end
