(* ===== verification/Sidecar_Main.thy ===== *)
theory Sidecar_Main
  imports Agent_Stream
begin

text \<open>
  The sidecar process, \<^verbatim>\<open>cmd/reflector-map/main.go\<close>: its start, its HTTP server and its end;
  and the whole path of a connection from the ring buffer of an agent to the answer of a
  query. Listening and reading key files are parameters.
\<close>

section \<open>The process\<close>

record SidecarFlags =
  sf_staleTTL :: duration
  sf_tls :: TLSConfig

definition new_sidecar :: "SidecarFlags \<Rightarrow> Sidecar" where
  "new_sidecar flags = \<lparr>sc_map = NewMap (sf_staleTTL flags), sc_received = 0, sc_activeConnections = 0,
     sc_identitiesActive = 0\<rparr>"

text \<open>The period of the sweep; \<^verbatim>\<open>time.NewTicker\<close> panics unless it is positive.\<close>

definition sweep_period :: "SidecarFlags \<Rightarrow> duration outcome" where
  "sweep_period flags = (let d = quot_int (sf_staleTTL flags) 2 in if d \<le> 0 then Panic else Value d)"

datatype 'creds startup = ExitTLS string | ExitListen string | Serving "'creds option"

definition sidecar_start :: "(TLSConfig \<Rightarrow> string + 'creds) \<Rightarrow> string option \<Rightarrow> SidecarFlags \<Rightarrow> 'creds startup" where
  "sidecar_start serverCredentials listenErr flags =
     (let listen = (\<lambda>creds. case listenErr of Some err \<Rightarrow> ExitListen err | None \<Rightarrow> Serving creds) in
      if Enabled (sf_tls flags) then
        (case serverCredentials (sf_tls flags) of
           Inl err \<Rightarrow> ExitTLS err
         | Inr creds \<Rightarrow> listen (Some creds))
      else listen None)"

text \<open>The HTTP server of the sidecar, with the token of its environment, and the statistics it prints at its end.\<close>

definition sidecar_http :: "string \<Rightarrow> Sidecar \<Rightarrow> time \<Rightarrow> Request \<Rightarrow> Response" where
  "sidecar_http token s wall r = TokenMiddleware token (Handler (sc_map s) wall) r"

definition final_stats :: "Sidecar \<Rightarrow> Stats" where
  "final_stats s = GetStats (sc_map s)"

text \<open>
  The sidecar serves an authenticated stream only if all three files are
  configured and can be read: then clients must present a certificate of the CA, over
  TLS 1.3. With any of the three missing it serves without any credentials, and with
  all three but a bad file it does not start.
\<close>

lemma sidecar_transport:
  "sidecar_start (ServerCredentials keyPair readFile certsFromPEM) None flags =
     (if tc_CACertFile (sf_tls flags) = [] \<or> tc_CertFile (sf_tls flags) = [] \<or> tc_KeyFile (sf_tls flags) = []
      then Serving None
      else case load_TLSConfig keyPair readFile certsFromPEM (sf_tls flags) of
          Inl err \<Rightarrow> ExitTLS err
        | Inr (cert, ca) \<Rightarrow> Serving (Some
            \<lparr>tl_Certificate = cert, tl_ClientCAs = Some ca, tl_RootCAs = None, tl_RequireClientCert = True,
             tl_ServerName = [], tl_MinVersion = 772\<rparr>))"
  by (auto simp: sidecar_start_def Enabled_def ServerCredentials_def VersionTLS13_def Let_def
      split: sum.split prod.split)

text \<open>The ticker of the sweep panics for a time-to-live of less than two nanoseconds.\<close>

lemma sweep_period_cases:
  "sweep_period flags = (if sf_staleTTL flags < 2 then Panic else Value (sf_staleTTL flags div 2))"
proof (cases "sf_staleTTL flags < 0")
  case True
  then have "quot_int (sf_staleTTL flags) 2 \<le> 0" by (auto simp: quot_int_def sgn_if pos_imp_zdiv_nonneg_iff)
  with True show ?thesis by (simp add: sweep_period_def)
next
  case False
  then have "quot_int (sf_staleTTL flags) 2 = sf_staleTTL flags div 2" by (auto simp: quot_int_def sgn_if)
  moreover have "sf_staleTTL flags div 2 \<le> 0 \<longleftrightarrow> sf_staleTTL flags < 2" using False by linarith
  ultimately show ?thesis by (simp add: sweep_period_def)
qed

section \<open>From the kernel to the query\<close>

definition sessions_request :: "string \<Rightarrow> string \<Rightarrow> Request" where
  "sessions_request dst node = \<lparr>rq_Method = ''GET'', rq_Path = ''/sessions'',
     rq_Query = [(''dest'', dst), (''status'', ''active''), (''node_id'', node)], rq_Header = []\<rparr>"

lemma table_open:
  assumes "map_inv m" "ev_EventType ev = CONNECTION_OPEN"
  shows "table (HandleEvent m wall ev) (eventKey ev) = Some (openEntry ev (eventTime wall ev))"
proof -
  obtain v where "table (handleOpen m ev (eventTime wall ev))
       = (case v of None \<Rightarrow> table m | Some k \<Rightarrow> (table m)(k := None))(eventKey ev \<mapsto> openEntry ev (eventTime wall ev))"
    using table_handleOpen [OF assms(1)] by blast
  then show ?thesis using assms(2) by (simp add: HandleEvent_def Let_def)
qed

lemma open_in_table:
  assumes "map_inv m" "ev_EventType ev = CONNECTION_OPEN"
  shows "openEntry ev (eventTime wall ev) \<in> set (map snd (entries (HandleEvent m wall ev)))"
proof -
  have "(eventKey ev, openEntry ev (eventTime wall ev)) \<in> set (entries (HandleEvent m wall ev))"
    using table_open [OF assms] by (simp add: table_def map_of_SomeD)
  then show ?thesis by force
qed

lemma connection_queued:
  assumes "ParseEvent b = Inr ce" "length (ag_events a) < channelSize"
  shows "ag_events (connection_round a now b) = ag_events a @ [connectionEventToProto now ce]"
  using assms by (simp add: connection_round_def Let_def offer_def count_in_def)

text \<open>
  A connection that the kernel reports can be found. When the agent reads
  the record of a connection and its channel has room, the event it queues, sent by
  its client and accepted by the sidecar, is in the answer to a query for active
  sessions of the node with that destination, with addresses and process of the
  connection; the node is the one of the peer's certificate, or without TLS the one
  the agent claims. (As long as there are at most a thousand such sessions and all
  their instants can be printed.)
\<close>

lemma visible_connection:
  assumes "sidecar_inv s" and "ParseEvent b = Inr ce" and "length (ag_events a) < channelSize"
    and "ev = last (ag_events (connection_round a now b))" and "fst (Send c transport ev) = Some wire"
    and "s1 = sidecar_handler s t (bindNode (nodeIDFromPeer pr) wire)"
    and "node = (if nodeIDFromPeer pr \<noteq> [] then nodeIDFromPeer pr else cl_nodeID c)"
    and "dst = ip_String (ce_DstIP ce) @ '':'' @ utoa (unat (ce_DstPort ce))"
    and "json_ok (JEntries (QueryAll (sc_map s1) [] dst ''active'' node))"
    and "length (QueryAll (sc_map s1) [] dst ''active'' node) \<le> 1000"
  shows "\<exists>es e. Handler (sc_map s1) wall (sessions_request dst node)
        = \<lparr>rs_Status = 200, rs_Header = [(''Content-Type'', ''application/json'')], rs_Body = JEntries es\<rparr>
     \<and> e \<in> set es \<and> en_NodeID e = node \<and> en_DestAddr e = dst
     \<and> en_SourceAddr e = ip_String (ce_SrcIP ce) @ '':'' @ utoa (unat (ce_SrcPort ce))
     \<and> en_PID e = ce_PID ce \<and> en_FirstSeen e = now \<and> en_Status e = ''active''"
proof -
  have ev: "ev = connectionEventToProto now ce" using assms(4) connection_queued [OF assms(2,3)] by simp
  have wire: "wire = ev\<lparr>ev_NodeId := cl_nodeID c\<rparr>" using assms(5) by (auto simp: Send_def Let_def split: if_splits)
  define x where "x = bindNode (nodeIDFromPeer pr) wire"
  have x: "x = ev\<lparr>ev_NodeId := node\<rparr>" by (simp add: x_def bindNode_def wire assms(7))
  have time: "eventTime t x = now" "ev_EventType x = CONNECTION_OPEN"
    by (simp_all add: x ev connectionEventToProto_def eventTime_def)
  define e where "e = openEntry x now"
  have m: "sc_map s1 = HandleEvent (sc_map s) t x" by (simp add: assms(6) sidecar_handler_def x_def)
  have "map_inv (sc_map s)" using assms(1) by (simp add: sidecar_inv_def)
  from open_in_table [OF this time(2), of t] have mem: "e \<in> set (map snd (entries (sc_map s1)))"
    by (simp add: m time(1) e_def)
  have e: "en_NodeID e = node" "en_DestAddr e = dst" "en_Status e = ''active''" "en_PID e = ce_PID ce"
    "en_SourceAddr e = ip_String (ce_SrcIP ce) @ '':'' @ utoa (unat (ce_SrcPort ce))" "en_FirstSeen e = now"
    by (simp_all add: e_def openEntry_def Let_def split_beta applyOTELFields_def x ev connectionEventToProto_def assms(8))
  define es where "es = QueryAll (sc_map s1) [] dst ''active'' node"
  have "e \<in> set es" using mem e(1-3) by (simp add: es_def QueryAll_def query_match_def)
  moreover have "Handler (sc_map s1) wall (sessions_request dst node)
      = \<lparr>rs_Status = 200, rs_Header = [(''Content-Type'', ''application/json'')], rs_Body = JEntries es\<rparr>"
    using assms(9,10) unfolding es_def
    by (simp add: Handler_def routes_def sessions_request_def api_sessions get_first_def int_param_def Let_def)
  ultimately show ?thesis using e by blast
qed

lemma new_sidecar_inv: "sidecar_inv (new_sidecar flags)"
  using map_inv_NewMap [of "sf_staleTTL flags"]
  by (simp add: sidecar_inv_def new_sidecar_def GetStats_def) (simp add: NewMap_def)

end
