(* ===== verification/Probe_Agent.thy ===== *)
theory Probe_Agent
  imports Probes Sidecar_Main
begin

text \<open>
  The probes composed with the agent and the sidecar: from a socket in the kernel to the
  session list, from the call of \<^verbatim>\<open>SSL_write\<close> to the events of the agent, and from the call of
  \<^verbatim>\<open>d2i_X509\<close> to the deny map.
\<close>

section \<open>From the socket to the session list\<close>

text \<open>The two programs, by the register that holds the socket.\<close>

lemma connect_emits:
  "kprobe_tcp_connect h (ctx\<lparr>PT_REGS_PARM1 := sk\<rparr>) ring = emit_event h sk EVENT_CONNECT ring"
  "sk \<noteq> 0 \<Longrightarrow> kretprobe_inet_csk_accept h (ctx\<lparr>PT_REGS_RC := sk\<rparr>) ring = emit_event h sk EVENT_ACCEPT ring"
  by (simp_all add: kprobe_tcp_connect_def kretprobe_inet_csk_accept_def)

definition address :: "bytes \<Rightarrow> u16 \<Rightarrow> string" where
  "address ip port = ip_String ip @ '':'' @ utoa (unat port)"


definition ex_socket :: "RawEvent Helpers" where
  "ex_socket = \<lparr>hp_pid_tgid = 30064771080, hp_ktime = 9, hp_reserve = Some raw_example, hp_update = True,
     hp_read_kernel = (\<lambda>n a. Some (sock_bytes (put32 0x0200000A) (put32 0x0100000A) (put32 0) 443 4000 AF_INET [])),
     hp_read_user = (\<lambda>_ _. None)\<rparr>"

definition ex_record :: bytes where
  "ex_record = last (kprobe_tcp_connect ex_socket (regs0\<lparr>PT_REGS_PARM1 := 5\<rparr>) [])"

definition visible_event :: ReflectorEvent where
  "visible_event = (last (ag_events (connection_round (new_agent None) 5 ex_record)))\<lparr>ev_NodeId := ''n''\<rparr>"

definition visible_sidecar :: Sidecar where
  "visible_sidecar = sidecar_handler (new_sidecar \<lparr>sf_staleTTL = 60, sf_tls = \<lparr>tc_CACertFile = [], tc_CertFile = [],
     tc_KeyFile = []\<rparr>\<rparr>) 7 visible_event"


section \<open>Connections over IPv6\<close>

text \<open>
  Property C23: connections over IPv6 lose their addresses and each other. The probe
  reads no IPv6 address, so the agent reports every such connection as one between
  unspecified addresses. Two connections of a node with the same two ports, from and to
  whatever hosts, have the same key: the second open event replaces the entry of the
  first, which is then in the table no more.
\<close>

theorem ipv6_connections_merge:
  assumes "hp_reserve h1 \<noteq> None" "hp_reserve h2 \<noteq> None"
    and "hp_read_kernel h1 20 sk1 = Some (sock_bytes d1 s1 hash1 dport sport AF_INET6 pad1)"
    and "hp_read_kernel h2 20 sk2 = Some (sock_bytes d2 s2 hash2 dport sport AF_INET6 pad2)"
    and "length d1 = 4" "length s1 = 4" "length hash1 = 4" "length d2 = 4" "length s2 = 4" "length hash2 = 4"
    and "ev1 = (last (ag_events (connection_round a1 now1 (last (emit_event h1 sk1 et1 ring1)))))\<lparr>ev_NodeId := node\<rparr>"
    and "ev2 = (last (ag_events (connection_round a2 now2 (last (emit_event h2 sk2 et2 ring2)))))\<lparr>ev_NodeId := node\<rparr>"
    and "length (ag_events a1) < channelSize" "length (ag_events a2) < channelSize"
    and "map_inv m" and "m2 = HandleEvent (HandleEvent m wall1 ev1) wall2 ev2"
  shows "ev_SourceAddr ev1 = ''::'' @ '':'' @ utoa (unat sport) \<and> ev_DestAddr ev1 = ''::'' @ '':'' @ utoa (unat dport)
     \<and> eventKey ev2 = eventKey ev1
     \<and> map_of (entries m2) (eventKey ev1) = Some (openEntry ev2 now2)"
proof -
  have ev: "ev = (connectionEventToProto now (event_of h et zero16 zero16 sport dport AFInet6))\<lparr>ev_NodeId := node\<rparr>"
    if "hp_reserve h \<noteq> None" "hp_read_kernel h 20 sk = Some (sock_bytes d s hash dport sport AF_INET6 padding)"
      "length d = 4" "length s = 4" "length hash = 4" "length (ag_events a) < channelSize"
      "ev = (last (ag_events (connection_round a now (last (emit_event h sk et ring)))))\<lparr>ev_NodeId := node\<rparr>"
    for h sk d s hash padding a now ring et and ev :: ReflectorEvent
  proof -
    note facts = that
    obtain rec where "emit_event h sk et ring = ring @ [rec]"
      "ParseEvent rec = Inr (event_of h et zero16 zero16 sport dport AFInet6)"
      using socket_event(2) [OF facts(1-5) refl] by blast
    with connection_queued [of rec _ a now] facts(6,7) show ?thesis by simp
  qed
  have ev1: "ev1 = (connectionEventToProto now1 (event_of h1 et1 zero16 zero16 sport dport AFInet6))\<lparr>ev_NodeId := node\<rparr>"
    by (rule ev [OF assms(1,3,5,6,7,13,11)])
  have ev2: "ev2 = (connectionEventToProto now2 (event_of h2 et2 zero16 zero16 sport dport AFInet6))\<lparr>ev_NodeId := node\<rparr>"
    by (rule ev [OF assms(2,4,8,9,10,14,12)])
  have unspecified: "ip_String zero16 = ''::''" by code_simp
  have key: "eventKey ev2 = eventKey ev1"
    by (simp add: ev1 ev2 connectionEventToProto_def event_of_def eventKey_def)
  have t: "eventTime wall2 ev2 = now2" "ev_EventType ev2 = CONNECTION_OPEN"
    by (simp_all add: ev2 connectionEventToProto_def eventTime_def)
  have "map_inv (HandleEvent m wall1 ev1)" using assms(15) by (rule map_inv_HandleEvent)
  from table_open [OF this t(2), of wall2] have "map_of (entries m2) (eventKey ev2) = Some (openEntry ev2 now2)"
    by (simp add: assms(16) t(1) table_def)
  with key show ?thesis
    by (simp add: ev1 connectionEventToProto_def event_of_def unspecified)
qed

definition ex_socket6 :: "bytes \<Rightarrow> RawEvent Helpers" where
  "ex_socket6 ip = ex_socket\<lparr>hp_read_kernel := (\<lambda>n a. Some (sock_bytes ip ip (put32 0) 443 4000 AF_INET6 []))\<rparr>"

definition ex_event6 :: "time \<Rightarrow> bytes \<Rightarrow> ReflectorEvent" where
  "ex_event6 now ip = (last (ag_events (connection_round (new_agent None) now
     (last (emit_event (ex_socket6 ip) 5 EVENT_CONNECT [])))))\<lparr>ev_NodeId := ''n''\<rparr>"

theorem ipv6_connections_merge_witness:
  "map_of (entries (HandleEvent (HandleEvent (NewMap 60) 1 (ex_event6 1 (put32 3))) 2 (ex_event6 2 (put32 4))))
     (eventKey (ex_event6 1 (put32 3))) = Some (openEntry (ex_event6 2 (put32 4)) 2)"
proof -
  have h: "hp_reserve (ex_socket6 ip) \<noteq> None"
    "hp_read_kernel (ex_socket6 ip) 20 5 = Some (sock_bytes ip ip (put32 0) 443 4000 AF_INET6 [])" for ip
    by (simp_all add: ex_socket6_def ex_socket_def)
  have room: "length (ag_events (new_agent None)) < channelSize" by code_simp
  from ipv6_connections_merge [OF h(1) h(1) h(2) h(2) length_put(3) length_put(3) length_put(3) length_put(3) length_put(3)
      length_put(3) ex_event6_def ex_event6_def room room map_inv_NewMap refl]
  show ?thesis by blast
qed

section \<open>From the call to the events of the agent\<close>

text \<open>
  Property C19: what the agent reports of a TLS call is the call's own. For a call of
  \<^verbatim>\<open>SSL_write\<close> or \<^verbatim>\<open>SSL_read\<close> that moved some bytes, their number not a multiple of 65536, the
  events that the agent appends for its record are those of the identities in the first
  bytes of the call's own buffer, at most 4096, under the process of the calling thread,
  whatever other threads did meanwhile.
\<close>

theorem call_reported:
  assumes "hp_update h1" and "hp_pid_tgid h2 = hp_pid_tgid h1"
    and "\<forall>f \<in> set fs. \<not> touches d (hp_pid_tgid h1) f"
    and "p1 = foldl fire (fire p (Enter d, h1, ctx1)) fs" and "p2 = fire p1 (Return d, h2, ctx2)"
    and "exact_reads h2" and "hp_reserve h2 = Some e" "length (te_data e) = 4096"
    and "ret = (ucast (PT_REGS_RC ctx2) :: u32)" and "sint ret > 0" and "\<not> 65536 dvd unat ret"
    and "hp_read_user h2 (min 4096 (unat ret mod 65536)) (PT_REGS_PARM2 ctx1) = Some plain"
    and "ExtractIdentitiesFromTLS utab pw plain = Value r" and "length (ag_events a) \<le> channelSize"
  shows "\<exists>rec a1 posted. tls_events p2 = tls_events p1 @ [rec] \<and> tls_round utab pw fwd a now rec = Value (a1, posted)
     \<and> ag_events a1 = take channelSize (ag_events a @ identity_events now (pid_of (hp_pid_tgid h1)) r)"
proof -
  have n: "min 4096 (unat ret mod 65536) \<noteq> 0" using assms(11) by (simp add: dvd_eq_mod_eq_0)
  have e: "case hp_reserve h2 of None \<Rightarrow> True | Some e \<Rightarrow> length (te_data e) = 4096" using assms(7,8) by simp
  obtain rec ev where rec: "tls_events p2 = tls_events p1 @ [rec]" "ParseTLSDataEvent rec = Inr ev"
      "td_Data ev = plain" "td_PID ev = pid_of (hp_pid_tgid h1)"
    using tls_call_record [OF assms(1-6) e assms(9) refl] n assms(7,10,12) by auto
  from tls_round_events [OF rec(2), of utab pw r a fwd now] rec(1,3,4) assms(13,14) show ?thesis by auto
qed

definition ex_buffer :: "nat \<Rightarrow> u64 \<Rightarrow> bytes option" where
  "ex_buffer n a = Some (take n (otlp_example @ replicate n (CHR 0x00)))"

theorem call_reported_witness:
  "\<exists>rec a1 posted.
     tls_events (fire (fire new_tls (Enter SslWrite, helpers0 7 None ex_buffer, regs0))
       (Return SslWrite, helpers0 7 (Some used_tls) ex_buffer, regs0\<lparr>PT_REGS_RC := word_of_nat (length otlp_example)\<rparr>)) = [rec]
     \<and> tls_round (\<lambda>r. r) wire_example None (new_agent None) 5 rec = Value (a1, posted)
     \<and> ag_events a1 = [otlpSignalToProto 5 sig_example 0]"
proof -
  let ?ctx = "regs0\<lparr>PT_REGS_RC := word_of_nat (length otlp_example)\<rparr>"
  let ?ret = "ucast (PT_REGS_RC ?ctx) :: u32" and ?h2 = "helpers0 7 (Some used_tls) ex_buffer"
  have len: "length otlp_example < 4096" "0 < length otlp_example" by (simp_all add: otlp_example_def crlf2_def)
  have small: "unat (ucast (word_of_nat k :: u64) :: u32) = k \<and> (0 < k \<longrightarrow> 0 < sint (ucast (word_of_nat k :: u64) :: u32))"
    if "k < 4096" for k
  proof -
    have k: "unat (ucast (word_of_nat k :: u64) :: u32) = k"
      using that by (simp add: unsigned_ucast_eq unsigned_of_nat take_bit_nat_eq_self)
    then have "ucast (word_of_nat k :: u64) = (word_of_nat k :: u32)"
      using that by (simp add: word_unat_eq_iff unsigned_of_nat take_bit_nat_eq_self)
    with k that show ?thesis by (simp add: signed_of_nat signed_take_bit_int_eq_self)
  qed
  have ret: "unat ?ret = length otlp_example" and pos: "0 < sint ?ret" using small [OF len(1)] len(2) by simp_all
  have n: "min 4096 (unat ?ret mod 65536) = length otlp_example" "\<not> 65536 dvd unat ?ret"
    using len unfolding ret by (simp_all add: dvd_eq_mod_eq_0)
  have h: "hp_update (helpers0 7 None ex_buffer)" "hp_pid_tgid ?h2 = hp_pid_tgid (helpers0 7 None ex_buffer)"
    "\<forall>f \<in> set []. \<not> touches SslWrite (hp_pid_tgid (helpers0 7 None ex_buffer)) f" "exact_reads ?h2"
    "hp_reserve ?h2 = Some used_tls" "length (te_data used_tls) = 4096"
    "hp_read_user ?h2 (min 4096 (unat ?ret mod 65536)) (PT_REGS_PARM2 regs0) = Some otlp_example"
    unfolding n(1) by (simp_all add: helpers0_def exact_reads_def ex_buffer_def used_tls_def min_def)
  have r: "ExtractIdentitiesFromTLS (\<lambda>r. r) wire_example otlp_example = Value
      \<lparr>ir_JWT = None, ir_MCP = None, ir_OTLP = Some sig_example, ir_Boundary = None\<rparr>"
    by (simp add: ExtractIdentitiesFromTLS_def otlp_example_result)
  have room: "length (ag_events (new_agent None)) \<le> channelSize" by code_simp
  have p: "tls_events (foldl fire (fire new_tls (Enter SslWrite, helpers0 7 None ex_buffer, regs0)) []) = []"
    "pid_of 7 = 0" "channelSize = Suc 511" "ag_events (new_agent None) = []"
    by (simp_all add: uprobe_ssl_write_def new_tls_def helpers0_def pid_of_def channelSize_def new_agent_def drop_bit_eq_div)
  from call_reported [OF h(1-3) refl refl h(4-6) refl pos n(2) h(7) r room, of new_tls None 5] p
  show ?thesis by (simp add: identity_events_def)
qed

end
