(* ===== verification/Workload.thy ===== *)
theory Workload
  imports Identities
begin

text \<open>
  The test workload, \<^verbatim>\<open>cmd/test-workload/main.go\<close>: the requests it makes, in the order of its
  ticker, the token it presents, and the OTLP export it encodes with the package
  protowire, whose functions are parameters with their documented laws. The
  properties follow its traffic through the extractors of the reflector.
\<close>

section \<open>Encoding\<close>

record protoappend =
  AppendTag :: "bytes \<Rightarrow> int \<Rightarrow> int \<Rightarrow> bytes"
  AppendBytes :: "bytes \<Rightarrow> bytes \<Rightarrow> bytes"
  AppendVarint :: "bytes \<Rightarrow> u64 \<Rightarrow> bytes"
  AppendFixed64 :: "bytes \<Rightarrow> u64 \<Rightarrow> bytes"

definition VarintType :: int where "VarintType = 0"
definition Fixed64Type :: int where "Fixed64Type = 1"

text \<open>\<open>stringAnyValue\<close> and \<open>kvAttr\<close>.\<close>

definition stringAnyValue :: "protoappend \<Rightarrow> string \<Rightarrow> bytes" where
  "stringAnyValue pa s = AppendBytes pa (AppendTag pa [] 1 BytesType) s"

definition kvAttr :: "protoappend \<Rightarrow> string \<Rightarrow> string \<Rightarrow> bytes" where
  "kvAttr pa key val =
     (let kv = AppendTag pa [] 1 BytesType;
          kv = AppendBytes pa kv key;
          kv = AppendTag pa kv 2 BytesType
      in AppendBytes pa kv (stringAnyValue pa val))"

definition build_span :: "protoappend \<Rightarrow> u64 \<Rightarrow> bytes \<Rightarrow> bytes \<Rightarrow> bytes" where
  "build_span pa now traceID spanID =
     (let status = AppendTag pa [] 3 VarintType;
          status = AppendVarint pa status 1;
          span = AppendTag pa [] 1 BytesType;
          span = AppendBytes pa span traceID;
          span = AppendTag pa span 2 BytesType;
          span = AppendBytes pa span spanID;
          span = AppendTag pa span 5 BytesType;
          span = AppendBytes pa span ''mcp.tools.call'';
          span = AppendTag pa span 6 VarintType;
          span = AppendVarint pa span 3;
          span = AppendTag pa span 7 Fixed64Type;
          span = AppendFixed64 pa span now;
          span = AppendTag pa span 8 Fixed64Type;
          span = AppendFixed64 pa span (now + 1000000);
          span = foldl (\<lambda>span attr. AppendBytes pa (AppendTag pa span 9 BytesType) attr) span
            [kvAttr pa ''mcp.tool'' ''vault_read'', kvAttr pa ''mcp.server'' ''vault-mcp'',
             kvAttr pa ''spiffe.id'' ''spiffe://demo.cluster/ns/default/sa/test-agent''];
          span = AppendTag pa span 15 BytesType
      in AppendBytes pa span status)"

definition buildOTLPProtoBody :: "protoappend \<Rightarrow> u64 \<Rightarrow> bytes \<Rightarrow> bytes \<Rightarrow> string \<Rightarrow> bytes" where
  "buildOTLPProtoBody pa now traceID spanID serviceName =
     (let resource = AppendTag pa [] 1 BytesType;
          resource = AppendBytes pa resource (kvAttr pa ''service.name'' serviceName);
          span = build_span pa now traceID spanID;
          scope = AppendTag pa [] 1 BytesType;
          scope = AppendBytes pa scope ''reflector-demo'';
          scopeSpans = AppendTag pa [] 1 BytesType;
          scopeSpans = AppendBytes pa scopeSpans scope;
          scopeSpans = AppendTag pa scopeSpans 2 BytesType;
          scopeSpans = AppendBytes pa scopeSpans span;
          rs = AppendTag pa [] 1 BytesType;
          rs = AppendBytes pa rs resource;
          rs = AppendTag pa rs 2 BytesType;
          rs = AppendBytes pa rs scopeSpans;
          req = AppendTag pa [] 1 BytesType
      in AppendBytes pa req rs)"

definition buildTestJWT :: "string \<Rightarrow> string \<Rightarrow> string" where
  "buildTestJWT sub iss =
     (let header = b64_encode ''{\"alg\":\"ES256\",\"typ\":\"JWT\"}'';
          payload = json_print (JObject [(''aud'', JString ''reflector-demo''), (''iss'', JString iss), (''sub'', JString sub)]);
          payloadEnc = b64_encode payload;
          sig = b64_encode ''test-signature-not-verified''
      in header @ ''.'' @ payloadEnc @ ''.'' @ sig)"

section \<open>Requests\<close>

record HTTPRequest =
  hr_Method :: string
  hr_URL :: string
  hr_Header :: "(string \<times> string) list"
  hr_Body :: bytes

text \<open>
  What becomes of a request: building it fails, sending it fails, or it is answered. The
  check of the URL and the HTTP client are parameters.
\<close>

datatype exchange = BuildFailed | RequestFailed HTTPRequest string | Completed HTTPRequest nat

definition exchange_of :: "(HTTPRequest \<Rightarrow> string + nat) \<Rightarrow> HTTPRequest \<Rightarrow> exchange" where
  "exchange_of client req =
     (case client req of Inl err \<Rightarrow> RequestFailed req err | Inr status \<Rightarrow> Completed req status)"

definition doRequest ::
  "(string \<Rightarrow> bool) \<Rightarrow> (HTTPRequest \<Rightarrow> string + nat) \<Rightarrow> string \<Rightarrow> string \<Rightarrow> json option \<Rightarrow> exchange" where
  "doRequest valid_url client url jwt body =
     (if \<not> valid_url url then BuildFailed
      else exchange_of client
        \<lparr>hr_Method = (case body of None \<Rightarrow> ''GET'' | Some v \<Rightarrow> ''POST''), hr_URL = url,
         hr_Header = (if jwt \<noteq> [] then [(''Authorization'', ''Bearer '' @ jwt)] else [])
                   @ (case body of None \<Rightarrow> [] | Some v \<Rightarrow> [(''Content-Type'', ''application/json'')]),
         hr_Body = (case body of None \<Rightarrow> [] | Some v \<Rightarrow> json_print v)\<rparr>)"

definition emitOTLPTraces ::
  "protoappend \<Rightarrow> (string \<Rightarrow> bool) \<Rightarrow> (HTTPRequest \<Rightarrow> string + nat) \<Rightarrow> string \<Rightarrow> u64 \<Rightarrow> bytes \<Rightarrow> bytes
   \<Rightarrow> string \<Rightarrow> exchange" where
  "emitOTLPTraces pa valid_url client collectorURL now traceID spanID serviceName =
     (let body = buildOTLPProtoBody pa now traceID spanID serviceName; url = collectorURL @ ''/v1/traces'' in
      if \<not> valid_url url then BuildFailed
      else exchange_of client
        \<lparr>hr_Method = ''POST'', hr_URL = url, hr_Header = [(''Content-Type'', ''application/x-protobuf'')],
         hr_Body = body\<rparr>)"

text \<open>The traffic loop: what one tick of the ticker does, and the next request number.\<close>

datatype action = Call string string "json option" | Export string string | Idle

definition test_spiffe_id :: string where
  "test_spiffe_id = ''spiffe://demo.cluster/ns/default/sa/test-agent''"

definition test_jwt :: string where
  "test_jwt = buildTestJWT test_spiffe_id ''vault-demo''"

definition mcpBody :: "int \<Rightarrow> json" where
  "mcpBody requestNum =
     JObject [(''id'', JNumber (itoa requestNum)), (''jsonrpc'', JString ''2.0''), (''method'', JString ''tools/call''),
       (''params'', JObject [(''arguments'', JObject [(''path'', JString ''secret/data/app'')]),
          (''name'', JString ''vault_read'')])]"

definition tick :: "string \<Rightarrow> string \<Rightarrow> string \<Rightarrow> int \<Rightarrow> int \<times> action" where
  "tick target otelCollector serviceName requestNum =
     (let n = wrap64 (requestNum + 1); r = rem_int n 4 in
      (n, if r = 0 then Call (''https://'' @ target @ ''/api/secrets'') test_jwt None
          else if r = 1 then Call (''https://'' @ target @ ''/mcp'') test_jwt (Some (mcpBody n))
          else if r = 2 then Call (''https://'' @ target @ ''/health'') [] None
          else if r = 3 then (if otelCollector \<noteq> [] then Export otelCollector serviceName else Idle)
          else Idle))"

section \<open>The laws of protowire\<close>

definition append_laws :: "protowire \<Rightarrow> protoappend \<Rightarrow> bool" where
  "append_laws pw pa \<longleftrightarrow>
     (\<forall>b n t. AppendTag pa b n t = b @ AppendTag pa [] n t)
   \<and> (\<forall>b v. AppendBytes pa b v = b @ AppendBytes pa [] v)
   \<and> (\<forall>n t r. 1 \<le> n \<longrightarrow> n < 2 ^ 29 \<longrightarrow> 0 \<le> t \<longrightarrow> t < 6 \<longrightarrow>
        ConsumeTag pw (AppendTag pa [] n t @ r) = (n, t, int (length (AppendTag pa [] n t))))
   \<and> (\<forall>v r. ConsumeBytes pw (AppendBytes pa [] v @ r) = (v, int (length (AppendBytes pa [] v))))
   \<and> (\<forall>n v r. ConsumeFieldValue pw n BytesType (AppendBytes pa [] v @ r) = int (length (AppendBytes pa [] v)))"


text \<open>One field with a length-delimited value, as it is appended.\<close>

definition field :: "protoappend \<Rightarrow> int \<Rightarrow> bytes \<Rightarrow> bytes" where
  "field pa n v = AppendTag pa [] n BytesType @ AppendBytes pa [] v"

lemma append_field:
  assumes "append_laws pw pa"
  shows "AppendBytes pa (AppendTag pa b n BytesType) v = b @ field pa n v"
proof -
  have "AppendTag pa b n BytesType = b @ AppendTag pa [] n BytesType"
    and B: "\<And>b v. AppendBytes pa b v = b @ AppendBytes pa [] v"
    using assms unfolding append_laws_def by blast+
  then show ?thesis by (metis B append.assoc field_def)
qed

lemma consume_field:
  assumes "append_laws pw pa" "1 \<le> n" "n < 2 ^ 29"
  shows "ConsumeTag pw (field pa n v @ r) = (n, BytesType, int (length (AppendTag pa [] n BytesType)))"
    "drop (length (AppendTag pa [] n BytesType)) (field pa n v @ r) = AppendBytes pa [] v @ r"
    "ConsumeBytes pw (AppendBytes pa [] v @ r) = (v, int (length (AppendBytes pa [] v)))"
    "ConsumeFieldValue pw n BytesType (AppendBytes pa [] v @ r) = int (length (AppendBytes pa [] v))"
proof -
  have t: "0 \<le> BytesType" "BytesType < 6" by (simp_all add: BytesType_def)
  have "\<forall>n t r. 1 \<le> n \<longrightarrow> n < 2 ^ 29 \<longrightarrow> 0 \<le> t \<longrightarrow> t < 6 \<longrightarrow>
        ConsumeTag pw (AppendTag pa [] n t @ r) = (n, t, int (length (AppendTag pa [] n t)))"
    using assms(1) unfolding append_laws_def by blast
  then have "\<forall>r. ConsumeTag pw (AppendTag pa [] n BytesType @ r) = (n, BytesType, int (length (AppendTag pa [] n BytesType)))"
    using assms(2,3) t by blast
  then show "ConsumeTag pw (field pa n v @ r) = (n, BytesType, int (length (AppendTag pa [] n BytesType)))"
    by (simp add: field_def)
  show "drop (length (AppendTag pa [] n BytesType)) (field pa n v @ r) = AppendBytes pa [] v @ r"
    by (simp add: field_def)
qed (use assms(1) in \<open>unfold append_laws_def, blast+\<close>)

lemma field_nonempty:
  assumes "append_laws pw pa" "wire_laws pw" "1 \<le> n" "n < 2 ^ 29"
  shows "field pa n v \<noteq> []"
proof -
  have "0 < length (AppendTag pa [] n BytesType)"
    using wire_tag [OF assms(2) consume_field(1) [OF assms(1,3,4), of v "[]"]] by auto
  then show ?thesis by (auto simp: field_def)
qed

locale wire_pair =
  fixes pw :: protowire and pa :: protoappend
  assumes wire: "wire_laws pw" and pair: "append_laws pw pa"
begin

lemma first_hit: "1 \<le> n \<Longrightarrow> n < 2 ^ 29 \<Longrightarrow> first_field pw (Suc fuel) n (field pa n v @ r) = Value (Some v)"
  using consume_field [OF pair, of n v r] field_nonempty [OF pair wire, of n v]
  by (simp add: first_field.simps Let_def) (simp add: field_def)

lemma first_skip:
  "1 \<le> k \<Longrightarrow> k < 2 ^ 29 \<Longrightarrow> k \<noteq> n \<Longrightarrow>
   first_field pw (Suc fuel) n (field pa k v @ r) = first_field pw fuel n r"
  using consume_field [OF pair, of k v r] field_nonempty [OF pair wire, of k v]
  by (simp add: first_field.simps Let_def) (simp add: field_def)

lemma first_message: "1 \<le> n \<Longrightarrow> n < 2 ^ 29 \<Longrightarrow> protoFirstMessage pw (field pa n v @ r) n = Value (Some v)"
  by (simp add: protoFirstMessage_def first_hit)

lemma first_string: "1 \<le> n \<Longrightarrow> n < 2 ^ 29 \<Longrightarrow> protoFirstString pw (field pa n v @ r) n = Value v"
  by (simp add: protoFirstString_def first_hit)

lemma second_message:
  assumes "1 \<le> k" "k < 2 ^ 29" "k \<noteq> n" "1 \<le> n" "n < 2 ^ 29"
  shows "protoFirstMessage pw (field pa k u @ field pa n v) n = Value (Some v)"
proof -
  obtain m where m: "length (field pa k u @ field pa n v) = Suc m"
    using field_nonempty [OF pair wire assms(1,2), of u] by (cases "field pa k u") auto
  show ?thesis
    using first_skip [OF assms(1-3), of "Suc m"] first_hit [OF assms(4,5), of m v "[]"]
    unfolding protoFirstMessage_def m by simp
qed

lemma kvAttr_fields: "kvAttr pa key val = field pa 1 key @ field pa 2 (stringAnyValue pa val)"
  by (simp add: kvAttr_def Let_def append_field [OF pair])

lemma service_value_kvAttr: "service_value pw (kvAttr pa ''service.name'' s) = Value (Some s)"
  using first_string [of 1 s "[]"]
  by (simp add: service_value_def kvAttr_fields first_string second_message stringAnyValue_def append_field [OF pair])

lemma attribute_hit: "attribute_loop pw (Suc fuel) (field pa 1 (kvAttr pa ''service.name'' s)) = Value s"
  using consume_field [OF pair, of 1 "kvAttr pa ''service.name'' s" "[]"]
    field_nonempty [OF pair wire, of 1 "kvAttr pa ''service.name'' s"]
  by (simp add: attribute_loop.simps Let_def service_value_kvAttr) (simp add: field_def)

lemma count_one: "countTopLevelEntries pw (field pa 1 v) = Value 1"
proof -
  obtain m where m: "length (field pa 1 v) = Suc m"
    using field_nonempty [OF pair wire, of 1 v] by (cases "field pa 1 v") auto
  show ?thesis
    using consume_field [OF pair, of 1 v "[]"] field_nonempty [OF pair wire, of 1 v]
    unfolding countTopLevelEntries_def m by (simp add: count_loop.simps Let_def) (simp add: field_def count_loop.simps)
qed

lemma body_fields:
  "buildOTLPProtoBody pa now tid sid name
     = field pa 1 (field pa 1 (field pa 1 (kvAttr pa ''service.name'' name))
         @ field pa 2 (field pa 1 (field pa 1 ''reflector-demo'') @ field pa 2 (build_span pa now tid sid)))"
  by (simp add: buildOTLPProtoBody_def Let_def append_field [OF pair])

lemma body_name: "extractServiceName pw (buildOTLPProtoBody pa now tid sid name) = Value name"
  using first_message [of 1 _ "[]"]
  by (simp add: extractServiceName_def body_fields first_message attribute_hit)

lemma body_count: "countTopLevelEntries pw (buildOTLPProtoBody pa now tid sid name) = Value 1"
  by (simp only: body_fields count_one)

lemma body_nonempty: "buildOTLPProtoBody pa now tid sid name \<noteq> []"
  unfolding body_fields by (rule field_nonempty [OF pair wire]) simp_all

end

section \<open>The wire format\<close>

text \<open>An instance of the laws: tags and lengths in base 128.\<close>

fun put_varint :: "nat \<Rightarrow> bytes" where
  "put_varint n = (if n < 128 then [char_of n] else char_of (128 + n mod 128) # put_varint (n div 128))"

declare put_varint.simps [simp del]

fun get_varint :: "bytes \<Rightarrow> (nat \<times> nat) option" where
  "get_varint [] = None"
| "get_varint (c # r) =
     (if (of_char c :: nat) < 128 then Some (of_char c, 1)
      else case get_varint r of None \<Rightarrow> None | Some (v, k) \<Rightarrow> Some (of_char c - 128 + 128 * v, Suc k))"

lemma get_put_varint: "get_varint (put_varint n @ r) = Some (n, length (put_varint n))"
proof (induction n rule: put_varint.induct)
  case (1 n)
  show ?case
  proof (cases "n < 128")
    case True
    then show ?thesis by (simp add: put_varint.simps [of n])
  next
    case False
    have m: "(128 + n mod 128) mod 256 = 128 + n mod 128" by (rule mod_less) (use mod_less_divisor [of 128 n] in linarith)
    have "get_varint (put_varint (n div 128) @ r) = Some (n div 128, length (put_varint (n div 128)))"
      by (rule 1 [OF False])
    then show ?thesis using False m by (simp add: put_varint.simps [of n])
  qed
qed

lemma get_varint_bound: "get_varint b = Some (v, k) \<Longrightarrow> 0 < k \<and> k \<le> length b"
  by (induction b arbitrary: v k) (auto split: if_splits option.splits)

definition wire_format :: protowire where
  "wire_format =
     \<lparr>ConsumeTag = (\<lambda>b. case get_varint b of None \<Rightarrow> (0, 0, - 1)
        | Some (v, k) \<Rightarrow> if v div 8 = 0 then (0, 0, - 1) else (int (v div 8), int (v mod 8), int k)),
      ConsumeBytes = (\<lambda>b. case get_varint b of None \<Rightarrow> ([], - 1)
        | Some (v, k) \<Rightarrow> if k + v \<le> length b then (take v (drop k b), int (k + v)) else ([], - 1)),
      ConsumeFieldValue = (\<lambda>num typ b.
        if typ = 0 then (case get_varint b of None \<Rightarrow> - 1 | Some (v, k) \<Rightarrow> int k)
        else if typ = 1 then (if 8 \<le> length b then 8 else - 1)
        else if typ = 2 then (case get_varint b of None \<Rightarrow> - 1
          | Some (v, k) \<Rightarrow> if k + v \<le> length b then int (k + v) else - 1)
        else if typ = 5 then (if 4 \<le> length b then 4 else - 1)
        else - 1)\<rparr>"

definition append_format :: protoappend where
  "append_format =
     \<lparr>AppendTag = (\<lambda>b n t. b @ put_varint (nat (8 * n + t))),
      AppendBytes = (\<lambda>b v. b @ put_varint (length v) @ v),
      AppendVarint = (\<lambda>b v. b @ put_varint (unat v)),
      AppendFixed64 = (\<lambda>b v. b @ put64 v)\<rparr>"

lemma wire_format_laws: "wire_laws wire_format"
  by (auto simp: wire_laws_def wire_format_def dest: get_varint_bound split: option.splits if_splits)

lemma append_format_laws: "append_laws wire_format append_format"
proof -
  have "nat (8 * n + t) div 8 = nat n \<and> nat (8 * n + t) mod 8 = nat t" if "1 \<le> n" "0 \<le> t" "t < 6" for n t :: int
    using that by (simp add: nat_div_distrib [symmetric] nat_mod_distrib [symmetric] flip: nat_numeral)
  then show ?thesis
    by (auto simp: append_laws_def wire_format_def append_format_def get_put_varint BytesType_def)
qed

interpretation wf: wire_pair wire_format append_format
  by unfold_locales (rule wire_format_laws, rule append_format_laws)

section \<open>What the reflector sees of it\<close>

definition http_head :: "string list \<Rightarrow> bytes" where
  "http_head lines = concat (map (\<lambda>l. l @ [CHR 0x0D, CHR 0x0A]) lines) @ [CHR 0x0D, CHR 0x0A]"

lemma http_text_head: "http_text lines body = http_head lines @ body"
  by (simp add: http_text_def http_head_def)

lemma findHeaderEnd_http:
  assumes "list_all header_line lines" "lines \<noteq> []" "body \<noteq> []"
  shows "findHeaderEnd (http_text lines body) = Some (length (http_head lines))"
proof -
  obtain i where i: "findHeaderEnd (http_text lines body) = Some i" "drop i (http_text lines body) = body"
    using findHTTPBody_http [OF assms(1,2), of body] findHTTPBody_agrees [of "http_text lines body"] by auto
  then have "length (http_text lines body) - i = length body" by (metis length_drop)
  with assms(3) have "i = length (http_head lines)" by (simp add: http_text_head) (cases body; simp)
  with i(1) show ?thesis by simp
qed

definition traces_line :: string where "traces_line = ''POST /v1/traces HTTP/1.1''"

lemma traces_path:
  "HasPrefix (http_text (traces_line # hs) body) ''POST ''"
  "Index (drop 5 (http_text (traces_line # hs) body)) '' '' = Some 10"
  "take 10 (drop 5 (http_text (traces_line # hs) body)) = ''/v1/traces''"
  "signal_of_path ''/v1/traces'' = (''traces'', False)"
  by (simp_all add: traces_line_def http_text_def HasPrefix_def signal_of_path_def otlpPaths_def)

text \<open>
  The export of the test workload is read back. For every encoder and
  decoder of the protobuf wire format that agree as documented, every service name,
  time and identifiers, and every header whose announced length is not beyond the
  body, the extractor reports a complete traces signal with that service name and
  one entry, and keeps the encoded body for forwarding.
\<close>

lemma workload_export_observed:
  assumes "wire_laws pw" and "append_laws pw pa"
    and body: "body = buildOTLPProtoBody pa now traceID spanID name"
    and "list_all header_line hs"
    and "extractContentLength utab (http_head (traces_line # hs)) = Value c" and "c \<le> int (length body)"
  shows "ExtractOTLPFromTLS utab pw (http_text (traces_line # hs) body) = Value (Some
     \<lparr>os_SignalType = ''traces'', os_ServiceName = name, os_BatchCount = 1, os_RawBody = body, os_IsTruncated = False\<rparr>)"
proof -
  have w: "wire_pair pw pa" by (rule wire_pair.intro [OF assms(1,2)])
  note facts = wire_pair.body_name [OF w] wire_pair.body_count [OF w] wire_pair.body_nonempty [OF w]
  have line: "list_all header_line (traces_line # hs)" using assms(4) by (simp add: traces_line_def header_line_def)
  have ne: "body \<noteq> []" using facts(3) by (simp add: body)
  define t where "t = http_text (traces_line # hs) body"
  define n where "n = length (http_head (traces_line # hs))"
  have "findHeaderEnd t = Some n"
    unfolding t_def n_def by (rule findHeaderEnd_http [OF line _ ne]) simp
  moreover have "take n t = http_head (traces_line # hs)" "drop n t = body"
    by (simp_all add: t_def n_def http_text_head)
  moreover have "otlp_body pw \<lparr>os_SignalType = ''traces'', os_ServiceName = [], os_BatchCount = 0, os_RawBody = [],
        os_IsTruncated = True\<rparr> False c body = Value \<lparr>os_SignalType = ''traces'', os_ServiceName = name,
          os_BatchCount = 1, os_RawBody = body, os_IsTruncated = False\<rparr>"
    using facts(1,2) ne assms(6) by (simp add: otlp_body_def proto_body_def body Let_def)
  ultimately show ?thesis
    using assms(5) traces_path(1-3) [of hs body, folded t_def] traces_path(4) by (simp add: ExtractOTLPFromTLS_def t_def [symmetric])
qed

subsection \<open>The tool call\<close>

lemma utoa_head: "0 < n \<Longrightarrow> \<exists>c s. utoa n = c # s \<and> c \<noteq> CHR ''0''"
proof (induction n rule: utoa.induct)
  case (1 n)
  show ?case
  proof (cases "n < 10")
    case True
    have "char_of (48 + n) \<noteq> CHR ''0''" using True 1(2) by (auto simp: char_of_eq_iff take_bit_eq_mod)
    with True show ?thesis by (simp add: utoa.simps [of n])
  next
    case False
    then have "0 < n div 10" by simp
    then obtain c s where "utoa (n div 10) = c # s" "c \<noteq> CHR ''0''" using 1(1) [OF False] by blast
    with False show ?thesis by (simp add: utoa.simps [of n])
  qed
qed

lemma itoa_number:
  assumes "0 < n" "n < 2 ^ 63"
  shows "number_lit (itoa n)" "number_ok (itoa n)"
proof -
  have i: "itoa n = utoa (nat n)" using assms(1) by (simp add: itoa_def)
  obtain c s where c: "utoa (nat n) = c # s" "c \<noteq> CHR ''0''" using utoa_head [of "nat n"] assms(1) by auto
  show "number_lit (itoa n)"
    using number_lit_digits [of c s] utoa_digits [of "nat n"] c by (simp add: i)
  have "nat n < 2 ^ 64" using assms by simp
  then show "number_ok (itoa n)"
    using number_ok_digits [of "utoa (nat n)"] utoa_digits by (simp add: i digits_val_utoa)
qed

lemma mcpBody_request: "mcpBody n = call_request (JNumber (itoa n)) (JObject [(''path'', JString ''secret/data/app'')]) ''vault_read''"
  by (simp add: mcpBody_def call_request_def)

lemma mcpBody_wf:
  assumes "0 < n" "n < 2 ^ 63"
  shows "json_wf 0 (mcpBody n)"
proof -
  have "utf8_string ''id''" "utf8_string ''jsonrpc''" "utf8_string ''2.0''" "utf8_string ''method''"
    "utf8_string ''tools/call''" "utf8_string ''params''" "utf8_string ''arguments''" "utf8_string ''name''"
    "utf8_string ''vault_read''" "utf8_string ''path''" "utf8_string ''secret/data/app''"
    by (rule utf8_ascii, code_simp)+
  then show ?thesis using itoa_number(1) [OF assms] by (simp add: mcpBody_def maxNestingDepth_def)
qed

definition test_claims :: "string \<Rightarrow> string \<Rightarrow> (string \<times> json) list" where
  "test_claims sub iss = [(''aud'', JString ''reflector-demo''), (''iss'', JString iss), (''sub'', JString sub)]"

lemma test_claims_wf:
  "utf8_string sub \<Longrightarrow> utf8_string iss \<Longrightarrow> json_wf 0 (JObject (test_claims sub iss))"
  "numbers_ok (JObject (test_claims sub iss))"
proof -
  have "utf8_string ''aud''" "utf8_string ''iss''" "utf8_string ''sub''" "utf8_string ''reflector-demo''"
    by (rule utf8_ascii, code_simp)+
  then show "utf8_string sub \<Longrightarrow> utf8_string iss \<Longrightarrow> json_wf 0 (JObject (test_claims sub iss))"
    by (simp add: test_claims_def maxNestingDepth_def)
qed (simp add: test_claims_def)

lemma buildTestJWT_parts:
  "buildTestJWT sub iss = b64_encode ''{\"alg\":\"ES256\",\"typ\":\"JWT\"}'' @ ''.''
     @ b64_encode (json_print (JObject (test_claims sub iss))) @ ''.'' @ b64_encode ''test-signature-not-verified''"
  by (simp only: buildTestJWT_def test_claims_def Let_def)

lemma b64_encode_all: "list_all b64_alphabet (b64_encode b)"
  using b64_encode_alphabet by (auto simp: list_all_iff)

lemma buildTestJWT_observed:
  assumes "list_all (other_line utab) pre" "utf8_string sub" "utf8_string iss"
  shows "\<exists>j. ExtractJWTFromHTTP utab (http_text (pre @ (''Authorization: Bearer '' @ buildTestJWT sub iss) # post) body)
      = Value (Inr (Some j)) \<and> jw_Subject j = sub \<and> jw_Issuer j = iss \<and> jw_Audience j = ''reflector-demo''"
proof -
  let ?k = "test_claims sub iss"
  have "string_claim (rev ?k) ''sub'' = sub" "string_claim (rev ?k) ''iss'' = iss"
    "string_claim (rev ?k) ''aud'' = ''reflector-demo''"
    by (simp_all add: string_claim_def test_claims_def)
  with jwt_found [OF assms(1) b64_encode_all b64_encode_all test_claims_wf(1) [OF assms(2,3)] test_claims_wf(2)]
  show ?thesis unfolding buildTestJWT_parts by (metis JWTIdentity.select_convs(1-3))
qed

lemma buildTestJWT_token:
  "list_all token_char (buildTestJWT sub iss)" "buildTestJWT sub iss \<noteq> []"
  "2 \<le> count_list (buildTestJWT sub iss) (CHR ''.'')"
proof -
  have "list_all token_char (b64_encode b)" for b using b64_encode_all [of b] by (auto simp: list_all_iff token_char_def)
  moreover have "list_all token_char ''.''" by (simp add: token_char_def)
  ultimately show "list_all token_char (buildTestJWT sub iss)"
    unfolding buildTestJWT_parts by (simp only: list_all_append simp_thms)
qed (simp_all only: buildTestJWT_parts append_is_Nil_conv list.distinct simp_thms count_list_append, simp)

definition mcp_line :: string where "mcp_line = ''POST /mcp HTTP/1.1''"

lemma mcp_line_other: "other_line utab mcp_line"
proof -
  have "TrimRightByte (CHR 0x0D) mcp_line = mcp_line" "is_ascii mcp_line" "CHR 0x0A \<notin> set mcp_line"
    "\<not> HasPrefix (ascii_lower mcp_line) authorization" by code_simp+
  then show ?thesis using ToLower_append [of mcp_line utab "[]"]
    by (simp add: other_line_def ToLower_def runes.simps)
qed

lemma mcp_not_otlp: "ExtractOTLPFromTLS utab pw (http_text (mcp_line # lines) body) = Value None"
proof -
  have "HasPrefix (http_text (mcp_line # lines) body) ''POST ''"
    "Index (drop 5 (http_text (mcp_line # lines) body)) '' '' = Some 4"
    "take 4 (drop 5 (http_text (mcp_line # lines) body)) = ''/mcp''"
    by (simp_all add: mcp_line_def http_text_def HasPrefix_def)
  moreover have "signal_of_path ''/mcp'' = ([], False)" by (simp add: signal_of_path_def otlpPaths_def otlpGRPCPaths_def)
  ultimately show ?thesis by (simp add: ExtractOTLPFromTLS_def)
qed

lemma test_strings: "utf8_string test_spiffe_id" "utf8_string ''vault-demo''"
  by (rule utf8_ascii, code_simp)+

text \<open>
  The tool call of the test workload is observed in full. At every tick
  whose number leaves one when divided by four, the workload makes a request whose
  token and body, in whatever other headers they are sent, give exactly the JWT with
  the workload's identity as subject, and the tool call vault_read with the number of
  the request; no other identity is reported.
\<close>

lemma workload_call_observed:
  assumes "0 \<le> n" and "n < 2 ^ 63 - 1" and "rem_int (n + 1) 4 = 1"
    and "list_all (other_line utab) pre" and "list_all header_line pre" and "list_all header_line post"
  shows "\<exists>url jwt body r j. tick target collector service n = (n + 1, Call url jwt (Some body))
     \<and> ExtractIdentitiesFromTLS utab pw
         (http_text ((mcp_line # pre) @ (''Authorization: Bearer '' @ jwt) # post) (json_print body)) = Value r
     \<and> ir_JWT r = Some j \<and> jw_Subject j = test_spiffe_id \<and> jw_Issuer j = ''vault-demo''
     \<and> ir_MCP r = Some \<lparr>mc_Method = ''vault_read'', mc_ID = JNumber (itoa (n + 1))\<rparr>
     \<and> ir_OTLP r = None \<and> ir_Boundary r = None"
proof -
  have w: "wrap64 (n + 1) = n + 1" by (rule wrap64_id) (use assms(1,2) in \<open>simp_all add: minDuration_def maxDuration_def\<close>)
  let ?lines = "(mcp_line # pre) @ (''Authorization: Bearer '' @ test_jwt) # post"
  define t where "t = http_text ?lines (json_print (mcpBody (n + 1)))"
  have tick: "tick target collector service n
      = (n + 1, Call (''https://'' @ target @ ''/mcp'') test_jwt (Some (mcpBody (n + 1))))"
    using assms(3) w by (simp add: tick_def Let_def)
  have pre: "list_all (other_line utab) (mcp_line # pre)" using assms(4) mcp_line_other by simp
  obtain j where j: "ExtractJWTFromHTTP utab t = Value (Inr (Some j))" "jw_Subject j = test_spiffe_id"
    "jw_Issuer j = ''vault-demo''"
    using buildTestJWT_observed [OF pre test_strings] unfolding t_def test_jwt_def by blast
  have tok: "list_all token_char test_jwt" "test_jwt \<noteq> []" "2 \<le> count_list test_jwt (CHR ''.'')"
    unfolding test_jwt_def by (rule buildTestJWT_token)+
  have "findBearerToken utab t = Value test_jwt"
    unfolding t_def by (rule bearer_found [OF pre bare_token_chars [OF tok(2,1)]])
  then have b: "ExtractBoundaryTokenFromHTTP utab t = Value None"
    using tok by (simp add: ExtractBoundaryTokenFromHTTP_def)
  have "header_line mcp_line" by code_simp
  moreover have "header_line (''Authorization: Bearer '' @ test_jwt)"
    using tok(1) token_char_plain(4) by (auto simp: header_line_def list_all_iff)
  ultimately have lines: "list_all header_line ?lines" using assms(5,6) by simp
  have n: "0 < n + 1" "n + 1 < 2 ^ 63" using assms(1,2) by simp_all
  have "ExtractMCPToolFromHTTP t = Some \<lparr>mc_Method = ''vault_read'', mc_ID = any_of (JNumber (itoa (n + 1)))\<rparr>"
    using mcp_observed [OF lines _ mcpBody_wf [OF n, unfolded mcpBody_request]] itoa_number(2) [OF n]
    unfolding t_def mcpBody_request by simp
  moreover have "ExtractOTLPFromTLS utab pw t = Value None" unfolding t_def by (simp only: append_Cons mcp_not_otlp)
  ultimately show ?thesis
    using tick j b unfolding t_def ExtractIdentitiesFromTLS_def by (auto simp del: append_Cons)
qed

end
