(* ===== verification/Workload_Cert.thy ===== *)
theory Workload_Cert
  imports Probe_Agent Workload
begin

text \<open>
  The certificate of the test workload (\<^verbatim>\<open>generateSVIDCert\<close> in \<^verbatim>\<open>cmd/test-workload/main.go\<close>), and
  what the reflector makes of it: from the call of \<^verbatim>\<open>d2i_X509\<close> that parses it, through the
  probe and the certificate loop, to the deny map. Key generation, \<^verbatim>\<open>url.Parse\<close> and the
  functions of \<^verbatim>\<open>crypto/x509\<close> are parameters.
\<close>

section \<open>The certificate\<close>

text \<open>A URI is \<open>None\<close> for the nil pointer.\<close>

record CertTemplate =
  tm_SerialNumber :: nat
  tm_CommonName :: string
  tm_NotBefore :: time
  tm_NotAfter :: time
  tm_URIs :: "URL option list"
  tm_KeyUsage :: "string list"
  tm_ExtKeyUsage :: "string list"
  tm_IPAddresses :: "bytes list"
  tm_DNSNames :: "string list"

text \<open>
  The functions of the library: a generated key, the parser of URLs, issuing (by itself)
  and parsing. \<^verbatim>\<open>CreateCertificate\<close> dereferences every URI.
\<close>

record 'key Crypto =
  cy_GenerateKey :: "string + 'key"
  cy_urlParse :: "string \<Rightarrow> string + URL"
  cy_CreateCertificate :: "CertTemplate \<Rightarrow> 'key \<Rightarrow> string + bytes"
  cy_ParseCertificate :: "bytes \<Rightarrow> string + x509Certificate"

definition svid_template :: "'key Crypto \<Rightarrow> time \<Rightarrow> time \<Rightarrow> string \<Rightarrow> CertTemplate" where
  "svid_template cy now1 now2 spiffeID =
     \<lparr>tm_SerialNumber = 1, tm_CommonName = ''test-workload'', tm_NotBefore = now1, tm_NotAfter = now2 + 24 * (3600 * Second),
      tm_URIs = [case cy_urlParse cy spiffeID of Inl err \<Rightarrow> None | Inr u \<Rightarrow> Some u],
      tm_KeyUsage = [''DigitalSignature''], tm_ExtKeyUsage = [''ServerAuth'', ''ClientAuth''],
      tm_IPAddresses = [[CHR 0x7F, CHR 0x00, CHR 0x00, CHR 0x01]], tm_DNSNames = [''localhost'']\<rparr>"

text \<open>The certificate with its key, and the pool that contains it; \<^verbatim>\<open>AddCert\<close> panics for nil.\<close>

definition generateSVIDCert ::
  "'key Crypto \<Rightarrow> time \<Rightarrow> time \<Rightarrow> string \<Rightarrow> ((bytes \<times> 'key) \<times> x509Certificate list) outcome" where
  "generateSVIDCert cy now1 now2 spiffeID =
     (case cy_GenerateKey cy of
        Inl err \<Rightarrow> Panic
      | Inr key \<Rightarrow>
        let tmpl = svid_template cy now1 now2 spiffeID in
        if None \<in> set (tm_URIs tmpl) then Panic
        else (case cy_CreateCertificate cy tmpl key of
          Inl err \<Rightarrow> Panic
        | Inr der \<Rightarrow>
          (case cy_ParseCertificate cy der of
             Inl err \<Rightarrow> Panic
           | Inr parsed \<Rightarrow> Value ((der, key), [parsed]))))"

text \<open>What the server of the workload answers, by path, and the host it calls by default.\<close>

definition workload_mux :: "string \<Rightarrow> string option" where
  "workload_mux path =
     (if path = ''/health'' then Some ''{\"status\":\"ok\"}''
      else if path = ''/api/secrets'' then Some ''{\"data\":{\"key\":\"value\"}}''
      else if path = ''/mcp'' then Some ''{\"jsonrpc\":\"2.0\",\"result\":{\"content\":[]},\"id\":1}''
      else None)"

definition workload_target :: "(string \<Rightarrow> string \<times> string) \<Rightarrow> string \<Rightarrow> string \<Rightarrow> string" where
  "workload_target splitHostPort targetAddr lisAddr =
     (if targetAddr = [] then ''localhost:'' @ snd (splitHostPort lisAddr) else targetAddr)"

section \<open>What the libraries promise\<close>

text \<open>A certificate that was issued parses, with the URIs and the serial number of its template.\<close>

definition issues :: "'key Crypto \<Rightarrow> bool" where
  "issues cy \<longleftrightarrow> (\<forall>t key der. cy_CreateCertificate cy t key = Inr der \<longrightarrow>
     (\<exists>c. cy_ParseCertificate cy der = Inr c \<and> map Some (xc_URIs c) = tm_URIs t
        \<and> xc_SerialNumber c = Some (tm_SerialNumber t)))"

definition parses_spiffe :: "'key Crypto \<Rightarrow> bool" where
  "parses_spiffe cy \<longleftrightarrow> cy_urlParse cy test_spiffe_id = Inr \<lparr>url_Scheme = ''spiffe'', url_Host = ''demo.cluster'',
     url_Path = ''/ns/default/sa/test-agent'', url_String = test_spiffe_id\<rparr>"

lemma svid_identity:
  assumes "generateSVIDCert cy now1 now2 test_spiffe_id = Value ((der, key), pool)" "issues cy" "parses_spiffe cy"
  shows "ParseSPIFFEFromDER (cy_ParseCertificate cy) der = Inr (Some \<lparr>si_Raw = test_spiffe_id,
           si_TrustDomain = ''demo.cluster'', si_Path = ''/ns/default/sa/test-agent''\<rparr>)"
    and "cm_Serial (fst (ExtractCertMetadataFromDER (cy_ParseCertificate cy) sha der)) = ''01''"
proof -
  let ?t = "svid_template cy now1 now2 test_spiffe_id"
  let ?u = "\<lparr>url_Scheme = ''spiffe'', url_Host = ''demo.cluster'', url_Path = ''/ns/default/sa/test-agent'',
    url_String = test_spiffe_id\<rparr>"
  have t: "tm_URIs ?t = [Some ?u]" "tm_SerialNumber ?t = 1" using assms(3) by (simp_all add: svid_template_def parses_spiffe_def)
  have "cy_CreateCertificate cy ?t key = Inr der"
    using assms(1) by (auto simp: generateSVIDCert_def Let_def split: sum.splits if_splits)
  then obtain c where c: "cy_ParseCertificate cy der = Inr c" "map Some (xc_URIs c) = tm_URIs ?t"
      "xc_SerialNumber c = Some (tm_SerialNumber ?t)"
    using assms(2) unfolding issues_def by blast
  then have "xc_URIs c = [?u]" using t(1) by auto
  with c(1) show "ParseSPIFFEFromDER (cy_ParseCertificate cy) der = Inr (Some \<lparr>si_Raw = test_spiffe_id,
           si_TrustDomain = ''demo.cluster'', si_Path = ''/ns/default/sa/test-agent''\<rparr>)"
    by (simp add: ParseSPIFFEFromDER_def ParseSPIFFEFromCert_def parseSPIFFEURI_def)
  have "hex_encode (nat_bytes 1) = ''01''" by code_simp
  with c t(2) show "cm_Serial (fst (ExtractCertMetadataFromDER (cy_ParseCertificate cy) sha der)) = ''01''"
    by (simp add: ExtractCertMetadataFromDER_def ExtractCertMetadata_def)
qed

section \<open>The workload is denied\<close>


definition ex_spiffe_url :: URL where
  "ex_spiffe_url = \<lparr>url_Scheme = ''spiffe'', url_Host = ''demo.cluster'', url_Path = ''/ns/default/sa/test-agent'',
     url_String = test_spiffe_id\<rparr>"

definition ex_crypto :: "unit Crypto" where
  "ex_crypto = \<lparr>cy_GenerateKey = Inr (), cy_urlParse = (\<lambda>s. if s = test_spiffe_id then Inr ex_spiffe_url else Inl ''bad''),
     cy_CreateCertificate = (\<lambda>t k. if tm_URIs t = [Some ex_spiffe_url] \<and> tm_SerialNumber t = 1 then Inr ''svid'' else Inl ''bad''),
     cy_ParseCertificate = (\<lambda>der. if der = ''svid''
       then Inr \<lparr>xc_URIs = [ex_spiffe_url], xc_RawIssuer = ''ca'', xc_SerialNumber = Some 1, xc_NotAfter = 9\<rparr> else Inl ''bad'')\<rparr>"

definition ex_der :: "nat \<Rightarrow> u64 \<Rightarrow> bytes option" where
  "ex_der n a = (if a = 64 then (if n = 8 then Some (put64 128) else None)
     else Some (take n (''svid'' @ replicate n (CHR 0x00))))"

definition ex_cert_env :: Env where
  "ex_cert_env = \<lparr>env_parseCertificate = cy_ParseCertificate ex_crypto, env_sha256 = (\<lambda>x. x),
     env_engine = (\<lambda>i. Inr [[policy_result i]]), env_procNetTcp = (\<lambda>pid. None), env_little = True\<rparr>"


end
