(* ===== verification/Sidecar_Streams.thy ===== *)
theory Sidecar_Streams
  imports Stream
begin

text \<open>
  The sidecar with all of its streams (\<^verbatim>\<open>internal/stream/server.go\<close>, \<^verbatim>\<open>cmd/reflector-map/main.go\<close>):
  gRPC runs \<^verbatim>\<open>StreamEvents\<close> once per agent, each with its own node and token bucket, and all
  of them, and the sweep ticker, act on one session map. A step is what one stream receives
  or one tick.
\<close>

section \<open>The server\<close>

record ServerStream =
  ss_node :: string
  ss_bucket :: "tokenBucket option"
  ss_open :: bool

record Server =
  sv_sidecar :: Sidecar
  sv_rateLimit :: int
  sv_streams :: "ServerStream list"

datatype server_input =
    Accept "Certificate list list option" time
  | Receive nat recv
  | SweepTick time

definition accept_stream :: "int \<Rightarrow> Certificate list list option \<Rightarrow> time \<Rightarrow> ServerStream" where
  "accept_stream rateLimit pr start =
     \<lparr>ss_node = nodeIDFromPeer pr,
      ss_bucket = (if rateLimit > 0 then Some (newTokenBucket rateLimit start) else None), ss_open = True\<rparr>"

text \<open>One iteration of the loop of a stream: the stream after it, and the event it hands to the handler.\<close>

fun receive :: "ServerStream \<Rightarrow> recv \<Rightarrow> ServerStream \<times> (time \<times> ReflectorEvent) option" where
  "receive st (Recv now ev) =
     (case ss_bucket st of
        None \<Rightarrow> (st, Some (now, bindNode (ss_node st) ev))
      | Some b \<Rightarrow> if fst (Allow b now)
                  then (st\<lparr>ss_bucket := Some (snd (Allow b now))\<rparr>, Some (now, bindNode (ss_node st) ev))
                  else (st\<lparr>ss_open := False\<rparr>, None))"
| "receive st _ = (st\<lparr>ss_open := False\<rparr>, None)"

fun server_step :: "Server \<Rightarrow> server_input \<Rightarrow> Server" where
  "server_step sv (Accept pr start) = sv\<lparr>sv_streams := sv_streams sv @ [accept_stream (sv_rateLimit sv) pr start]\<rparr>"
| "server_step sv (SweepTick now) = sv\<lparr>sv_sidecar := sidecar_tick (sv_sidecar sv) now\<rparr>"
| "server_step sv (Receive i r) =
     (if i < length (sv_streams sv) \<and> ss_open (sv_streams sv ! i)
      then let (st, handled) = receive (sv_streams sv ! i) r
           in sv\<lparr>sv_streams := (sv_streams sv)[i := st],
                 sv_sidecar := (case handled of None \<Rightarrow> sv_sidecar sv | Some (t, ev) \<Rightarrow> sidecar_handler (sv_sidecar sv) t ev)\<rparr>
      else sv)"

section \<open>One stream alone\<close>

lemma closed_stream: "\<not> ss_open (sv_streams sv ! i) \<Longrightarrow> foldl server_step sv (map (Receive i) rs) = sv"
  by (induction rs) simp_all

lemma loop_receive:
  assumes "ss_open st" "receive st r = (st1, h)" "s1 = (case h of None \<Rightarrow> s | Some (t, ev) \<Rightarrow> f s t ev)"
  shows "fst (stream_loop f limit (ss_node st) (ss_bucket st) s (r # rs))
     = (if ss_open st1 then fst (stream_loop f limit (ss_node st1) (ss_bucket st1) s1 rs) else s1)"
  using assms by (cases r) (auto split: option.splits if_splits)

text \<open>A stream that runs alone is the loop of \<open>StreamEvents\<close>.\<close>

lemma single_stream:
  "i < length (sv_streams sv) \<Longrightarrow> ss_open (sv_streams sv ! i) \<Longrightarrow>
   sv_sidecar (foldl server_step sv (map (Receive i) rs))
     = fst (stream_loop sidecar_handler limit (ss_node (sv_streams sv ! i)) (ss_bucket (sv_streams sv ! i)) (sv_sidecar sv) rs)"
proof (induction rs arbitrary: sv)
  case (Cons r rs)
  let ?st = "sv_streams sv ! i"
  obtain st h where r: "receive ?st r = (st, h)" by (cases "receive ?st r")
  define sv1 where "sv1 = server_step sv (Receive i r)"
  have sv1: "i < length (sv_streams sv1)" "sv_streams sv1 ! i = st"
    "sv_sidecar sv1 = (case h of None \<Rightarrow> sv_sidecar sv | Some (t, ev) \<Rightarrow> sidecar_handler (sv_sidecar sv) t ev)"
    using Cons.prems r by (simp_all add: sv1_def)
  have run: "foldl server_step sv (map (Receive i) (r # rs)) = foldl server_step sv1 (map (Receive i) rs)"
    by (simp add: sv1_def)
  show ?case
    unfolding run loop_receive [where f = sidecar_handler and s = "sv_sidecar sv", OF Cons.prems(2) r sv1(3)]
    using Cons.IH [OF sv1(1)] closed_stream [of sv1 i rs] sv1(2) by auto
qed simp

text \<open>
  The interleaved server implements the stream handler. When a peer
  connects and only its stream is active, the sidecar ends in the state that
  \<^verbatim>\<open>StreamEvents\<close> gives for this peer, whatever is received and wherever it ends.
\<close>

lemma stream_alone:
  "sv_sidecar (foldl server_step (server_step sv (Accept pr start)) (map (Receive (length (sv_streams sv))) rs))
   = fst (StreamEvents sidecar_handler (sv_rateLimit sv) pr start (sv_sidecar sv) rs)"
  using single_stream [of "length (sv_streams sv)" "server_step sv (Accept pr start)" rs "sv_rateLimit sv"]
  by (simp add: accept_stream_def StreamEvents_def)

section \<open>The invariant\<close>

lemma sidecar_tick_inv: "sidecar_inv s \<Longrightarrow> sidecar_inv (sidecar_tick s now)"
  unfolding sidecar_tick_def by (intro setGauges_inv) (simp add: map_inv_Sweep sidecar_inv_def)

interpretation server: component server_step "\<lambda>sv :: Server. sidecar_inv (sv_sidecar sv)"
proof
  fix sv :: Server and i
  assume "sidecar_inv (sv_sidecar sv)"
  then show "sidecar_inv (sv_sidecar (server_step sv i))"
    by (cases i) (auto simp: Let_def split_beta intro: sidecar_tick_inv sidecar.handler_inv split: option.split)
qed

section \<open>Nodes do not interfere\<close>

text \<open>What the sweeps of a run make of an entry.\<close>

definition sweep_once :: "duration \<Rightarrow> Entry option \<Rightarrow> time \<Rightarrow> Entry option" where
  "sweep_once ttl x now = Option.bind x (sweep_entry (now + wrap64 (- ttl)) (now + wrap64 (- 2 * ttl)))"

fun ticks :: "server_input list \<Rightarrow> time list" where
  "ticks [] = []"
| "ticks (SweepTick now # is) = now # ticks is"
| "ticks (i # is) = ticks is"

text \<open>An authenticated node other than \<open>n\<close>, and an event whose rotation record has another key than \<open>k\<close>.\<close>

definition other_node :: "string \<Rightarrow> string \<Rightarrow> bool" where
  "other_node n nodeID \<longleftrightarrow> nodeID \<noteq> [] \<and> nodeID \<noteq> n \<and> CHR ''|'' \<notin> set nodeID"

fun foreign :: "string \<Rightarrow> string \<Rightarrow> server_input \<Rightarrow> bool" where
  "foreign n k (Accept pr start) \<longleftrightarrow> other_node n (nodeIDFromPeer pr)"
| "foreign n k (Receive i (Recv now ev)) \<longleftrightarrow> syntheticKey ev (eventTime now ev) \<noteq> k"
| "foreign n k _ \<longleftrightarrow> True"

definition foreign_streams :: "string \<Rightarrow> Server \<Rightarrow> bool" where
  "foreign_streams n sv \<longleftrightarrow> (\<forall>st \<in> set (sv_streams sv). other_node n (ss_node st))"

lemma receive_node: "receive st r = (st1, h) \<Longrightarrow> ss_node st1 = ss_node st"
  by (cases r) (auto split: option.splits if_splits)

lemma receive_event:
  "receive st r = (st1, Some (t, ev)) \<Longrightarrow> \<exists>ev0. r = Recv t ev0 \<and> ev = bindNode (ss_node st) ev0"
  by (cases r) (auto split: option.splits if_splits)

lemma staleTTL_HandleEvent [simp]: "staleTTL (HandleEvent m wall ev) = staleTTL m"
  by (simp add: HandleEvent_def handleOpen_def handleClose_def handleData_def handleRotation_def markStaleFromNode_def
      observeProfile_def evictOldest_def trackCertRotation_def Let_def split_beta split: EventType.splits option.splits)

lemma staleTTL_step: "staleTTL (sc_map (sv_sidecar (server_step sv i))) = staleTTL (sc_map (sv_sidecar sv))"
  by (cases i) (auto simp: Let_def split_beta sidecar_handler_def sidecar_tick_def split: option.split)

lemma foreign_step: "foreign_streams n sv \<Longrightarrow> foreign n k i \<Longrightarrow> foreign_streams n (server_step sv i)"
proof (cases i)
  case (Receive j r)
  assume f: "foreign_streams n sv"
  obtain st h where r: "receive (sv_streams sv ! j) r = (st, h)" by (cases "receive (sv_streams sv ! j) r")
  show ?thesis
  proof (cases "j < length (sv_streams sv)")
    case True
    then have "other_node n (ss_node st)" using f receive_node [OF r] by (simp add: foreign_streams_def)
    with f r Receive show ?thesis
      using set_update_subset_insert [of "sv_streams sv" j st] by (auto simp: foreign_streams_def Let_def)
  qed (use f Receive in simp)
qed (auto simp: foreign_streams_def accept_stream_def)

text \<open>One foreign step, for a key of node \<open>n\<close>: nothing, a sweep, or an eviction.\<close>

lemma foreign_effect:
  assumes inv: "sidecar_inv (sv_sidecar sv)" and f: "foreign_streams n sv" "foreign n k i"
    and k: "k = connectionKey n src dst p" and n: "CHR ''|'' \<notin> set n"
    and e: "\<forall>e. table (sc_map (sv_sidecar sv)) k = Some e \<longrightarrow> en_NodeID e = n"
  shows "table (sc_map (sv_sidecar (server_step sv i))) k
     \<in> {None, foldl (sweep_once (staleTTL (sc_map (sv_sidecar sv)))) (table (sc_map (sv_sidecar sv)) k) (ticks [i])}"
proof -
  have m: "map_inv (sc_map (sv_sidecar sv))" using inv by (simp add: sidecar_inv_def)
  show ?thesis
  proof (cases i)
    case (SweepTick now)
    then show ?thesis using m by (simp add: sidecar_tick_def table_Sweep sweep_once_def)
  next
    case (Receive j r)
    show ?thesis
    proof (cases "j < length (sv_streams sv) \<and> ss_open (sv_streams sv ! j)")
      case True
      then have node: "other_node n (ss_node (sv_streams sv ! j))" using f(1) by (simp add: foreign_streams_def)
      obtain st h where r: "receive (sv_streams sv ! j) r = (st, h)" by (cases "receive (sv_streams sv ! j) r")
      show ?thesis
      proof (cases h)
        case (Some x)
        obtain t ev where x: "x = (t, ev)" by (cases x)
        obtain ev0 where ev0: "r = Recv t ev0" "ev = ev0\<lparr>ev_NodeId := ss_node (sv_streams sv ! j)\<rparr>"
          using receive_event [OF r [unfolded Some x]] node by (auto simp: bindNode_def other_node_def)
        have "table (HandleEvent (sc_map (sv_sidecar sv)) t ev) k \<in> {table (sc_map (sv_sidecar sv)) k, None}"
          using event_other_node [OF m _ _ n _ k e, of ev "ss_node (sv_streams sv ! j)" t] node f(2) ev0
          by (auto simp: Receive other_node_def syntheticKey_def eventTime_def)
        then show ?thesis using True r by (auto simp: Receive Some x sidecar_handler_def)
      qed (use True r Receive in simp)
    qed (use Receive in auto)
  qed simp
qed

lemma sweep_once_node: "sweep_once ttl (Some e) now = Some e1 \<Longrightarrow> en_NodeID e1 = en_NodeID e"
  by (auto simp: sweep_once_def sweep_entry_def split: if_splits)

lemma foreign_run:
  assumes "CHR ''|'' \<notin> set n" "k = connectionKey n src dst p"
  shows "sidecar_inv (sv_sidecar sv) \<Longrightarrow> foreign_streams n sv \<Longrightarrow> list_all (foreign n k) is \<Longrightarrow>
    \<forall>e. table (sc_map (sv_sidecar sv)) k = Some e \<longrightarrow> en_NodeID e = n \<Longrightarrow>
    table (sc_map (sv_sidecar (foldl server_step sv is))) k
      \<in> {None, foldl (sweep_once (staleTTL (sc_map (sv_sidecar sv)))) (table (sc_map (sv_sidecar sv)) k) (ticks is)}"
proof (induction "is" arbitrary: sv)
  case (Cons i is')
  let ?T = "\<lambda>sv. table (sc_map (sv_sidecar sv)) k" and ?ttl = "staleTTL (sc_map (sv_sidecar sv))"
  define sv1 where "sv1 = server_step sv i"
  have one: "?T sv1 \<in> {None, foldl (sweep_once ?ttl) (?T sv) (ticks [i])}"
    using foreign_effect [OF Cons.prems(1,2) _ assms(2,1) Cons.prems(4)] Cons.prems(3) by (simp add: sv1_def)
  have none: "foldl (sweep_once ttl) None ts = None" for ttl ts
    by (induction ts) (simp_all add: sweep_once_def)
  have node: "\<forall>e. ?T sv1 = Some e \<longrightarrow> en_NodeID e = n"
  proof (intro allI impI)
    fix e1
    assume e1: "?T sv1 = Some e1"
    then obtain e where e: "?T sv = Some e" using one none [of ?ttl "ticks [i]"] by (cases "?T sv") auto
    show "en_NodeID e1 = n"
      using one e e1 Cons.prems(4) sweep_once_node [of ?ttl e] by (cases i) auto
  qed
  have "?T (foldl server_step sv1 is') \<in> {None, foldl (sweep_once ?ttl) (?T sv1) (ticks is')}"
    using Cons.IH [of sv1] server.step_inv [OF Cons.prems(1), of i] foreign_step [OF Cons.prems(2), of k i]
      Cons.prems(3) node staleTTL_step [of sv i] by (simp add: sv1_def)
  with one none show ?case by (cases i) (auto simp: sv1_def)
qed simp


definition busy_server :: Server where
  "busy_server = \<lparr>sv_sidecar = sidecar_handler \<lparr>sc_map = NewMap 60, sc_received = 0,
       sc_activeConnections = 0, sc_identitiesActive = 0\<rparr> 0 (ev_open [] 7),
     sv_rateLimit = 0, sv_streams = [accept_stream 0 peer_example 0]\<rparr>"


end
