(* ===== verification/Sidecar_Shutdown.thy ===== *)
theory Sidecar_Shutdown
  imports Sidecar_Streams Sidecar_Main
begin

text \<open>
  The end of the sidecar (\<^verbatim>\<open>cmd/reflector-map/main.go\<close>). A signal ends the context; the
  goroutine of the sweep ends at some time after that; \<^verbatim>\<open>main\<close> stops the gRPC server, then
  the HTTP servers, and prints the statistics. Of gRPC, \<open>graceful\<close> has what
  \<^verbatim>\<open>GracefulStop\<close> documents: no new streams, and it returns when the streams have ended.
\<close>

section \<open>The process\<close>

datatype phase = Running | Stopping | Draining | Exited Stats

record SidecarProcess =
  sp_server :: Server
  sp_phase :: phase
  sp_sweeping :: bool

definition new_process :: "SidecarFlags \<Rightarrow> int \<Rightarrow> SidecarProcess" where
  "new_process flags rateLimit = \<lparr>sp_server = \<lparr>sv_sidecar = new_sidecar flags, sv_rateLimit = rateLimit, sv_streams = []\<rparr>,
     sp_phase = Running, sp_sweeping = True\<rparr>"

definition open_streams :: "Server \<Rightarrow> nat set" where
  "open_streams sv = {i. i < length (sv_streams sv) \<and> ss_open (sv_streams sv ! i)}"

text \<open>What the gRPC server still takes in a phase, and when its stop returns.\<close>

fun graceful :: "phase \<Rightarrow> server_input \<Rightarrow> bool" where
  "graceful Running i \<longleftrightarrow> True"
| "graceful Stopping (Accept pr start) \<longleftrightarrow> False"
| "graceful Stopping i \<longleftrightarrow> True"
| "graceful _ i \<longleftrightarrow> False"

fun is_tick :: "server_input \<Rightarrow> bool" where
  "is_tick (SweepTick now) \<longleftrightarrow> True"
| "is_tick _ \<longleftrightarrow> False"

inductive sidecar_moves :: "SidecarProcess \<Rightarrow> SidecarProcess \<Rightarrow> bool" where
  Serve: "graceful (sp_phase p) i \<Longrightarrow> \<not> is_tick i \<Longrightarrow> sidecar_moves p (p\<lparr>sp_server := server_step (sp_server p) i\<rparr>)"
| Tick: "sp_sweeping p \<Longrightarrow> \<forall>st. sp_phase p \<noteq> Exited st \<Longrightarrow>
    sidecar_moves p (p\<lparr>sp_server := server_step (sp_server p) (SweepTick now)\<rparr>)"
| Signal: "sp_phase p = Running \<Longrightarrow> sidecar_moves p (p\<lparr>sp_phase := Stopping\<rparr>)"
| SweepEnds: "sp_phase p \<noteq> Running \<Longrightarrow> sidecar_moves p (p\<lparr>sp_sweeping := False\<rparr>)"
| GracefulStop: "sp_phase p = Stopping \<Longrightarrow> open_streams (sp_server p) = {} \<Longrightarrow> sidecar_moves p (p\<lparr>sp_phase := Draining\<rparr>)"
| Shutdown: "sp_phase p = Draining \<Longrightarrow> sidecar_moves p (p\<lparr>sp_phase := Exited (final_stats (sv_sidecar (sp_server p)))\<rparr>)"

inductive_cases sidecar_movesE: "sidecar_moves p q"

section \<open>Shutdown waits for the agents\<close>

definition shutdown_inv :: "SidecarProcess \<Rightarrow> bool" where
  "shutdown_inv p \<longleftrightarrow> sidecar_inv (sv_sidecar (sp_server p))
     \<and> (case sp_phase p of
          Running \<Rightarrow> sp_sweeping p
        | Stopping \<Rightarrow> True
        | Draining \<Rightarrow> open_streams (sp_server p) = {}
        | Exited st \<Rightarrow> open_streams (sp_server p) = {} \<and> st = final_stats (sv_sidecar (sp_server p)))"

lemma tick_streams [simp]: "open_streams (server_step sv (SweepTick now)) = open_streams sv"
  by (simp add: open_streams_def)

lemma shutdown_inv_move:
  assumes "shutdown_inv p" "sidecar_moves p q"
  shows "shutdown_inv q"
  using assms(2)
proof cases
  case (Serve i)
  with assms(1) server.step_inv show ?thesis
    by (cases "sp_phase p") (simp_all add: shutdown_inv_def)
next
  case (Tick now)
  with assms(1) server.step_inv show ?thesis
    by (cases "sp_phase p") (simp_all add: shutdown_inv_def del: server_step.simps)
qed (use assms(1) in \<open>auto simp: shutdown_inv_def split: phase.splits\<close>)

lemma new_shutdown_inv: "shutdown_inv (new_process flags limit)"
  by (simp add: shutdown_inv_def new_process_def new_sidecar_inv)

lemma shutdown_inv_moves: "sidecar_moves\<^sup>*\<^sup>* p q \<Longrightarrow> shutdown_inv p \<Longrightarrow> shutdown_inv q"
  by (induction rule: rtranclp_induct) (auto intro: shutdown_inv_move)

text \<open>The end of every stream closes all of them.\<close>

lemma eof_closes: "open_streams (server_step sv (Receive i RecvEOF)) = open_streams sv - {i}"
  by (auto simp: open_streams_def Let_def nth_list_update)

lemma eof_moves:
  "finite A \<Longrightarrow> sp_phase p = Stopping \<Longrightarrow> A = open_streams (sp_server p) \<Longrightarrow>
   \<exists>q. sidecar_moves\<^sup>*\<^sup>* p q \<and> sp_phase q = Stopping \<and> open_streams (sp_server q) = {}"
proof (induction A arbitrary: p rule: finite_induct)
  case empty
  then show ?case by auto
next
  case (insert i A)
  let ?p = "p\<lparr>sp_server := server_step (sp_server p) (Receive i RecvEOF)\<rparr>"
  have "sidecar_moves p ?p" by (rule Serve) (simp_all add: insert.prems(1))
  moreover have "A = open_streams (sp_server ?p)"
    using insert.hyps insert.prems(2) by (simp add: eof_closes del: server_step.simps) blast
  then obtain q where "sidecar_moves\<^sup>*\<^sup>* ?p q" "sp_phase q = Stopping" "open_streams (sp_server q) = {}"
    using insert.IH [of ?p] insert.prems(1) by auto
  ultimately show ?case by (meson converse_rtranclp_into_rtranclp)
qed

lemma finite_open: "finite (open_streams sv)"
  by (simp add: open_streams_def)


definition ex_flags :: SidecarFlags where
  "ex_flags = \<lparr>sf_staleTTL = 60, sf_tls = \<lparr>tc_CACertFile = [], tc_CertFile = [], tc_KeyFile = []\<rparr>\<rparr>"

definition ex_stopping :: SidecarProcess where
  "ex_stopping = (new_process ex_flags 0)
     \<lparr>sp_server := server_step (sp_server (new_process ex_flags 0)) (Accept None 1), sp_phase := Stopping\<rparr>"


end
