(* ===== verification/Spec2Isabelle.thy ===== *)
theory Spec2Isabelle
  imports Session_Provenance Loaders Agent_Process Workload_Cert Sidecar_Shutdown
begin

text \<open>
  Verification library of the workload eBPF reflector.

  \<^bold>\<open>The program.\<close> An agent on every node (\<^verbatim>\<open>cmd/reflector\<close>) loads eBPF programs and reads the
  records they put into ring buffers: TCP connections, TLS plaintext, and certificates.
  It decodes them, extracts identities (SPIFFE, JWT, MCP, OTLP, Boundary), checks SPIFFE
  identities against a policy, may deny the flows of a process in a kernel map that a
  classifier reads, forwards OTLP exports, and sends events over a gRPC stream. A sidecar
  (\<^verbatim>\<open>cmd/reflector-map\<close>) receives the streams of all nodes, keeps a table of sessions with
  certificate rotations and behavioural profiles per identity, sweeps it periodically and
  answers queries over HTTP. A test workload (\<^verbatim>\<open>cmd/test-workload\<close>) makes traffic to observe.

  \<^bold>\<open>The theories\<close>, in order of import.

  \<^item> \<open>Prelude\<close>: types, byte strings, the parts of the packages strings, utf8, unicode and
    encoding/binary that the code uses, association lists, and the locales \<open>component\<close> (a
    step function with an invariant) and \<open>per_identity\<close> (one state per identity).
  \<^item> \<open>Go_Time\<close>, \<open>Go_Float\<close>, \<open>Go_Base64\<close>, \<open>Go_Json\<close>, \<open>Go_Json_Laws\<close>: the standard library
    as far as it is used. Times are nanoseconds since the year 1, durations have 64-bit
    wrap-around and saturation where the package time has them; float64 are rationals, each
    operation rounded to nearest even; base64 and JSON with their round trips.
  \<^item> \<open>Reflector_Event\<close>: the message of \<^verbatim>\<open>api/v1/reflector.pb.go\<close>.
  \<^item> \<open>Rotation\<close>, \<open>Profile\<close>: \<^verbatim>\<open>internal/session/rotation.go\<close> and \<^verbatim>\<open>profile.go\<close>. Trackers are
    records of maps; \<open>Track\<close> and \<open>Observe\<close> are the operations. Shown: bounded histories
    and windows, isolation of identities (interpretations \<open>rt\<close> and \<open>pt\<close> of
    \<open>per_identity\<close>), the rate limit, what each rotation class means, that a learned
    baseline cannot be rewritten, range and meaning of the deviation score.
  \<^item> \<open>Session_Map\<close>, \<open>Session_Spec\<close>, \<open>Session_Query\<close>: \<^verbatim>\<open>internal/session/map.go\<close>.
    \<open>HandleEvent\<close> is the whole handler, one definition per event type; \<open>Sweep\<close>, \<open>Lookup\<close>,
    \<open>QueryAll\<close>, \<open>GetStats\<close> are the others. \<open>map_step\<close> is the state machine, in which the
    iteration order of the table may change at any time, \<open>spec_event\<close> the abstract
    specification on finite maps. Shown: invariant and refinement, size cap and eviction
    rule, life cycle of an entry, exact effect of the sweep and reclamation, exactness of
    the attestation lookup, statistics against queries.
  \<^item> \<open>Session_Concurrent\<close>: the same file under concurrent calls. Entries live in a heap, a
    call is a sequence of segments (\<open>advance\<close>) between the lock operations of
    \<^verbatim>\<open>HandleEvent\<close>, and \<open>interleave\<close> lets calls, sweeps and orders of the table interleave.
    The locale \<open>interference\<close> is the contract of an invariant and a guarantee. Shown: a
    call alone is the sequential handler, the invariant holds in every interleaving, what
    is read without the lock is settled, every call returns, and calls are not atomic.
  \<^item> \<open>Session_Provenance\<close>: the lookup between the segments of concurrent calls. Shown: an
    attested identity was carried by an event of exactly the queried connection.
  \<^item> \<open>Session_Api\<close>: \<^verbatim>\<open>internal/session/api.go\<close> and \<^verbatim>\<open>internal/auth/token.go\<close>. Shown: status
    code of every request, token check, and the effect of an event from the far future.
  \<^item> \<open>Metrics\<close>: the counters of the agent and the endpoints of \<^verbatim>\<open>internal/metrics\<close>.
  \<^item> \<open>Stream\<close>: \<^verbatim>\<open>internal/stream/server.go\<close>, \<^verbatim>\<open>internal/auth/mtls.go\<close> and the handler of the
    sidecar. The server loop is parametric in its handler; the locale \<open>event_sink\<close> is the
    contract of a handler, interpreted on the session map and on the sidecar. Shown: the
    sidecar keeps its invariant, node names come from the certificate, nodes are isolated
    from each other, the token bucket bounds bursts.
  \<^item> \<open>Sidecar_Streams\<close>: any number of streams into one sidecar, interleaved with its sweeps.
    Shown: a stream alone is the loop of \<open>Stream\<close>, and nodes do not interfere.
  \<^item> \<open>Stream_Client\<close>: \<^verbatim>\<open>internal/stream/client.go\<close> and \<^verbatim>\<open>runStreamSender\<close> of the agent, with
    the open connections as state. \<open>sender_step\<close> is the protocol, and the sender with its
    client refines it.
  \<^item> \<open>Ring_Events\<close>: the decoders of \<^verbatim>\<open>internal/extract/event.go\<close>, \<^verbatim>\<open>tls_event.go\<close>,
    \<^verbatim>\<open>internal/ebpf/cert_loader.go\<close> and \<^verbatim>\<open>internal/certebpf/loader.go\<close>. Shown: inverse of the wire
    layout, bounds of captured data.
  \<^item> \<open>Probes\<close>: the eBPF programs \<^verbatim>\<open>internal/ebpf/bpf/reflector.c\<close>, \<^verbatim>\<open>tls_hook.c\<close> and
    \<^verbatim>\<open>cert_hook.c\<close>, one definition per program over its maps and its ring buffer. The locale
    \<open>thread_slots\<close> says that the programs of a thread leave the arguments of others alone.
    Shown: what record a call leaves for the decoders, with other calls in between, and
    which calls leave none.
  \<^item> \<open>Extract_Http\<close>: \<^verbatim>\<open>internal/extract/boundary.go\<close>, \<^verbatim>\<open>otlp.go\<close>, the header parts of
    \<^verbatim>\<open>jwt.go\<close> and \<^verbatim>\<open>mcp.go\<close>, and \<^verbatim>\<open>internal/forward/otlp.go\<close>. Slicing out of range is the
    outcome \<open>Panic\<close>. Shown: totality on ASCII headers and a panic on another one, safety of
    the token search, completeness of what is forwarded.
  \<^item> \<open>Identities\<close>: \<^verbatim>\<open>jwt.go\<close>, \<^verbatim>\<open>mcp.go\<close> and \<^verbatim>\<open>ExtractIdentitiesFromTLS\<close>. Shown: tokens and
    calls on the wire are observed with what they state and nothing else is, decoded claims
    are well-typed, identities are unambiguous.
  \<^item> \<open>Policy\<close>: \<^verbatim>\<open>internal/extract/spiffe.go\<close>, \<^verbatim>\<open>internal/policy\<close> with its default rules.
  \<^item> \<open>Enforce\<close>: the deny map of \<^verbatim>\<open>internal/ebpf/tc_loader.go\<close>, the classifier
    \<^verbatim>\<open>bpf/tc_drop.c\<close>, the parsers \<^verbatim>\<open>proc_conn.go\<close> and \<^verbatim>\<open>proc_scanner.go\<close>. Shown: when a denied
    flow is dropped, round trip of addresses.
  \<^item> \<open>Reflector\<close>, \<open>Agent_Stream\<close>: the rounds of \<^verbatim>\<open>cmd/reflector/main.go\<close> for connections,
    plaintext and certificates, with their counters. Shown: whom enforcement hits, what is
    reported, what of an agent's observations reaches the session table, balance of the
    counters, and the effect of one malformed token on the stream.
  \<^item> \<open>Agent_Process\<close>: the goroutines of the agent around the event channel as one process, in
    which a panic ends all. Shown: what is put into the channel is delivered in order, at
    most one event is lost per connection, and one request can stop the agent.
  \<^item> \<open>Sidecar_Main\<close>: the start of the sidecar and the path of a connection from the ring
    buffer of an agent to the answer of a query.
  \<^item> \<open>Sidecar_Shutdown\<close>: the end of the sidecar as a step relation over \<open>Sidecar_Streams\<close>.
    Shown: it waits for every agent, and ends when their streams have ended.
  \<^item> \<open>Probe_Agent\<close>: the probes composed with agent and sidecar. Shown: a connection is found
    under the addresses of its socket, IPv6 connections are merged, and the agent reports
    of a TLS call what is in the buffer of this call.
  \<^item> \<open>Workload\<close>, \<open>Workload_Cert\<close>: the test workload; its token, tool call, OTLP export and
    certificate are followed through probes, extractors and policy.
  \<^item> \<open>Loaders\<close>: \<^verbatim>\<open>loader.go\<close>, \<^verbatim>\<open>tls_loader.go\<close>, \<^verbatim>\<open>tc_loader.go\<close>, \<^verbatim>\<open>cert_loader.go\<close>,
    \<^verbatim>\<open>internal/certebpf/loader.go\<close> and the loading in \<^verbatim>\<open>main\<close>, over a kernel that hands out
    handles and may refuse every operation. The locale \<open>life_cycle\<close> is the contract of a
    loader, interpreted on all five. Shown: nothing is left behind, libraries are hooked
    once, what the reading loops handle.

  \<^bold>\<open>Bounds and fuel.\<close> The protobuf loops of \<open>Extract_Http\<close> take fuel, one more than the
  length of the message; the decoder consumes at least one byte per field, so \<open>NoFuel\<close>
  does not occur, which \<open>otlp_returns\<close> includes. All other recursion is structural or has
  a termination proof.

  \<^bold>\<open>Parameters.\<close> The X.509 library, key files, URL parser, SHA-256, the policy engine,
  protowire, the gRPC transport, the HTTP client, the Prometheus handler, proc files,
  \<^verbatim>\<open>stat\<close>, the results of kernel operations and of the helpers of eBPF programs, and the
  clock are arguments. The Unicode case table beyond ASCII is one too. Of \<^verbatim>\<open>GracefulStop\<close> the
  model has what its documentation says.

  \<^bold>\<open>Not modelled.\<close> Torn reads in the unlocked read of \<^verbatim>\<open>HandleEvent\<close>: the step is taken
  to be atomic. Fused multiply-add, which Go may use on some machines. The kernel's
  eviction from the deny map and the sizes of the maps of eBPF programs, which appear as
  updates and reservations that fail. Generated code: the gRPC stubs, the accessors of the
  message and the skeletons that embed compiled eBPF programs. The registry and text
  format of Prometheus, flag parsing and log lines, the TLS handshakes of crypto/tls, and
  the stubs for other platforms, which return an error.
\<close>

end
